(* ===== verification/Prelude.thy ===== *)
theory Prelude
  imports Main "HOL-Library.Word" "HOL-Library.Sublist"
begin

text \<open>
  Shared vocabulary of the development.  Types of the Rust standard library the sources use
  (bytes, byte slices, the fixed-width counters), the result type of fallible operations with its
  bind, list functions that model the iterator adaptors of the sources, and the generic lemmas the
  component theories rely on.
\<close>

section \<open>Rule collections\<close>

named_theorems result_simps \<open>equations for the result type and its bind\<close>
named_theorems ring_simps \<open>equations for byte rings and stream suffixes\<close>

section \<open>Bytes and counters\<close>

type_synonym byte = "8 word"
type_synonym bytes = "byte list"

text \<open>The largest value of a \<open>u64\<close>, and Rust's \<open>saturating_add\<close> at that width.\<close>

definition u64_max :: nat where
  "u64_max = 18446744073709551615"

definition saturating_add :: "nat \<Rightarrow> nat \<Rightarrow> nat" where
  "saturating_add a b = min u64_max (a + b)"

lemma saturating_add_exact [simp]: "a + b \<le> u64_max \<Longrightarrow> saturating_add a b = a + b"
  by (simp add: saturating_add_def)

lemma saturating_add_le [simp]: "saturating_add a b \<le> u64_max"
  by (simp add: saturating_add_def)

text \<open>\<open>wrapping_add(1)\<close> on a \<open>u64\<close> counter.\<close>

definition u64_succ :: "nat \<Rightarrow> nat" where
  "u64_succ n = (if n < u64_max then n + 1 else 0)"

lemma u64_succ_exact [simp]: "n < u64_max \<Longrightarrow> u64_succ n = n + 1"
  by (simp add: u64_succ_def)

section \<open>JSON documents\<close>

text \<open>
  \<open>serde_json::Value\<close>.  A number is an integer, which the reader of the library only delivers within 64 bits
  (\<open>u64\<close> or \<open>i64\<close>), or a finite double, given by its bits.  Object members keep their order.
\<close>

datatype json_number = NInt int | NFloat "64 word"

datatype json = JNull | JBool bool | JNum json_number | JStr string | JArr "json list"
  | JObj "(string \<times> json) list"

abbreviation JInt :: "int \<Rightarrow> json" where
  "JInt n \<equiv> JNum (NInt n)"

text \<open>\<open>Value::get\<close> with a string index and \<open>Value::as_str\<close>.\<close>

fun json_get :: "string \<Rightarrow> json \<Rightarrow> json option" where
  "json_get k (JObj kvs) = map_of kvs k"
| "json_get k _ = None"

fun as_str :: "json \<Rightarrow> string option" where
  "as_str (JStr s) = Some s"
| "as_str _ = None"

section \<open>Results\<close>

text \<open>
  A fallible Rust function returns \<open>'e + 'a\<close>: \<open>Inl\<close> carries the error, \<open>Inr\<close> the value.
  \<open>bindE\<close> is the \<open>?\<close> operator, \<open>guardE\<close> an early \<open>bail!\<close>.
\<close>

definition bindE :: "'e + 'a \<Rightarrow> ('a \<Rightarrow> 'e + 'b) \<Rightarrow> 'e + 'b" where
  "bindE m f = (case m of Inl e \<Rightarrow> Inl e | Inr x \<Rightarrow> f x)"

definition guardE :: "bool \<Rightarrow> 'e \<Rightarrow> 'e + unit" where
  "guardE b e = (if b then Inr () else Inl e)"

definition of_option :: "'e \<Rightarrow> 'a option \<Rightarrow> 'e + 'a" where
  "of_option e x = (case x of None \<Rightarrow> Inl e | Some y \<Rightarrow> Inr y)"

fun foldE :: "('a \<Rightarrow> 's \<Rightarrow> 'e + 's) \<Rightarrow> 'a list \<Rightarrow> 's \<Rightarrow> 'e + 's" where
  "foldE f [] s = Inr s"
| "foldE f (x # xs) s = bindE (f x s) (foldE f xs)"

lemma bindE_simps [simp, result_simps]:
  "bindE (Inl e) f = Inl e"
  "bindE (Inr x) f = f x"
  by (simp_all add: bindE_def)

lemma bindE_Inr_iff [result_simps]: "bindE m f = Inr y \<longleftrightarrow> (\<exists>x. m = Inr x \<and> f x = Inr y)"
  by (cases m) simp_all

lemma bindE_Inl_iff [result_simps]:
  "bindE m f = Inl e \<longleftrightarrow> m = Inl e \<or> (\<exists>x. m = Inr x \<and> f x = Inl e)"
  by (cases m) simp_all

lemma guardE_simps [simp, result_simps]:
  "guardE True e = Inr ()"
  "guardE False e = Inl e"
  "guardE b e = Inr u \<longleftrightarrow> b"
  "guardE b e = Inl e' \<longleftrightarrow> \<not> b \<and> e = e'"
  by (auto simp: guardE_def)

lemma of_option_simps [simp, result_simps]:
  "of_option e None = Inl e"
  "of_option e (Some x) = Inr x"
  "of_option e ox = Inr y \<longleftrightarrow> ox = Some y"
  "of_option e ox = Inl e' \<longleftrightarrow> ox = None \<and> e = e'"
  by (auto simp: of_option_def split: option.splits)

text \<open>An invariant kept by the step of a fallible fold is kept by the fold.\<close>

lemma foldE_invariant:
  assumes "foldE f xs s = Inr s'" and "P s"
    and "\<And>x s s'. x \<in> set xs \<Longrightarrow> P s \<Longrightarrow> f x s = Inr s' \<Longrightarrow> P s'"
  shows "P s'"
  using assms
proof (induction xs arbitrary: s)
  case Nil
  then show ?case by simp
next
  case (Cons x xs)
  from Cons.prems(1) obtain t where t: "f x s = Inr t" "foldE f xs t = Inr s'"
    by (auto simp: bindE_Inr_iff)
  have "P t" using Cons.prems(2,3) t(1) by (meson list.set_intros(1))
  then show ?case using Cons.IH [OF t(2)] Cons.prems(3) by (meson list.set_intros(2))
qed

section \<open>Lists\<close>

text \<open>\<open>position p xs\<close> is Rust's \<open>iter().position(p)\<close>.\<close>

fun position :: "('a \<Rightarrow> bool) \<Rightarrow> 'a list \<Rightarrow> nat option" where
  "position p [] = None"
| "position p (x # xs) = (if p x then Some 0 else map_option Suc (position p xs))"

lemma position_Some:
  "position p xs = Some i \<Longrightarrow> i < length xs \<and> p (xs ! i) \<and> (\<forall>j<i. \<not> p (xs ! j))"
proof (induction xs arbitrary: i)
  case (Cons x xs)
  then show ?case
    by (cases i) (auto split: if_splits simp: nth_Cons split: nat.splits)
qed simp

lemma position_None [simp]: "position p xs = None \<longleftrightarrow> (\<forall>x \<in> set xs. \<not> p x)"
  by (induction xs) auto

text \<open>\<open>keep_last n xs\<close> is the abstract content of a bounded byte ring: the last \<open>n\<close> elements.\<close>

definition keep_last :: "nat \<Rightarrow> 'a list \<Rightarrow> 'a list" where
  "keep_last n xs = drop (length xs - n) xs"

lemma length_keep_last [simp, ring_simps]: "length (keep_last n xs) = min n (length xs)"
  by (simp add: keep_last_def)

lemma keep_last_all [simp, ring_simps]: "length xs \<le> n \<Longrightarrow> keep_last n xs = xs"
  by (simp add: keep_last_def)

lemma suffix_keep_last [simp, intro]: "suffix (keep_last n xs) xs"
  by (simp add: keep_last_def suffix_drop)

lemma keep_last_append_long [ring_simps]: "n \<le> length ys \<Longrightarrow> keep_last n (xs @ ys) = keep_last n ys"
  by (simp add: keep_last_def)

lemma keep_last_keep_last_append [ring_simps]:
  "keep_last n (keep_last n xs @ ys) = keep_last n (xs @ ys)"
  by (cases "n \<le> length xs") (simp_all add: keep_last_def add.commute)

lemma last_append_take: "0 < k \<Longrightarrow> k \<le> length xs \<Longrightarrow> last (ys @ take k xs) = xs ! (k - 1)"
  by (cases xs) (auto simp: last_append last_conv_nth min_def)

lemma takeWhile_dropWhile_all:
  "\<forall>x \<in> set xs. P x \<Longrightarrow> takeWhile P xs = xs"
  "\<forall>x \<in> set xs. P x \<Longrightarrow> dropWhile P xs = []"
  by (simp_all add: takeWhile_eq_all_conv)

lemma suffix_eq_drop: "suffix xs ys \<Longrightarrow> xs = drop (length ys - length xs) ys"
  by (auto simp: suffix_def)

end
