(* ===== verification/Utf8.thy ===== *)
theory Utf8
  imports Prelude
begin

text \<open>
  The UTF-8 functions of the Rust standard library that the sources call: \<open>from_utf8_lossy\<close>
  replaces each maximal invalid subpart by U+FFFD, \<open>from_utf8\<close> rejects invalid input.  A Rust
  string is its UTF-8 byte list.
\<close>

section \<open>Decoding\<close>

definition in_range :: "byte \<Rightarrow> byte \<Rightarrow> byte \<Rightarrow> bool" where
  "in_range lo hi b \<longleftrightarrow> lo \<le> b \<and> b \<le> hi"

text \<open>The bytes allowed after a lead byte of a three or four byte sequence.\<close>

definition second_ok :: "byte \<Rightarrow> byte \<Rightarrow> bool" where
  "second_ok lead b \<longleftrightarrow>
    (if lead = 0xE0 then in_range 0xA0 0xBF b
     else if lead = 0xED then in_range 0x80 0x9F b
     else if lead = 0xF0 then in_range 0x90 0xBF b
     else if lead = 0xF4 then in_range 0x80 0x8F b
     else in_range 0x80 0xBF b)"

text \<open>The number of bytes that must follow a lead byte, \<open>None\<close> when it cannot start a sequence.\<close>

definition utf8_trailing :: "byte \<Rightarrow> nat option" where
  "utf8_trailing b =
    (if b < 0x80 then Some 0
     else if in_range 0xC2 0xDF b then Some 1
     else if in_range 0xE0 0xEF b then Some 2
     else if in_range 0xF0 0xF4 b then Some 3
     else None)"

text \<open>How many of the required continuation bytes are present and acceptable.\<close>

fun take_trailing :: "byte \<Rightarrow> bool \<Rightarrow> nat \<Rightarrow> bytes \<Rightarrow> nat" where
  "take_trailing lead first 0 bs = 0"
| "take_trailing lead first (Suc n) [] = 0"
| "take_trailing lead first (Suc n) (b # bs) =
    (if (if first then second_ok lead b else in_range 0x80 0xBF b)
     then Suc (take_trailing lead False n bs) else 0)"

definition utf8_replacement :: bytes where
  "utf8_replacement = [0xEF, 0xBF, 0xBD]"

fun from_utf8_lossy :: "bytes \<Rightarrow> bytes" where
  "from_utf8_lossy [] = []"
| "from_utf8_lossy (b # bs) =
    (case utf8_trailing b of
       None \<Rightarrow> utf8_replacement @ from_utf8_lossy bs
     | Some n \<Rightarrow>
         (let k = take_trailing b True n bs
          in (if k = n then b # take k bs else utf8_replacement) @ from_utf8_lossy (drop k bs)))"

fun utf8_valid :: "bytes \<Rightarrow> bool" where
  "utf8_valid [] = True"
| "utf8_valid (b # bs) =
    (case utf8_trailing b of
       None \<Rightarrow> False
     | Some n \<Rightarrow> (let k = take_trailing b True n bs in k = n \<and> utf8_valid (drop k bs)))"

definition from_utf8 :: "bytes \<Rightarrow> bytes option" where
  "from_utf8 bs = (if utf8_valid bs then Some bs else None)"

section \<open>Valid input is unchanged\<close>

lemma from_utf8_lossy_valid: "utf8_valid bs \<Longrightarrow> from_utf8_lossy bs = bs"
proof (induction bs rule: utf8_valid.induct)
  case (2 b bs)
  from 2(2) obtain n where n: "utf8_trailing b = Some n" "take_trailing b True n bs = n"
    "utf8_valid (drop n bs)"
    by (auto split: option.splits simp: Let_def)
  have "from_utf8_lossy (drop n bs) = drop n bs" using 2(1) [OF n(1) refl] n(2,3) by simp
  with n show ?case by simp
qed simp

lemma utf8_valid_ascii: "(\<forall>b \<in> set p. b < 0x80) \<Longrightarrow> utf8_valid p"
  by (induction p) (simp_all add: utf8_trailing_def Let_def)

end
