(* ===== verification/Title_Tracker.thy ===== *)
theory Title_Tracker
  imports Utf8
begin

text \<open>
  The terminal title tracker, \<open>rust/alera-cli/src/terminal_host/session/title_tracker.rs\<close>: a
  byte-driven recogniser of the OSC 0 and OSC 2 escape sequences.  A Rust \<open>String\<close> is its UTF-8
  byte list.
\<close>

section \<open>Model of the tracker\<close>

definition max_title_bytes :: nat where
  "max_title_bytes = 4096"

definition max_osc_code_bytes :: nat where
  "max_osc_code_bytes = 16"

datatype parser_state = Ground | Escape | OscCode | OscTitle | OscTitleTail | OscDiscard | OscEscape

record title_tracker =
  tt_state :: parser_state
  tt_code :: bytes
  tt_title :: bytes
  tt_title_valid :: bool
  tt_current_title :: "bytes option"

definition tt_default :: title_tracker where
  "tt_default = \<lparr>tt_state = Ground, tt_code = [], tt_title = [], tt_title_valid = False,
     tt_current_title = None\<rparr>"

definition reset_osc :: "title_tracker \<Rightarrow> title_tracker" where
  "reset_osc t = t\<lparr>tt_code := [], tt_title := [], tt_title_valid := False, tt_state := Ground\<rparr>"

definition finish_osc :: "title_tracker \<Rightarrow> title_tracker" where
  "finish_osc t = reset_osc
    (if tt_title_valid t \<and> length (tt_title t) \<le> max_title_bytes
     then t\<lparr>tt_current_title := Some (from_utf8_lossy (tt_title t))\<rparr> else t)"

definition feed_byte :: "title_tracker \<Rightarrow> byte \<Rightarrow> title_tracker" where
  "feed_byte t b =
    (case tt_state t of
       Ground \<Rightarrow> if b = 0x1B then t\<lparr>tt_state := Escape\<rparr> else t
     | Escape \<Rightarrow>
         if b = 0x5D then
           t\<lparr>tt_code := [], tt_title := [], tt_title_valid := False, tt_state := OscCode\<rparr>
         else if b \<noteq> 0x1B then t\<lparr>tt_state := Ground\<rparr> else t
     | OscCode \<Rightarrow>
         if b = 0x07 then finish_osc t
         else if b = 0x1B then t\<lparr>tt_state := OscEscape\<rparr>
         else if b = 0x3B then
           (let valid = tt_code t = [0x30] \<or> tt_code t = [0x32]
            in t\<lparr>tt_title_valid := valid, tt_state := if valid then OscTitle else OscDiscard\<rparr>)
         else if length (tt_code t) < max_osc_code_bytes then t\<lparr>tt_code := tt_code t @ [b]\<rparr>
         else t\<lparr>tt_title_valid := False, tt_state := OscDiscard\<rparr>
     | OscTitle \<Rightarrow>
         if b = 0x07 then finish_osc t
         else if b = 0x1B then t\<lparr>tt_state := OscEscape\<rparr>
         else if b = 0x3B then t\<lparr>tt_state := OscTitleTail\<rparr>
         else if length (tt_title t) < max_title_bytes then t\<lparr>tt_title := tt_title t @ [b]\<rparr>
         else t\<lparr>tt_title_valid := False, tt_state := OscDiscard\<rparr>
     | OscTitleTail \<Rightarrow>
         if b = 0x07 then finish_osc t
         else if b = 0x1B then t\<lparr>tt_state := OscEscape\<rparr> else t
     | OscDiscard \<Rightarrow>
         if b = 0x07 then reset_osc t
         else if b = 0x1B then t\<lparr>tt_state := OscEscape\<rparr> else t
     | OscEscape \<Rightarrow> if b = 0x5C then finish_osc t else reset_osc t)"

definition tt_feed :: "title_tracker \<Rightarrow> bytes \<Rightarrow> title_tracker \<times> bytes option" where
  "tt_feed t data =
    (let t' = foldl feed_byte t data
     in (t', if tt_current_title t' \<noteq> tt_current_title t then tt_current_title t' else None))"

section \<open>Correctness\<close>

text \<open>
  The memory of the tracker is bounded whatever it is fed, and a title is only collected for the
  codes 0 and 2.
\<close>

definition tt_inv :: "title_tracker \<Rightarrow> bool" where
  "tt_inv t \<longleftrightarrow> length (tt_code t) \<le> max_osc_code_bytes \<and> length (tt_title t) \<le> max_title_bytes
    \<and> (tt_title_valid t \<longrightarrow> tt_code t = [0x30] \<or> tt_code t = [0x32])
    \<and> (tt_state t = OscTitle \<longrightarrow> tt_title_valid t)
    \<and> (tt_state t = OscCode \<longrightarrow> \<not> tt_title_valid t)"

lemma tt_inv_feed_byte: "tt_inv t \<Longrightarrow> tt_inv (feed_byte t b)"
  by (cases "tt_state t")
    (auto simp: feed_byte_def tt_inv_def finish_osc_def reset_osc_def max_osc_code_bytes_def
      max_title_bytes_def Let_def)

lemma tt_inv_foldl: "tt_inv t \<Longrightarrow> tt_inv (foldl feed_byte t data)"
  by (induction data arbitrary: t) (simp_all add: tt_inv_feed_byte)

text \<open>After a sequence only the current title is left.\<close>

lemma reset_osc_eq: "tt_current_title s = tt_current_title t \<Longrightarrow> reset_osc s = reset_osc t"
  by (cases s; cases t) (simp add: reset_osc_def)

definition osc_text :: "bytes \<Rightarrow> bool" where
  "osc_text p \<longleftrightarrow> 0x07 \<notin> set p \<and> 0x1B \<notin> set p"

text \<open>The states that skip a text.\<close>

lemma skip_text:
  assumes "tt_state t \<in> {OscTitleTail, OscDiscard}" "osc_text p"
  shows "foldl feed_byte t p = t"
  using assms by (induction p) (auto simp: feed_byte_def osc_text_def)

text \<open>The code: up to sixteen bytes are collected, a longer one is discarded.\<close>

lemma collect_code:
  assumes "tt_state t = OscCode" "osc_text p" "0x3B \<notin> set p" "length (tt_code t) \<le> max_osc_code_bytes"
  shows "foldl feed_byte t p =
    (if length (tt_code t) + length p \<le> max_osc_code_bytes then t\<lparr>tt_code := tt_code t @ p\<rparr>
     else t\<lparr>tt_code := take max_osc_code_bytes (tt_code t @ p), tt_title_valid := False, tt_state := OscDiscard\<rparr>)"
  using assms
proof (induction p arbitrary: t)
  case (Cons b p)
  show ?case
  proof (cases "length (tt_code t) < max_osc_code_bytes")
    case True
    then have "feed_byte t b = t\<lparr>tt_code := tt_code t @ [b]\<rparr>"
      using Cons.prems by (simp add: feed_byte_def osc_text_def)
    with Cons.IH [of "feed_byte t b"] Cons.prems True show ?thesis by (simp add: osc_text_def)
  next
    case False
    then have "feed_byte t b = t\<lparr>tt_title_valid := False, tt_state := OscDiscard\<rparr>"
      using Cons.prems by (simp add: feed_byte_def osc_text_def)
    with False Cons.prems show ?thesis
      using skip_text [of "feed_byte t b" p] by (simp add: osc_text_def)
  qed
qed simp

text \<open>The title: the text before the first semicolon, unless it is too long.\<close>

lemma collect_title:
  assumes "tt_state t = OscTitle" "osc_text p" "length (tt_title t) \<le> max_title_bytes"
  shows "let title = tt_title t @ takeWhile (\<lambda>b. b \<noteq> 0x3B) p; s = foldl feed_byte t p in
    tt_current_title s = tt_current_title t \<and> tt_state s \<in> {OscTitle, OscTitleTail, OscDiscard}
    \<and> (if length title \<le> max_title_bytes
       then tt_title s = title \<and> tt_title_valid s = tt_title_valid t \<and> tt_state s \<noteq> OscDiscard
       else \<not> tt_title_valid s)"
  using assms
proof (induction p arbitrary: t)
  case (Cons b p)
  have inner: "osc_text p" "b \<noteq> 0x07" "b \<noteq> 0x1B" using Cons.prems(2) by (auto simp: osc_text_def)
  consider (tail) "b = 0x3B" | (more) "b \<noteq> 0x3B" "length (tt_title t) < max_title_bytes"
    | (long) "b \<noteq> 0x3B" "length (tt_title t) = max_title_bytes" using Cons.prems(3) by linarith
  then show ?case
  proof cases
    case tail
    then have "feed_byte t b = t\<lparr>tt_state := OscTitleTail\<rparr>" using Cons.prems(1) by (simp add: feed_byte_def)
    with tail skip_text [of "feed_byte t b" p] inner Cons.prems(3) show ?thesis by (simp add: Let_def)
  next
    case more
    then have "feed_byte t b = t\<lparr>tt_title := tt_title t @ [b]\<rparr>"
      using Cons.prems(1) inner by (simp add: feed_byte_def)
    with Cons.IH [of "feed_byte t b"] Cons.prems(1) inner more show ?thesis by (simp add: Let_def)
  next
    case long
    then have "feed_byte t b = t\<lparr>tt_title_valid := False, tt_state := OscDiscard\<rparr>"
      using Cons.prems(1) inner by (simp add: feed_byte_def)
    with skip_text [of "feed_byte t b" p] inner long show ?thesis by (simp add: Let_def)
  qed
qed simp

lemma start_osc:
  assumes "tt_state t = Ground"
  shows "foldl feed_byte t [0x1B, 0x5D] = t\<lparr>tt_state := OscCode, tt_code := [], tt_title := [], tt_title_valid := False\<rparr>"
  using assms by (simp add: feed_byte_def)

lemma end_osc:
  assumes "term = [0x07] \<or> term = [0x1B, 0x5C]" "tt_state s \<in> {OscTitle, OscTitleTail, OscDiscard}"
    and "tt_state s = OscDiscard \<longrightarrow> \<not> tt_title_valid s"
  shows "foldl feed_byte s term = finish_osc s"
  using assms by (auto simp: feed_byte_def finish_osc_def reset_osc_def)

section \<open>Properties\<close>

text \<open>
  C29: What an OSC sequence does to the title.  From the ground state, a sequence with any code and any text
  without terminator bytes, ended by either terminator, returns to the ground state.  With code 0 or 2 and at most
  4096 bytes before the first semicolon of the text, these bytes (decoded as UTF-8) become the current title and
  what follows the semicolon is ignored; with any other code, or a longer title, the current title stays.  The
  title is reported exactly when it has changed.
\<close>

theorem title_recognised:
  assumes "tt_state t = Ground" "osc_text code" "0x3B \<notin> set code" "osc_text p"
    and "term = [0x07] \<or> term = [0x1B, 0x5C]"
  shows "tt_feed t ([0x1B, 0x5D] @ code @ [0x3B] @ p @ term) =
    (let title = takeWhile (\<lambda>b. b \<noteq> 0x3B) p;
         new = (if code \<in> {[0x30], [0x32]} \<and> length title \<le> 4096 then Some (from_utf8_lossy title)
                else tt_current_title t)
     in (reset_osc (t\<lparr>tt_current_title := new\<rparr>), if new = tt_current_title t then None else new))"
proof -
  let ?title = "takeWhile (\<lambda>b. b \<noteq> 0x3B) p"
  let ?c = "t\<lparr>tt_state := OscCode, tt_code := [], tt_title := [], tt_title_valid := False\<rparr>"
  let ?s = "foldl feed_byte (feed_byte (foldl feed_byte ?c code) 0x3B) p"
  let ?new = "if code \<in> {[0x30], [0x32]} \<and> length ?title \<le> 4096 then Some (from_utf8_lossy ?title) else tt_current_title t"
  have run: "foldl feed_byte t ([0x1B, 0x5D] @ code @ [0x3B] @ p @ term) = foldl feed_byte ?s term"
    using start_osc [OF assms(1)] by simp
  have "finish_osc ?s = reset_osc (t\<lparr>tt_current_title := ?new\<rparr>)
    \<and> tt_state ?s \<in> {OscTitle, OscTitleTail, OscDiscard} \<and> (tt_state ?s = OscDiscard \<longrightarrow> \<not> tt_title_valid ?s)"
  proof (cases "code \<in> {[0x30], [0x32]}")
    case True
    let ?o = "?c\<lparr>tt_code := code, tt_title_valid := True, tt_state := OscTitle\<rparr>"
    have "feed_byte (foldl feed_byte ?c code) 0x3B = ?o"
      using True by (auto simp: feed_byte_def max_osc_code_bytes_def Let_def)
    with collect_title [of ?o p] assms(4) True show ?thesis
      by (auto simp: Let_def finish_osc_def max_title_bytes_def split: if_splits intro!: reset_osc_eq)
  next
    case False
    define d where "d = feed_byte (foldl feed_byte ?c code) 0x3B"
    have "tt_state d = OscDiscard \<and> \<not> tt_title_valid d \<and> tt_current_title d = tt_current_title t"
      using collect_code [of ?c code] assms(2,3) False unfolding d_def
      by (auto simp: feed_byte_def Let_def split: if_splits)
    then show ?thesis
      using skip_text [of d p] assms(4) False unfolding d_def [symmetric]
      by (auto simp: finish_osc_def intro!: reset_osc_eq)
  qed
  then have "foldl feed_byte t ([0x1B, 0x5D] @ code @ [0x3B] @ p @ term) = reset_osc (t\<lparr>tt_current_title := ?new\<rparr>)"
    using run end_osc [OF assms(5), of ?s] by simp
  then show ?thesis unfolding tt_feed_def Let_def by (simp add: reset_osc_def)
qed

text \<open>A title with a second parameter, then a sequence with another code.\<close>

theorem title_recognised_witness:
  "tt_feed tt_default ([0x1B, 0x5D] @ [0x32] @ [0x3B] @ [80, 108, 97, 110, 0x3B, 88] @ [0x1B, 0x5C])
    = (tt_default\<lparr>tt_current_title := Some [80, 108, 97, 110]\<rparr>, Some [80, 108, 97, 110])
    \<and> tt_feed tt_default ([0x1B, 0x5D] @ [0x31] @ [0x3B] @ [88] @ [0x07]) = (tt_default, None)"
proof -
  have "from_utf8_lossy [80, 108, 97, 110] = [80, 108, 97, 110]"
    by (rule from_utf8_lossy_valid, rule utf8_valid_ascii) simp
  with title_recognised [of tt_default "[0x32]" "[80, 108, 97, 110, 0x3B, 88]" "[0x1B, 0x5C]"]
    title_recognised [of tt_default "[0x31]" "[88]" "[0x07]"]
  show ?thesis by (simp add: tt_default_def reset_osc_def osc_text_def Let_def)
qed

text \<open>
  The tracker runs in bounded memory on every input: after any output it keeps at most 16
  bytes of the OSC code and at most 4096 bytes of a title.
\<close>

theorem tracker_memory_bounded:
  "length (tt_code (foldl feed_byte tt_default data)) \<le> 16
    \<and> length (tt_title (foldl feed_byte tt_default data)) \<le> 4096"
proof -
  have "tt_inv tt_default" by (simp add: tt_inv_def tt_default_def)
  from tt_inv_foldl [OF this, of data] show ?thesis
    by (auto simp: tt_inv_def max_osc_code_bytes_def max_title_bytes_def)
qed

end
