(* ===== verification/Scrollback_Buffer.thy ===== *)
theory Scrollback_Buffer
  imports Prelude
begin

text \<open>
  The bounded scrollback buffer of a terminal session,
  \<open>rust/alera-cli/src/terminal_host/buffer.rs\<close>.  The chunk deque is a list of byte lists, the
  cached \<open>length\<close> field is kept as the code keeps it, and the abstract content of the buffer is
  the byte list \<open>to_bytes\<close>.  The locale \<open>byte_ring\<close> is the contract the session relies on; it is
  interpreted at the end on the model of the code.
\<close>

section \<open>Model\<close>

definition line_align_scan_bytes :: nat where
  "line_align_scan_bytes = 4 * 1024"

unbundle bit_operations_syntax

definition is_utf8_continuation :: "byte \<Rightarrow> bool" where
  "is_utf8_continuation b \<longleftrightarrow> b AND 0xC0 = 0x80"

record scrollback =
  sb_chunks :: "bytes list"
  sb_length :: nat
  sb_max_bytes :: nat

text \<open>The \<open>while\<close> loop of \<open>trim_to_limit\<close>: the remaining excess, the deque and the length field.\<close>

fun trim_loop :: "nat \<Rightarrow> bytes list \<Rightarrow> nat \<Rightarrow> bytes list \<times> nat" where
  "trim_loop excess [] len = ([], len)"
| "trim_loop excess (first # rest) len =
    (if excess = 0 then (first # rest, len)
     else if length first \<le> excess then trim_loop (excess - length first) rest (len - length first)
     else (drop excess first # rest, len - excess))"

definition trim_to_limit :: "scrollback \<Rightarrow> scrollback" where
  "trim_to_limit b =
    (if sb_length b \<le> sb_max_bytes b then b
     else case trim_loop (sb_length b - sb_max_bytes b) (sb_chunks b) (sb_length b) of
       (cs, len) \<Rightarrow> b\<lparr>sb_chunks := cs, sb_length := len\<rparr>)"

definition sb_append :: "scrollback \<Rightarrow> bytes \<Rightarrow> scrollback" where
  "sb_append b data =
    (if data = [] then b
     else if sb_max_bytes b \<le> length data then
       (let tl = drop (length data - sb_max_bytes b) data
        in b\<lparr>sb_chunks := [tl], sb_length := length tl\<rparr>)
     else trim_to_limit
       (b\<lparr>sb_chunks := sb_chunks b @ [data], sb_length := sb_length b + length data\<rparr>))"

definition sb_new :: "nat \<Rightarrow> bytes \<Rightarrow> scrollback" where
  "sb_new max_bytes initial =
    (let buffer = \<lparr>sb_chunks = [], sb_length = 0, sb_max_bytes = max_bytes\<rparr>
     in if initial \<noteq> [] then sb_append buffer initial else buffer)"

definition set_max_bytes :: "scrollback \<Rightarrow> nat \<Rightarrow> scrollback" where
  "set_max_bytes b v = trim_to_limit (b\<lparr>sb_max_bytes := v\<rparr>)"

definition to_bytes :: "scrollback \<Rightarrow> bytes" where
  "to_bytes b = concat (sb_chunks b)"

text \<open>The \<open>for\<close> loop of \<open>slice_from\<close>; \<open>start.saturating_sub(skipped)\<close> is truncated subtraction.\<close>

fun slice_loop :: "nat \<Rightarrow> nat \<Rightarrow> bytes list \<Rightarrow> bytes" where
  "slice_loop start skipped [] = []"
| "slice_loop start skipped (c # cs) =
    (if skipped + length c \<le> start then slice_loop start (skipped + length c) cs
     else drop (start - skipped) c @ slice_loop start (skipped + length c) cs)"

definition slice_from :: "scrollback \<Rightarrow> nat \<Rightarrow> bytes" where
  "slice_from b start =
    (if sb_length b \<le> start then [] else slice_loop start 0 (sb_chunks b))"

text \<open>Where \<open>tail\<close> starts inside the last \<open>max_bytes\<close> bytes.\<close>

definition tail_start :: "bytes \<Rightarrow> nat" where
  "tail_start bs =
    (case position (\<lambda>b. b = 10) (take line_align_scan_bytes bs) of
       Some newline \<Rightarrow> newline + 1
     | None \<Rightarrow> (case position (\<lambda>b. \<not> is_utf8_continuation b) bs of
         Some i \<Rightarrow> i
       | None \<Rightarrow> length bs))"

definition sb_tail :: "scrollback \<Rightarrow> nat \<Rightarrow> bytes" where
  "sb_tail b max_bytes =
    (if sb_length b \<le> max_bytes then to_bytes b
     else let bs = slice_from b (sb_length b - max_bytes) in drop (tail_start bs) bs)"

definition sb_len :: "scrollback \<Rightarrow> nat" where
  "sb_len b = sb_length b"

definition sb_is_empty :: "scrollback \<Rightarrow> bool" where
  "sb_is_empty b \<longleftrightarrow> sb_length b = 0"

section \<open>Well-formedness\<close>

text \<open>The cached length is the number of retained bytes, and the cap is respected.\<close>

definition sb_inv :: "scrollback \<Rightarrow> bool" where
  "sb_inv b \<longleftrightarrow> sb_length b = length (to_bytes b) \<and> sb_length b \<le> sb_max_bytes b"

section \<open>The contract of a byte ring\<close>

text \<open>
  What the session relies on: the ring holds the last \<open>cap\<close> bytes of what was written to it, and
  it can be read from any offset.
\<close>

locale byte_ring =
  fixes content :: "'r \<Rightarrow> bytes"
    and cap :: "'r \<Rightarrow> nat"
    and push :: "'r \<Rightarrow> bytes \<Rightarrow> 'r"
    and read_from :: "'r \<Rightarrow> nat \<Rightarrow> bytes"
    and size_of :: "'r \<Rightarrow> nat"
    and ok :: "'r \<Rightarrow> bool"
  assumes ok_push: "ok r \<Longrightarrow> ok (push r d)"
    and cap_push: "cap (push r d) = cap r"
    and content_push: "ok r \<Longrightarrow> content (push r d) = keep_last (cap r) (content r @ d)"
    and content_cap: "ok r \<Longrightarrow> length (content r) \<le> cap r"
    and read_from_content: "ok r \<Longrightarrow> read_from r n = drop n (content r)"
    and size_of_content: "ok r \<Longrightarrow> size_of r = length (content r)"
begin

text \<open>Writing a sequence of chunks keeps the last \<open>cap\<close> bytes of their concatenation.\<close>

lemma content_pushes:
  assumes "ok r"
  shows "ok (foldl push r ds) \<and> cap (foldl push r ds) = cap r
    \<and> content (foldl push r ds) = keep_last (cap r) (content r @ concat ds)"
  using assms
proof (induction ds arbitrary: r)
  case Nil
  then show ?case using content_cap by simp
next
  case (Cons d ds)
  then show ?case
    using Cons.IH [of "push r d"] keep_last_keep_last_append [of "cap r" "content r @ d" "concat ds"]
    by (simp add: ok_push cap_push content_push)
qed

text \<open>A ring that held a suffix of a stream still does after the stream has grown by \<open>d\<close>.\<close>

lemma suffix_push:
  assumes "ok r" "suffix (content r) stream"
  shows "suffix (content (push r d)) (stream @ d)"
proof -
  have "suffix (keep_last (cap r) (content r @ d)) (content r @ d)" by blast
  moreover have "suffix (content r @ d) (stream @ d)" using assms(2) by simp
  ultimately show ?thesis
    using content_push [OF assms(1)] suffix_order.trans by metis
qed

text \<open>
  Reading a ring that holds a suffix of the stream from the offset of an absolute position that is
  still retained gives everything of the stream after that position.
\<close>

lemma read_from_stream:
  assumes "ok r" "suffix (content r) stream"
    and "length stream - size_of r \<le> pos"
  shows "read_from r (pos - (length stream - size_of r)) = drop pos stream"
proof -
  have "content r = drop (length stream - size_of r) stream"
    using suffix_eq_drop [OF assms(2)] size_of_content [OF assms(1)] by simp
  moreover have "pos - (length stream - size_of r) + (length stream - size_of r) = pos"
    using assms(3) by simp
  ultimately show ?thesis
    using read_from_content [OF assms(1)] by (metis drop_drop)
qed

end

section \<open>Correctness of the buffer\<close>

lemma trim_loop_spec:
  "trim_loop excess cs (length (concat cs)) = (cs', len') \<Longrightarrow> excess \<le> length (concat cs) \<Longrightarrow>
    concat cs' = drop excess (concat cs) \<and> len' = length (concat cs) - excess"
proof (induction cs arbitrary: excess)
  case (Cons first rest)
  show ?case
  proof (cases "excess \<noteq> 0 \<and> length first \<le> excess")
    case True
    then have "trim_loop (excess - length first) rest (length (concat rest)) = (cs', len')"
      using Cons.prems(1) by simp
    from Cons.IH [OF this] show ?thesis using True Cons.prems(2) by simp
  next
    case False
    then show ?thesis using Cons.prems by (cases "excess = 0") auto
  qed
qed simp

lemma trim_to_limit_spec:
  assumes "sb_length b = length (to_bytes b)"
  shows "to_bytes (trim_to_limit b) = keep_last (sb_max_bytes b) (to_bytes b)"
    and "sb_max_bytes (trim_to_limit b) = sb_max_bytes b"
    and "sb_inv (trim_to_limit b)"
proof -
  obtain cs len where *: "trim_loop (sb_length b - sb_max_bytes b) (sb_chunks b) (sb_length b) = (cs, len)"
    by fastforce
  have **: "concat cs = drop (sb_length b - sb_max_bytes b) (concat (sb_chunks b))"
      "len = sb_length b - (sb_length b - sb_max_bytes b)"
    using trim_loop_spec [OF * [unfolded assms to_bytes_def]] assms by (simp_all add: to_bytes_def)
  show "to_bytes (trim_to_limit b) = keep_last (sb_max_bytes b) (to_bytes b)"
    using * ** assms by (simp add: trim_to_limit_def to_bytes_def keep_last_def)
  show "sb_max_bytes (trim_to_limit b) = sb_max_bytes b"
    using * by (simp add: trim_to_limit_def)
  show "sb_inv (trim_to_limit b)"
    using * ** assms by (simp add: trim_to_limit_def sb_inv_def to_bytes_def)
qed

lemma sb_append_max [simp]: "sb_max_bytes (sb_append b d) = sb_max_bytes b"
  by (simp add: sb_append_def Let_def trim_to_limit_def split: prod.splits)

lemma sb_append_spec:
  assumes "sb_inv b"
  shows "sb_inv (sb_append b d)"
    and "to_bytes (sb_append b d) = keep_last (sb_max_bytes b) (to_bytes b @ d)"
proof -
  let ?b = "b\<lparr>sb_chunks := sb_chunks b @ [d], sb_length := sb_length b + length d\<rparr>"
  have len: "sb_length ?b = length (to_bytes ?b)" and cont: "to_bytes ?b = to_bytes b @ d"
    using assms by (simp_all add: sb_inv_def to_bytes_def)
  show "sb_inv (sb_append b d)"
    using assms trim_to_limit_spec(3) [OF len]
    by (simp add: sb_append_def Let_def) (simp add: sb_inv_def to_bytes_def)
  have short: "to_bytes (trim_to_limit ?b) = keep_last (sb_max_bytes b) (to_bytes b @ d)"
    using trim_to_limit_spec(1) [OF len] cont by simp
  have long: "to_bytes (sb_append b d) = keep_last (sb_max_bytes b) d" if "sb_max_bytes b \<le> length d" "d \<noteq> []"
    using that by (simp add: sb_append_def Let_def to_bytes_def keep_last_def)
  show "to_bytes (sb_append b d) = keep_last (sb_max_bytes b) (to_bytes b @ d)"
  proof (cases "d = [] \<or> sb_max_bytes b \<le> length d")
    case True
    then show ?thesis
      using long assms keep_last_append_long [of "sb_max_bytes b" d "to_bytes b"]
      by (auto simp: sb_inv_def sb_append_def)
  next
    case False
    then show ?thesis using short by (simp add: sb_append_def)
  qed
qed

lemma slice_loop_spec:
  "skipped \<le> start \<Longrightarrow> slice_loop start skipped cs = drop (start - skipped) (concat cs)"
  "start \<le> skipped \<Longrightarrow> slice_loop start skipped cs = concat cs"
proof (induction cs arbitrary: skipped)
  case (Cons c cs)
  {
    case 1
    show ?case
    proof (cases "skipped + length c \<le> start")
      case True
      then show ?thesis using Cons.IH(1) [of "skipped + length c"] by simp
    next
      case False
      then show ?thesis using Cons.IH(2) [of "skipped + length c"] 1 by simp
    qed
  next
    case 2
    then show ?case using Cons.IH(2) [of "skipped + length c"] by (cases c) auto
  }
qed simp_all

lemma slice_from_spec: "sb_inv b \<Longrightarrow> slice_from b n = drop n (to_bytes b)"
  by (simp add: slice_from_def slice_loop_spec sb_inv_def to_bytes_def)

interpretation sbr: byte_ring to_bytes sb_max_bytes sb_append slice_from sb_length sb_inv
  by unfold_locales (simp_all add: sb_append_spec slice_from_spec, simp_all add: sb_inv_def)

lemma sb_new_spec:
  "sb_inv (sb_new n i)" "sb_max_bytes (sb_new n i) = n" "to_bytes (sb_new n i) = keep_last n i"
proof -
  let ?b = "\<lparr>sb_chunks = [], sb_length = 0, sb_max_bytes = n\<rparr>"
  have e: "sb_inv ?b" "to_bytes ?b = []" by (simp_all add: sb_inv_def to_bytes_def)
  show "sb_inv (sb_new n i)" "sb_max_bytes (sb_new n i) = n" "to_bytes (sb_new n i) = keep_last n i"
    using e sb_append_spec [OF e(1), of i] by (cases "i = []"; simp add: sb_new_def Let_def)+
qed

lemma set_max_bytes_spec:
  assumes "sb_inv b"
  shows "sb_inv (set_max_bytes b v)" "sb_max_bytes (set_max_bytes b v) = v"
    "to_bytes (set_max_bytes b v) = keep_last v (to_bytes b)"
proof -
  have "sb_length (b\<lparr>sb_max_bytes := v\<rparr>) = length (to_bytes (b\<lparr>sb_max_bytes := v\<rparr>))"
    using assms by (simp add: sb_inv_def to_bytes_def)
  from trim_to_limit_spec [OF this] show "sb_inv (set_max_bytes b v)"
    "sb_max_bytes (set_max_bytes b v) = v" "to_bytes (set_max_bytes b v) = keep_last v (to_bytes b)"
    by (simp_all add: set_max_bytes_def to_bytes_def)
qed

section \<open>Properties\<close>

text \<open>Where a tail starts: after the first line break within reach, else at the first code point.\<close>

lemma tail_start_line:
  assumes "10 \<in> set (take line_align_scan_bytes bs)"
  obtains line where "take (tail_start bs) bs = line @ [10]" "10 \<notin> set line"
proof -
  obtain i where i: "position (\<lambda>b. b = 10) (take line_align_scan_bytes bs) = Some i"
    using assms by (cases "position (\<lambda>b. b = 10) (take line_align_scan_bytes bs)") auto
  then have "i < length bs" "bs ! i = 10" "\<forall>j<i. bs ! j \<noteq> 10" using position_Some [OF i] by auto
  moreover from this have "take (tail_start bs) bs = take i bs @ [10]"
    using i by (simp add: tail_start_def take_Suc_conv_app_nth)
  ultimately show thesis using that [of "take i bs"] by (auto simp: in_set_conv_nth)
qed

lemma tail_start_code_point:
  assumes "10 \<notin> set (take line_align_scan_bytes bs)"
  shows "list_all is_utf8_continuation (take (tail_start bs) bs)"
    and "drop (tail_start bs) bs = [] \<or> \<not> is_utf8_continuation (hd (drop (tail_start bs) bs))"
proof -
  have start: "tail_start bs = (case position (\<lambda>b. \<not> is_utf8_continuation b) bs of Some i \<Rightarrow> i | None \<Rightarrow> length bs)"
  proof -
    have "position (\<lambda>b. b = 10) (take line_align_scan_bytes bs) = None" using assms by auto
    then show ?thesis by (simp add: tail_start_def del: position_None split: option.split)
  qed
  show "list_all is_utf8_continuation (take (tail_start bs) bs)"
    unfolding start by (auto simp: list_all_iff in_set_conv_nth split: option.splits dest!: position_Some)
  show "drop (tail_start bs) bs = [] \<or> \<not> is_utf8_continuation (hd (drop (tail_start bs) bs))"
    unfolding start by (auto simp: hd_drop_conv_nth split: option.splits dest!: position_Some)
qed

text \<open>
  C2: A scrollback buffer created with cap \<open>n\<close> and written any sequence of chunks retains exactly
  the last \<open>n\<close> bytes of everything written, its cached length is the number of bytes it retains,
  and so never exceeds the cap.
\<close>

theorem buffer_holds_last_bytes:
  "to_bytes (foldl sb_append (sb_new n i) ds) = keep_last n (i @ concat ds)
    \<and> sb_len (foldl sb_append (sb_new n i) ds) = min n (length i + length (concat ds))"
proof -
  let ?b = "foldl sb_append (sb_new n i) ds"
  have "sb_inv ?b" "to_bytes ?b = keep_last n (keep_last n i @ concat ds)"
    using sbr.content_pushes [OF sb_new_spec(1), of n i ds] by (simp_all add: sb_new_spec)
  then show ?thesis
    by (simp add: keep_last_keep_last_append sb_len_def sb_inv_def)
qed

text \<open>
  C28: Where a tail starts.  \<open>tail\<close> returns what is left of the last \<open>m\<close> retained bytes after a part that is
  determined as follows.  Nothing is skipped when the whole buffer fits.  Otherwise, when one of the first 4096 of
  these bytes is a line break, exactly the rest of the first line is skipped, its line break included.  Otherwise
  exactly the leading continuation bytes are skipped, so the tail starts a code point or is empty.
\<close>

theorem tail_starts_at_a_boundary:
  assumes "sb_inv b"
  shows "\<exists>skipped. keep_last m (to_bytes b) = skipped @ sb_tail b m
    \<and> (if length (to_bytes b) \<le> m then skipped = []
       else if 10 \<in> set (take 4096 (keep_last m (to_bytes b)))
       then \<exists>line. skipped = line @ [10] \<and> 10 \<notin> set line
       else list_all is_utf8_continuation skipped
         \<and> (sb_tail b m = [] \<or> \<not> is_utf8_continuation (hd (sb_tail b m))))"
proof (cases "length (to_bytes b) \<le> m")
  case True
  then show ?thesis using assms by (simp add: sb_tail_def sb_inv_def)
next
  case False
  let ?w = "keep_last m (to_bytes b)"
  let ?skipped = "take (tail_start ?w) ?w"
  have len: "sb_length b = length (to_bytes b)" using assms by (simp add: sb_inv_def)
  then have tail: "sb_tail b m = drop (tail_start ?w) ?w"
    using False slice_from_spec [OF assms] by (simp add: sb_tail_def Let_def keep_last_def)
  have scan: "line_align_scan_bytes = 4096" by (simp add: line_align_scan_bytes_def)
  have "\<exists>line. ?skipped = line @ [10] \<and> 10 \<notin> set line" if "10 \<in> set (take 4096 ?w)"
    using tail_start_line [of ?w] that by (metis scan)
  moreover have "list_all is_utf8_continuation ?skipped
      \<and> (sb_tail b m = [] \<or> \<not> is_utf8_continuation (hd (sb_tail b m)))" if "10 \<notin> set (take 4096 ?w)"
    unfolding tail using tail_start_code_point [of ?w] that by (simp add: scan)
  ultimately show ?thesis
    using False by (intro exI [of _ ?skipped]) (simp add: tail)
qed

text \<open>A cut inside a line with a line break after it, and a cut inside a code point without one.\<close>

theorem tail_starts_at_a_boundary_witness:
  "sb_tail (sb_new 8 [104, 105, 10, 0xC3, 0xA9, 33]) 5 = [0xC3, 0xA9, 33]
    \<and> sb_tail (sb_new 8 [104, 105, 0xC3, 0xA9, 33]) 2 = [33]
    \<and> (\<exists>line. [105, 10] = line @ [10 :: byte] \<and> 10 \<notin> set line)
    \<and> list_all is_utf8_continuation [0xA9]"
proof -
  let ?a = "sb_new 8 [104, 105, 10, 0xC3, 0xA9, 33]" and ?b = "sb_new 8 [104, 105, 0xC3, 0xA9, 33]"
  have run: "sb_tail ?a 5 = [0xC3, 0xA9, 33]" "sb_tail ?b 2 = [33]"
    by code_simp+
  have "to_bytes ?a = [104, 105, 10, 0xC3, 0xA9, 33]" "to_bytes ?b = [104, 105, 0xC3, 0xA9, 33]"
    by (simp_all add: sb_new_spec)
  with tail_starts_at_a_boundary [of ?a 5, OF sb_new_spec(1)] tail_starts_at_a_boundary [of ?b 2, OF sb_new_spec(1)] run
  show ?thesis by (auto simp: keep_last_def append_eq_Cons_conv Cons_eq_append_conv)
qed

end
