(* ===== verification/Session_Output.thy ===== *)
theory Session_Output
  imports Title_Tracker Scrollback_Buffer "HOL-Library.Multiset"
begin

text \<open>
  The output state of a hosted terminal session: \<open>session.rs\<close>, \<open>session/output_batching.rs\<close>,
  \<open>session/output_backpressure.rs\<close>, \<open>session/checkpoint.rs\<close> and \<open>session/termination.rs\<close> under
  \<open>rust/alera-cli/src/terminal_host\<close>.  The record holds the fields those operations read or
  write; the operating-system handles of the struct (PTY master, input channel, killer, job
  objects) are not part of it.  \<open>u64\<close> generations and the \<open>i64\<close> batch sequence are 64-bit words,
  stream positions are natural numbers with the saturation of the code written out.  A Rust
  \<open>HashSet\<close> that is only queried is a set; \<open>clients\<close>, which is also iterated, is a list without
  repetitions in the order of iteration.
\<close>

section \<open>Model\<close>

type_synonym client_id = nat
type_synonym generation = "64 word"

definition durable_output_batch_max_bytes :: nat where
  "durable_output_batch_max_bytes = 64 * 1024"

datatype session_driver = Idle | Desktop | Mobile client_id string string

record durable_batch =
  db_data :: bytes
  db_sequence :: "64 word"

record session =
  s_id :: string
  s_clients :: "client_id list"
  s_observer_clients :: "client_id set"
  s_driver :: session_driver
  s_output_paused_clients :: "client_id set"
  s_output_resync_pending_clients :: "client_id set"
  s_delivered_output_cursors :: "client_id \<rightharpoonup> nat"
  s_buffer :: scrollback
  s_running :: bool
  s_exit_code :: "int option"
  s_ended_at :: "nat option"
  s_current_dims :: "nat \<times> nat"
  s_terminated :: bool
  s_termination_requested :: bool
  s_history_barrier_held :: bool
  s_checkpoint_gen :: generation
  s_checkpoint_armed :: bool
  s_checkpoint_retry_timer :: "generation option"
  s_output_batch :: bytes
  s_output_batch_gen :: generation
  s_output_batch_armed :: bool
  s_durable_output_batch :: bytes
  s_durable_output_batch_gen :: generation
  s_durable_output_batch_armed :: bool
  s_durable_retry_timer :: "generation option"
  s_durable_output_batch_sequence :: "64 word"
  s_durable_output_failures :: "durable_batch list"
  s_pending_pty_ack :: "nat option"
  s_deferred_exit :: "int option"
  s_checkpoint_job :: "nat option"
  s_checkpoint_output_blocked :: bool
  s_output_stream_bytes :: nat
  s_last_output_at :: nat
  s_title_tracker :: title_tracker

definition resumed_output_stream_bytes :: "nat \<Rightarrow> nat \<Rightarrow> nat" where
  "resumed_output_stream_bytes previous scrollback_len = max previous scrollback_len"

text \<open>
  The session value built by \<open>Session::start\<close>.  The history store and the process are outside the
  model: the next durable sequence number and the clock reading are arguments.
\<close>

definition session_start :: "string \<Rightarrow> nat \<times> nat \<Rightarrow> nat \<Rightarrow> bytes \<Rightarrow> nat \<Rightarrow> 64 word \<Rightarrow> nat \<Rightarrow> session" where
  "session_start sid dims max_bytes initial_scrollback initial_output_stream_bytes next_sequence now =
    \<lparr>s_id = sid, s_clients = [], s_observer_clients = {}, s_driver = Idle,
     s_output_paused_clients = {}, s_output_resync_pending_clients = {},
     s_delivered_output_cursors = Map.empty, s_buffer = sb_new max_bytes initial_scrollback,
     s_running = True, s_exit_code = None, s_ended_at = None, s_current_dims = dims,
     s_terminated = False, s_termination_requested = False, s_history_barrier_held = False,
     s_checkpoint_gen = 0, s_checkpoint_armed = False, s_checkpoint_retry_timer = None,
     s_output_batch = [], s_output_batch_gen = 0, s_output_batch_armed = False,
     s_durable_output_batch = [], s_durable_output_batch_gen = 0,
     s_durable_output_batch_armed = False, s_durable_retry_timer = None,
     s_durable_output_batch_sequence = next_sequence, s_durable_output_failures = [],
     s_pending_pty_ack = None, s_deferred_exit = None, s_checkpoint_job = None,
     s_checkpoint_output_blocked = False,
     s_output_stream_bytes =
       resumed_output_stream_bytes initial_output_stream_bytes (length initial_scrollback),
     s_last_output_at = now, s_title_tracker = fst (tt_feed tt_default initial_scrollback)\<rparr>"

text \<open>A checkpoint read back from the history store, the fields \<open>restore_exited\<close> uses.\<close>

record checkpoint =
  cp_exit_code :: "int option"
  cp_ended_at :: "nat option"
  cp_output_stream_bytes :: nat
  cp_buffer :: bytes

definition restore_exited :: "string \<Rightarrow> checkpoint \<Rightarrow> nat \<Rightarrow> nat \<Rightarrow> session" where
  "restore_exited sid cp max_bytes now =
    (session_start sid (80, 24) max_bytes (cp_buffer cp) (cp_output_stream_bytes cp) 0 now)
      \<lparr>s_running := False,
       s_exit_code := (if cp_ended_at cp = None then Some (- 1)
                       else Some (case cp_exit_code cp of None \<Rightarrow> 0 | Some c \<Rightarrow> c)),
       s_ended_at := cp_ended_at cp\<rparr>"

subsection \<open>Clients\<close>

definition set_insert :: "client_id \<Rightarrow> client_id list \<Rightarrow> client_id list" where
  "set_insert c cs = (if c \<in> set cs then cs else cs @ [c])"

definition attach :: "client_id \<Rightarrow> session \<Rightarrow> session" where
  "attach c s = s\<lparr>s_clients := set_insert c (s_clients s),
     s_output_paused_clients := s_output_paused_clients s - {c},
     s_output_resync_pending_clients := s_output_resync_pending_clients s - {c},
     s_delivered_output_cursors := (s_delivered_output_cursors s)(c \<mapsto> s_output_stream_bytes s)\<rparr>"

definition attach_for_resync :: "client_id \<Rightarrow> session \<Rightarrow> session" where
  "attach_for_resync c s = s\<lparr>s_clients := set_insert c (s_clients s),
     s_delivered_output_cursors := (s_delivered_output_cursors s)(c := None),
     s_output_paused_clients := insert c (s_output_paused_clients s),
     s_output_resync_pending_clients := insert c (s_output_resync_pending_clients s)\<rparr>"

definition detach :: "client_id \<Rightarrow> session \<Rightarrow> session" where
  "detach c s = s\<lparr>s_observer_clients := s_observer_clients s - {c},
     s_clients := removeAll c (s_clients s),
     s_output_paused_clients := s_output_paused_clients s - {c},
     s_output_resync_pending_clients := s_output_resync_pending_clients s - {c},
     s_delivered_output_cursors := (s_delivered_output_cursors s)(c := None)\<rparr>"

definition set_output_paused :: "client_id \<Rightarrow> bool \<Rightarrow> session \<Rightarrow> session" where
  "set_output_paused c paused s =
    s\<lparr>s_output_resync_pending_clients := s_output_resync_pending_clients s - {c},
      s_output_paused_clients := (if paused then insert c (s_output_paused_clients s)
                                  else s_output_paused_clients s - {c})\<rparr>"

text \<open>The boolean is the result of \<open>HashSet::insert\<close>: whether the mark is new.\<close>

definition mark_output_backpressured :: "client_id \<Rightarrow> session \<Rightarrow> bool \<times> session" where
  "mark_output_backpressured c s =
    (c \<notin> s_output_resync_pending_clients s,
     s\<lparr>s_output_paused_clients := insert c (s_output_paused_clients s),
       s_output_resync_pending_clients := insert c (s_output_resync_pending_clients s)\<rparr>)"

definition output_resync_pending :: "session \<Rightarrow> client_id \<Rightarrow> bool" where
  "output_resync_pending s c \<longleftrightarrow> c \<in> s_output_resync_pending_clients s"

definition mark_output_resync_sent :: "client_id \<Rightarrow> session \<Rightarrow> session" where
  "mark_output_resync_sent c s =
    s\<lparr>s_output_resync_pending_clients := s_output_resync_pending_clients s - {c}\<rparr>"

definition delivered_output_cursor :: "session \<Rightarrow> client_id \<Rightarrow> nat option" where
  "delivered_output_cursor s c = s_delivered_output_cursors s c"

definition set_delivered_output_cursor :: "client_id \<Rightarrow> nat \<Rightarrow> session \<Rightarrow> session" where
  "set_delivered_output_cursor c cursor s =
    s\<lparr>s_delivered_output_cursors := (s_delivered_output_cursors s)(c \<mapsto> cursor)\<rparr>"

definition advance_delivered_output_cursor :: "client_id \<Rightarrow> nat \<Rightarrow> session \<Rightarrow> session" where
  "advance_delivered_output_cursor c n s =
    (case s_delivered_output_cursors s c of
       None \<Rightarrow> s
     | Some cursor \<Rightarrow> s\<lparr>s_delivered_output_cursors :=
         (s_delivered_output_cursors s)(c \<mapsto> saturating_add cursor n)\<rparr>)"

definition output_clients :: "session \<Rightarrow> client_id list" where
  "output_clients s = filter (\<lambda>c. c \<notin> s_output_paused_clients s) (s_clients s)"

subsection \<open>Live output\<close>

definition append_output ::
  "nat \<Rightarrow> bytes \<Rightarrow> session \<Rightarrow> (generation option \<times> generation option \<times> bytes option) \<times> session" where
  "append_output now data s =
    (case tt_feed (s_title_tracker s) data of
       (tracker, title_change) \<Rightarrow>
         ((if s_output_batch_armed s then None else Some (s_output_batch_gen s),
           if s_durable_output_batch_armed s then None else Some (s_durable_output_batch_gen s),
           title_change),
          s\<lparr>s_output_stream_bytes := saturating_add (s_output_stream_bytes s) (length data),
            s_last_output_at := now,
            s_buffer := sb_append (s_buffer s) data,
            s_output_batch := s_output_batch s @ data,
            s_durable_output_batch := s_durable_output_batch s @ data,
            s_title_tracker := tracker,
            s_output_batch_armed := True,
            s_durable_output_batch_armed := True\<rparr>))"

definition output_stream_range :: "session \<Rightarrow> nat \<times> nat" where
  "output_stream_range s =
    (s_output_stream_bytes s - sb_len (s_buffer s), s_output_stream_bytes s)"

definition recent_output_since :: "session \<Rightarrow> nat option \<Rightarrow> nat \<Rightarrow> bytes" where
  "recent_output_since s cursor max_bytes =
    (case output_stream_range s of
       (base, end) \<Rightarrow>
         sb_tail (s_buffer s)
           (min (end - max (case cursor of None \<Rightarrow> base | Some c \<Rightarrow> c) base) max_bytes))"

definition output_quiet_for :: "nat \<Rightarrow> nat \<Rightarrow> session \<Rightarrow> bool" where
  "output_quiet_for now quiet s \<longleftrightarrow> \<not> s_output_batch_armed s \<and> quiet \<le> now - s_last_output_at s"

definition output_batch_due :: "generation \<Rightarrow> session \<Rightarrow> bool" where
  "output_batch_due g s \<longleftrightarrow> s_output_batch_armed s \<and> s_output_batch_gen s = g"

definition flush_output_batch :: "session \<Rightarrow> bytes option \<times> session" where
  "flush_output_batch s =
    (if s_output_batch s = [] then (None, s\<lparr>s_output_batch_armed := False\<rparr>)
     else (Some (s_output_batch s),
           s\<lparr>s_output_batch_gen := s_output_batch_gen s + 1, s_output_batch_armed := False,
             s_output_batch := []\<rparr>))"

subsection \<open>Durable output\<close>

definition arm_durable_retry_timer :: "generation \<Rightarrow> session \<Rightarrow> bool \<times> session" where
  "arm_durable_retry_timer g s =
    (if s_durable_retry_timer s \<noteq> None then (False, s)
     else (True, s\<lparr>s_durable_retry_timer := Some g\<rparr>))"

definition consume_durable_retry_timer :: "generation \<Rightarrow> session \<Rightarrow> bool \<times> session" where
  "consume_durable_retry_timer g s =
    (if s_durable_retry_timer s = Some g then (True, s\<lparr>s_durable_retry_timer := None\<rparr>)
     else (False, s))"

definition should_pause_pty_output :: "nat \<Rightarrow> session \<Rightarrow> bool" where
  "should_pause_pty_output max_durable_bytes s \<longleftrightarrow>
    s_durable_output_failures s \<noteq> [] \<or> max_durable_bytes \<le> length (s_durable_output_batch s)"

text \<open>Acknowledgement senders are identified by numbers; the result lists the ones released.\<close>

definition hold_pty_ack :: "nat \<Rightarrow> session \<Rightarrow> nat list \<times> session" where
  "hold_pty_ack ack s =
    (case s_pending_pty_ack s of None \<Rightarrow> [] | Some previous \<Rightarrow> [previous],
     s\<lparr>s_pending_pty_ack := Some ack\<rparr>)"

definition take_pty_ack_if_unblocked :: "nat \<Rightarrow> session \<Rightarrow> nat option \<times> session" where
  "take_pty_ack_if_unblocked max_durable_bytes s =
    (if should_pause_pty_output max_durable_bytes s then (None, s)
     else (s_pending_pty_ack s, s\<lparr>s_pending_pty_ack := None\<rparr>))"

definition durable_output_batch_due :: "generation \<Rightarrow> session \<Rightarrow> bool" where
  "durable_output_batch_due g s \<longleftrightarrow>
    s_durable_output_batch_armed s \<and> s_durable_output_batch_gen s = g"

definition disarm_durable_output_batch_if_empty :: "session \<Rightarrow> session" where
  "disarm_durable_output_batch_if_empty s =
    (if s_durable_output_failures s = [] \<and> s_durable_output_batch s = []
     then s\<lparr>s_durable_output_batch_armed := False\<rparr> else s)"

definition flush_durable_output_batch :: "session \<Rightarrow> durable_batch option \<times> session" where
  "flush_durable_output_batch s =
    (case s_durable_output_failures s of
       b # bs \<Rightarrow> (Some b, s\<lparr>s_durable_output_failures := bs\<rparr>)
     | [] \<Rightarrow>
         if s_durable_output_batch s = [] then (None, s\<lparr>s_durable_output_batch_armed := False\<rparr>)
         else
           (let take_len = min (length (s_durable_output_batch s)) durable_output_batch_max_bytes;
                rest = drop take_len (s_durable_output_batch s)
            in (Some \<lparr>db_data = take take_len (s_durable_output_batch s),
                      db_sequence = s_durable_output_batch_sequence s\<rparr>,
                s\<lparr>s_durable_output_batch_gen := s_durable_output_batch_gen s + 1,
                  s_durable_output_batch := rest,
                  s_durable_output_batch_armed := rest \<noteq> [],
                  s_durable_output_batch_sequence := s_durable_output_batch_sequence s + 1\<rparr>)))"

definition insert_at :: "nat \<Rightarrow> 'a \<Rightarrow> 'a list \<Rightarrow> 'a list" where
  "insert_at i x xs = take i xs @ x # drop i xs"

definition restore_durable_output_batch :: "durable_batch \<Rightarrow> session \<Rightarrow> generation \<times> session" where
  "restore_durable_output_batch b s =
    (let pos = (case position (\<lambda>q. sint (db_sequence b) < sint (db_sequence q))
                       (s_durable_output_failures s) of
                  Some i \<Rightarrow> i | None \<Rightarrow> length (s_durable_output_failures s));
         g = s_durable_output_batch_gen s + 1
     in (g, s\<lparr>s_durable_output_failures := insert_at pos b (s_durable_output_failures s),
              s_durable_output_batch_gen := g,
              s_durable_output_batch_armed := True\<rparr>))"

subsection \<open>Exit, termination and checkpoints\<close>

definition set_session_max_bytes :: "nat \<Rightarrow> session \<Rightarrow> session" where
  "set_session_max_bytes n s = s\<lparr>s_buffer := set_max_bytes (s_buffer s) n\<rparr>"

definition defer_exit :: "int \<Rightarrow> session \<Rightarrow> session" where
  "defer_exit code s = s\<lparr>s_deferred_exit := Some code\<rparr>"

definition take_deferred_exit :: "session \<Rightarrow> int option \<times> session" where
  "take_deferred_exit s = (s_deferred_exit s, s\<lparr>s_deferred_exit := None\<rparr>)"

text \<open>The result is the session id and exit code of the \<open>exit\<close> event, when one is produced.\<close>

definition handle_exit :: "nat \<Rightarrow> int \<Rightarrow> session \<Rightarrow> (string \<times> int) option \<times> session" where
  "handle_exit now code s =
    (if \<not> s_running s then (None, s)
     else (Some (s_id s, code),
           s\<lparr>s_running := False, s_exit_code := Some code, s_ended_at := Some now\<rparr>))"

text \<open>
  The session state after \<open>terminate\<close> and the acknowledgement it releases.  Killing the process
  tree and the store write are outside the model; the store write of the kept history records
  \<open>ended_at\<close>.
\<close>

definition terminate :: "nat \<Rightarrow> bool \<Rightarrow> session \<Rightarrow> nat option \<times> session" where
  "terminate now remove_history s =
    (s_pending_pty_ack s,
     s\<lparr>s_pending_pty_ack := None, s_terminated := True, s_running := False,
       s_checkpoint_armed := False,
       s_output_batch := [], s_output_batch_armed := False,
       s_output_batch_gen := s_output_batch_gen s + 1,
       s_durable_output_batch := [], s_durable_output_batch_armed := False,
       s_durable_output_batch_gen := s_durable_output_batch_gen s + 1,
       s_durable_output_failures := [],
       s_ended_at := (if remove_history then s_ended_at s
                      else Some (case s_ended_at s of None \<Rightarrow> now | Some t \<Rightarrow> t))\<rparr>)"

definition arm_checkpoint :: "session \<Rightarrow> generation option \<times> session" where
  "arm_checkpoint s =
    (if s_checkpoint_armed s then (None, s)
     else (Some (s_checkpoint_gen s), s\<lparr>s_checkpoint_armed := True\<rparr>))"

definition checkpoint_due :: "generation \<Rightarrow> session \<Rightarrow> bool \<times> session" where
  "checkpoint_due g s =
    (if s_checkpoint_armed s \<and> s_checkpoint_gen s = g
     then (True, s\<lparr>s_checkpoint_armed := False\<rparr>) else (False, s))"

definition invalidate_checkpoint :: "session \<Rightarrow> session" where
  "invalidate_checkpoint s =
    s\<lparr>s_checkpoint_gen := s_checkpoint_gen s + 1, s_checkpoint_armed := False\<rparr>"

definition rearm_checkpoint :: "session \<Rightarrow> generation \<times> session" where
  "rearm_checkpoint s = (s_checkpoint_gen s, s\<lparr>s_checkpoint_armed := True\<rparr>)"

definition begin_checkpoint_job :: "nat \<Rightarrow> session \<Rightarrow> bool \<times> session" where
  "begin_checkpoint_job job s =
    (if s_checkpoint_job s \<noteq> None then (False, s)
     else (True, s\<lparr>s_checkpoint_output_blocked := True, s_checkpoint_job := Some job\<rparr>))"

definition finish_checkpoint_job :: "session \<Rightarrow> session" where
  "finish_checkpoint_job s = s\<lparr>s_checkpoint_output_blocked := False\<rparr>"

section \<open>Durable batches\<close>

text \<open>The bytes accepted from the PTY and not yet handed to the history writer, in order.\<close>

definition durable_backlog :: "session \<Rightarrow> bytes" where
  "durable_backlog s = concat (map db_data (s_durable_output_failures s)) @ s_durable_output_batch s"

definition seq_key :: "durable_batch \<Rightarrow> int" where
  "seq_key b = sint (db_sequence b)"

lemma flush_durable_Some:
  assumes "flush_durable_output_batch s = (Some b, s')"
  shows "durable_backlog s = db_data b @ durable_backlog s'"
  using assms
  by (auto simp: flush_durable_output_batch_def durable_backlog_def Let_def
      split: list.splits if_splits)

lemma flush_durable_None:
  assumes "flush_durable_output_batch s = (None, s')"
  shows "durable_backlog s = []" "durable_backlog s' = []"
  using assms
  by (auto simp: flush_durable_output_batch_def durable_backlog_def Let_def
      split: list.splits if_splits)

lemma flush_durable_size:
  assumes "flush_durable_output_batch s = (Some b, s')"
    and "\<forall>q \<in> set (s_durable_output_failures s). length (db_data q) \<le> durable_output_batch_max_bytes"
  shows "length (db_data b) \<le> durable_output_batch_max_bytes"
  using assms
  by (auto simp: flush_durable_output_batch_def Let_def split: list.splits if_splits)

text \<open>The queue position \<open>restore_durable_output_batch\<close> chooses is a stable sorted insertion.\<close>

fun insert_after :: "('a \<Rightarrow> int) \<Rightarrow> 'a \<Rightarrow> 'a list \<Rightarrow> 'a list" where
  "insert_after f x [] = [x]"
| "insert_after f x (y # ys) = (if f x < f y then x # y # ys else y # insert_after f x ys)"

lemma insert_at_position:
  "insert_at (case position (\<lambda>y. f x < f y) ys of Some i \<Rightarrow> i | None \<Rightarrow> length ys) x ys
    = insert_after f x ys"
  by (induction ys) (auto simp: insert_at_def simp del: position_None split: option.splits)

lemma mset_insert_after [simp]: "mset (insert_after f x ys) = add_mset x (mset ys)"
  by (induction ys) auto

lemma set_insert_after [simp]: "set (insert_after f x ys) = insert x (set ys)"
  by (induction ys) auto

lemma sorted_insert_after: "sorted (map f ys) \<Longrightarrow> sorted (map f (insert_after f x ys))"
  by (induction ys) (auto simp: less_imp_le order_trans)

lemma filter_insert_after:
  "sorted (map f ys) \<Longrightarrow> filter (\<lambda>y. f k = f y) (insert_after f x ys)
    = filter (\<lambda>y. f k = f y) (ys @ [x])"
proof (induction ys)
  case (Cons y ys)
  show ?case
  proof (cases "f x < f y")
    case True
    with Cons.prems have "filter (\<lambda>z. f x = f z) (y # ys) = []"
      by (auto simp: filter_empty_conv)
    with True show ?thesis by (auto simp: filter_empty_conv)
  next
    case False
    with Cons show ?thesis by auto
  qed
qed simp

lemma insert_after_sort_key: "insert_after f x (sort_key f ys) = sort_key f (ys @ [x])"
proof (rule sym, rule properties_for_sort_key)
  show "mset (insert_after f x (sort_key f ys)) = mset (ys @ [x])" by simp
  show "filter (\<lambda>y. f k = f y) (insert_after f x (sort_key f ys)) = filter (\<lambda>y. f k = f y) (ys @ [x])"
    for k
    using filter_insert_after [of f "sort_key f ys" k x] sort_key_stable [of f "f k" ys]
    by (simp add: eq_commute)
  show "sorted (map f (insert_after f x (sort_key f ys)))" by (rule sorted_insert_after) simp
qed

lemma restore_failures:
  "s_durable_output_failures (snd (restore_durable_output_batch b s))
    = insert_after seq_key b (s_durable_output_failures s)"
  using insert_at_position [where f = seq_key and x = b and ys = "s_durable_output_failures s"]
  by (simp add: restore_durable_output_batch_def Let_def seq_key_def)

lemma restore_all_failures:
  "s_durable_output_failures s = sort_key seq_key qs \<Longrightarrow>
    s_durable_output_failures (foldl (\<lambda>s b. snd (restore_durable_output_batch b s)) s bs)
      = sort_key seq_key (qs @ bs)"
proof (induction bs arbitrary: s qs)
  case (Cons b bs)
  have "s_durable_output_failures (snd (restore_durable_output_batch b s)) = sort_key seq_key (qs @ [b])"
    by (simp add: restore_failures Cons.prems insert_after_sort_key)
  from Cons.IH [OF this] show ?case by simp
qed simp

section \<open>Properties\<close>

text \<open>
  Batches that the history writer gives back, in whatever order their completions fail, are
  queued in sequence order: the retry queue is the stable sort by sequence number of the batches
  given back, and the next flush hands out the one with the smallest sequence number.
\<close>

theorem failed_batches_retry_in_sequence_order:
  assumes "s_durable_output_failures s = []"
  shows "s_durable_output_failures (foldl (\<lambda>s b. snd (restore_durable_output_batch b s)) s bs)
      = sort_key (\<lambda>b. sint (db_sequence b)) bs
    \<and> (bs \<noteq> [] \<longrightarrow>
        fst (flush_durable_output_batch (foldl (\<lambda>s b. snd (restore_durable_output_batch b s)) s bs))
          = Some (hd (sort_key (\<lambda>b. sint (db_sequence b)) bs)))"
proof -
  let ?s = "foldl (\<lambda>s b. snd (restore_durable_output_batch b s)) s bs"
  have q: "s_durable_output_failures ?s = sort_key seq_key bs"
    using restore_all_failures [of s "[]" bs] assms by simp
  moreover have "seq_key = (\<lambda>b. sint (db_sequence b))" by (simp add: seq_key_def fun_eq_iff)
  moreover have "fst (flush_durable_output_batch ?s) = Some (hd (sort_key seq_key bs))" if "bs \<noteq> []"
  proof -
    have "sort_key seq_key bs \<noteq> []" using that by (metis length_0_conv length_sort)
    with q show ?thesis by (auto simp: flush_durable_output_batch_def split: list.splits)
  qed
  ultimately show ?thesis by simp
qed

theorem failed_batches_retry_in_sequence_order_witness:
  "s_durable_output_failures
      (foldl (\<lambda>s b. snd (restore_durable_output_batch b s)) (session_start ''s'' (80, 24) 8 [] 0 0 0)
        [\<lparr>db_data = [2], db_sequence = 2\<rparr>, \<lparr>db_data = [1], db_sequence = 1\<rparr>])
    = [\<lparr>db_data = [1], db_sequence = 1\<rparr>, \<lparr>db_data = [2], db_sequence = 2\<rparr>]"
  using failed_batches_retry_in_sequence_order
    [of "session_start ''s'' (80, 24) 8 [] 0 0 0"
      "[\<lparr>db_data = [2], db_sequence = 2\<rparr>, \<lparr>db_data = [1], db_sequence = 1\<rparr>]"]
  by (simp add: session_start_def)

text \<open>
  C9: Flushing the durable track hands out the oldest bytes first and loses none: the batch
  followed by what remains is what was waiting, a flush without a batch means that nothing was
  waiting, and a batch that is given back at once restores the waiting bytes exactly.
\<close>

theorem durable_flush_preserves_bytes:
  assumes "sorted_wrt (\<lambda>a b. sint (db_sequence a) < sint (db_sequence b)) (s_durable_output_failures s)"
  shows "case flush_durable_output_batch s of
      (None, s') \<Rightarrow> durable_backlog s = [] \<and> durable_backlog s' = []
    | (Some b, s') \<Rightarrow> durable_backlog s = db_data b @ durable_backlog s'
        \<and> durable_backlog (snd (restore_durable_output_batch b s')) = durable_backlog s"
proof (cases "flush_durable_output_batch s")
  case (Pair ob s')
  show ?thesis
  proof (cases ob)
    case None
    then show ?thesis using Pair flush_durable_None [of s s'] by simp
  next
    case (Some b)
    have "insert_after seq_key b (s_durable_output_failures s') = b # s_durable_output_failures s'"
    proof (cases "s_durable_output_failures s")
      case Nil
      then show ?thesis
        using Pair Some by (auto simp: flush_durable_output_batch_def Let_def split: if_splits)
    next
      case (Cons q qs)
      then have "b = q" "s_durable_output_failures s' = qs"
        using Pair Some by (auto simp: flush_durable_output_batch_def)
      then show ?thesis using assms Cons by (cases qs) (auto simp: seq_key_def)
    qed
    moreover have "s_durable_output_batch (snd (restore_durable_output_batch b s')) = s_durable_output_batch s'"
      by (simp add: restore_durable_output_batch_def Let_def)
    ultimately show ?thesis
      using Pair Some flush_durable_Some [of s b s'] by (simp add: durable_backlog_def restore_failures)
  qed
qed

theorem durable_flush_preserves_bytes_witness:
  "durable_backlog (snd (append_output 5 [1, 2, 3] (session_start ''s'' (80, 24) 8 [] 0 0 0))) = [1, 2, 3]
    \<and> fst (flush_durable_output_batch (snd (append_output 5 [1, 2, 3] (session_start ''s'' (80, 24) 8 [] 0 0 0))))
        = Some \<lparr>db_data = [1, 2, 3], db_sequence = 0\<rparr>"
  using durable_flush_preserves_bytes
    [of "snd (append_output 5 [1, 2, 3] (session_start ''s'' (80, 24) 8 [] 0 0 0))"]
  by (simp add: append_output_def session_start_def flush_durable_output_batch_def Let_def
      durable_backlog_def durable_output_batch_max_bytes_def split: prod.splits)

end
