(* ===== verification/Client_Frames.thy ===== *)
theory Client_Frames
  imports Prelude
begin

text \<open>
  The two outbound lanes of a client connection: \<open>client.rs\<close>, \<open>client_handle.rs\<close> and the part of
  \<open>client_budget.rs\<close> they call, under \<open>rust/alera-cli/src/terminal_host\<close>.  The server actor sends
  control frames on an unbounded channel and terminal frames on a bounded one; one writer task
  serialises both onto the socket.  The channels (tokio) and the byte semaphores are outside the
  sources: what a bounded channel answers to \<open>try_send\<close> and whether a reservation is granted are
  arguments of the operations, and a channel's queue is the list of frames it accepted and has not
  handed out.
\<close>

section \<open>Frames\<close>

datatype client_frame =
    Budgeted client_frame
  | Json json
  | Output string bytes
  | UpgradeToBinary
  | RestartRuntimeAfterWrite
  | ShutdownRuntimeAfterWrite
  | OrderedControl nat client_frame
  | SequencedTerminal nat client_frame

fun frame_payload :: "client_frame \<Rightarrow> client_frame" where
  "frame_payload (OrderedControl w f) = frame_payload f"
| "frame_payload (SequencedTerminal n f) = frame_payload f"
| "frame_payload (Budgeted f) = frame_payload f"
| "frame_payload f = f"

fun into_control :: "client_frame \<Rightarrow> nat \<times> client_frame" where
  "into_control (OrderedControl w f) = (w, f)"
| "into_control f = (u64_max, f)"

fun into_terminal :: "client_frame \<Rightarrow> nat \<times> client_frame" where
  "into_terminal (SequencedTerminal n f) = (n, f)"
| "into_terminal f = (0, f)"

section \<open>The server's side of a connection\<close>

datatype send_answer = Accepted | Full | Closed

record client_handle =
  ch_control_out :: "client_frame list"
  ch_terminal_out :: "client_frame list"
  ch_terminal_sequence :: nat
  ch_has_budget :: bool
  ch_exhausted :: bool

definition client_handle_new :: client_handle where
  "client_handle_new = \<lparr>ch_control_out = [], ch_terminal_out = [], ch_terminal_sequence = 0,
     ch_has_budget = False, ch_exhausted = False\<rparr>"

definition with_budget :: "client_handle \<Rightarrow> client_handle" where
  "with_budget h = h\<lparr>ch_has_budget := True\<rparr>"

text \<open>
  \<open>send_control granted open f h\<close>: \<open>granted\<close> is the answer of the budget to the reservation and
  \<open>open\<close> whether the receiver of the control lane is still there.
\<close>

definition send_control :: "bool \<Rightarrow> bool \<Rightarrow> client_frame \<Rightarrow> client_handle \<Rightarrow> bool \<times> client_handle" where
  "send_control granted open f h =
    (if ch_has_budget h \<and> \<not> granted then (False, h\<lparr>ch_exhausted := True\<rparr>)
     else if \<not> open then (False, h)
     else (True, h\<lparr>ch_control_out := ch_control_out h @
       [OrderedControl (ch_terminal_sequence h) (if ch_has_budget h then Budgeted f else f)]\<rparr>))"

definition try_send_terminal ::
  "bool \<Rightarrow> send_answer \<Rightarrow> client_frame \<Rightarrow> client_handle \<Rightarrow> send_answer \<times> client_handle" where
  "try_send_terminal granted answer f h =
    (if ch_has_budget h \<and> \<not> granted then (Full, h)
     else let sequence = u64_succ (ch_terminal_sequence h);
              h' = h\<lparr>ch_terminal_sequence := sequence\<rparr>
          in (answer,
              if answer = Accepted
              then h'\<lparr>ch_terminal_out := ch_terminal_out h' @
                [SequencedTerminal sequence (if ch_has_budget h then Budgeted f else f)]\<rparr>
              else h'))"

section \<open>The writer task\<close>

text \<open>
  \<open>before_control\<close> as a function of the frames waiting on the terminal lane: the held frame, if
  any, followed by the queue.  It returns the terminal frames to write first, the frame it holds
  back and the rest of the queue.
\<close>

fun before_control_loop ::
  "nat \<Rightarrow> (nat \<times> client_frame) option \<Rightarrow> client_frame list
    \<Rightarrow> client_frame list \<times> (nat \<times> client_frame) option \<times> client_frame list" where
  "before_control_loop w (Some (n, f)) queue =
    (if n \<le> w then case before_control_loop w None queue of (fs, held, rest) \<Rightarrow> (f # fs, held, rest)
     else ([], Some (n, f), queue))"
| "before_control_loop w None [] = ([], None, [])"
| "before_control_loop w None (t # queue) =
    (case into_terminal t of
       (n, f) \<Rightarrow> if n \<le> w
         then case before_control_loop w None queue of (fs, held, rest) \<Rightarrow> (f # fs, held, rest)
         else ([], Some (n, f), queue))"

text \<open>
  The actor runs concurrently with the writer and may send between any two receptions, so the
  connection is a transition system whose steps are single channel operations.  \<open>cn_draining\<close> is
  the state inside the loop of \<open>before_control\<close>: the watermark, the control frame and the terminal
  frames collected so far.  \<open>cn_sent\<close> is the history of the frames the lanes accepted, in the order
  the actor sent them, and \<open>cn_written\<close> what the writer has put on the socket.
\<close>

record connection =
  cn_handle :: client_handle
  cn_pending_terminal :: "(nat \<times> client_frame) option"
  cn_draining :: "(nat \<times> client_frame \<times> client_frame list) option"
  cn_written :: "client_frame list"
  cn_sent :: "client_frame list"

definition connection_init :: "client_handle \<Rightarrow> connection" where
  "connection_init h = \<lparr>cn_handle = h, cn_pending_terminal = None, cn_draining = None,
     cn_written = [], cn_sent = []\<rparr>"

definition sent_frame :: "client_handle \<Rightarrow> client_frame \<Rightarrow> client_frame" where
  "sent_frame h f = (if ch_has_budget h then Budgeted f else f)"

inductive conn_step :: "connection \<Rightarrow> connection \<Rightarrow> bool" where
  actor_control:
    "send_control granted open f (cn_handle c) = (ok, h) \<Longrightarrow>
      conn_step c (c\<lparr>cn_handle := h,
        cn_sent := cn_sent c @ (if ok then [sent_frame (cn_handle c) f] else [])\<rparr>)"
| actor_terminal:
    "ch_terminal_sequence (cn_handle c) < u64_max \<Longrightarrow>
      try_send_terminal granted answer f (cn_handle c) = (r, h) \<Longrightarrow>
      conn_step c (c\<lparr>cn_handle := h,
        cn_sent := cn_sent c @ (if r = Accepted then [sent_frame (cn_handle c) f] else [])\<rparr>)"
| recv_control:
    "cn_draining c = None \<Longrightarrow> ch_control_out (cn_handle c) = m # ms \<Longrightarrow> into_control m = (w, f) \<Longrightarrow>
      conn_step c (c\<lparr>cn_handle := (cn_handle c)\<lparr>ch_control_out := ms\<rparr>, cn_draining := Some (w, f, [])\<rparr>)"
| drain_held:
    "cn_draining c = Some (w, f, acc) \<Longrightarrow> cn_pending_terminal c = Some (n, t) \<Longrightarrow> n \<le> w \<Longrightarrow>
      conn_step c (c\<lparr>cn_pending_terminal := None, cn_draining := Some (w, f, acc @ [t])\<rparr>)"
| drain_recv:
    "cn_draining c = Some (w, f, acc) \<Longrightarrow> cn_pending_terminal c = None \<Longrightarrow>
      ch_terminal_out (cn_handle c) = m # ms \<Longrightarrow> into_terminal m = (n, t) \<Longrightarrow>
      conn_step c (c\<lparr>cn_handle := (cn_handle c)\<lparr>ch_terminal_out := ms\<rparr>,
        cn_pending_terminal := Some (n, t)\<rparr>)"
| drain_stop:
    "cn_draining c = Some (w, f, acc) \<Longrightarrow> cn_pending_terminal c = Some (n, t) \<Longrightarrow> w < n \<Longrightarrow>
      conn_step c (c\<lparr>cn_draining := None, cn_written := cn_written c @ acc @ [f]\<rparr>)"
| drain_empty:
    "cn_draining c = Some (w, f, acc) \<Longrightarrow> cn_pending_terminal c = None \<Longrightarrow>
      ch_terminal_out (cn_handle c) = [] \<Longrightarrow>
      conn_step c (c\<lparr>cn_draining := None, cn_written := cn_written c @ acc @ [f]\<rparr>)"
| recv_terminal:
    "cn_draining c = None \<Longrightarrow> cn_pending_terminal c = None \<Longrightarrow>
      ch_terminal_out (cn_handle c) = m # ms \<Longrightarrow> into_terminal m = (n, t) \<Longrightarrow>
      conn_step c (c\<lparr>cn_handle := (cn_handle c)\<lparr>ch_terminal_out := ms\<rparr>,
        cn_pending_terminal := Some (n, t)\<rparr>)"
| write_terminal:
    "cn_draining c = None \<Longrightarrow> cn_pending_terminal c = Some (n, t) \<Longrightarrow>
      ch_control_out (cn_handle c) = [] \<Longrightarrow>
      conn_step c (c\<lparr>cn_pending_terminal := None, cn_written := cn_written c @ [t]\<rparr>)"

section \<open>Causal order\<close>

text \<open>What is still to be written: the control queue and the terminal queue merged by watermark.\<close>

fun merge_lanes :: "(nat \<times> client_frame) list \<Rightarrow> (nat \<times> client_frame) list \<Rightarrow> client_frame list" where
  "merge_lanes [] ts = map snd ts"
| "merge_lanes ((w, c) # cs) ts =
    map snd (takeWhile (\<lambda>t. fst t \<le> w) ts) @ c # merge_lanes cs (dropWhile (\<lambda>t. fst t \<le> w) ts)"

definition waiting_controls :: "connection \<Rightarrow> (nat \<times> client_frame) list" where
  "waiting_controls c = (case cn_draining c of None \<Rightarrow> [] | Some (w, f, acc) \<Rightarrow> [(w, f)])
    @ map into_control (ch_control_out (cn_handle c))"

definition waiting_terminals :: "connection \<Rightarrow> (nat \<times> client_frame) list" where
  "waiting_terminals c = (case cn_pending_terminal c of None \<Rightarrow> [] | Some t \<Rightarrow> [t])
    @ map into_terminal (ch_terminal_out (cn_handle c))"

definition collected :: "connection \<Rightarrow> client_frame list" where
  "collected c = (case cn_draining c of None \<Rightarrow> [] | Some (w, f, acc) \<Rightarrow> acc)"

definition conn_inv :: "connection \<Rightarrow> bool" where
  "conn_inv c \<longleftrightarrow>
    cn_sent c = cn_written c @ collected c @ merge_lanes (waiting_controls c) (waiting_terminals c)
    \<and> (\<forall>(w, f) \<in> set (waiting_controls c). w \<le> ch_terminal_sequence (cn_handle c))
    \<and> (\<forall>(n, t) \<in> set (waiting_terminals c). n \<le> ch_terminal_sequence (cn_handle c))"

lemma merge_lanes_control:
  "\<forall>(n, t) \<in> set ts. n \<le> w \<Longrightarrow> merge_lanes (cs @ [(w, f)]) ts = merge_lanes cs ts @ [f]"
proof (induction cs ts rule: merge_lanes.induct)
  case (1 ts)
  then have "\<forall>x \<in> set ts. fst x \<le> w" by auto
  then show ?case by (simp add: takeWhile_dropWhile_all)
next
  case (2 v c cs ts)
  then show ?case by (auto dest: set_dropWhileD)
qed

lemma merge_lanes_terminal:
  "\<forall>(w, f) \<in> set cs. w < n \<Longrightarrow> merge_lanes cs (ts @ [(n, t)]) = merge_lanes cs ts @ [t]"
proof (induction cs ts rule: merge_lanes.induct)
  case (1 ts)
  then show ?case by simp
next
  case (2 w c cs ts)
  show ?case
  proof (cases "\<forall>x \<in> set ts. fst x \<le> w")
    case True
    then show ?thesis using 2 by (simp add: takeWhile_dropWhile_all)
  next
    case False
    then obtain x where x: "x \<in> set ts" "\<not> fst x \<le> w" by blast
    then show ?thesis
      using 2 takeWhile_append1 [of x ts "\<lambda>t. fst t \<le> w"] dropWhile_append1 [of x ts "\<lambda>t. fst t \<le> w"]
      by simp
  qed
qed

lemma conn_inv_init: "ch_control_out h = [] \<Longrightarrow> ch_terminal_out h = [] \<Longrightarrow> conn_inv (connection_init h)"
  by (simp add: conn_inv_def connection_init_def collected_def waiting_controls_def waiting_terminals_def)

lemmas conn_inv_defs = conn_inv_def collected_def waiting_controls_def waiting_terminals_def

lemma conn_inv_step:
  assumes "conn_step c c'" "conn_inv c"
  shows "conn_inv c'"
  using assms
proof (cases rule: conn_step.cases)
  case (actor_control granted open' f ok h)
  show ?thesis
  proof (cases ok)
    case True
    then have h: "h = (cn_handle c)\<lparr>ch_control_out := ch_control_out (cn_handle c) @
        [OrderedControl (ch_terminal_sequence (cn_handle c)) (sent_frame (cn_handle c) f)]\<rparr>"
      using actor_control(2) by (auto simp: send_control_def sent_frame_def split: if_splits)
    have ws: "waiting_controls c' = waiting_controls c @
        [(ch_terminal_sequence (cn_handle c), sent_frame (cn_handle c) f)]"
      "waiting_terminals c' = waiting_terminals c" "collected c' = collected c"
      using actor_control(1) h by (simp_all add: conn_inv_defs)
    show ?thesis
      using assms(2) actor_control(1) h ws merge_lanes_control
        [of "waiting_terminals c" "ch_terminal_sequence (cn_handle c)" "waiting_controls c"]
      by (auto simp: conn_inv_def True)
  next
    case False
    then have "ch_control_out h = ch_control_out (cn_handle c)"
      "ch_terminal_out h = ch_terminal_out (cn_handle c)"
      "ch_terminal_sequence h = ch_terminal_sequence (cn_handle c)"
      using actor_control(2) by (auto simp: send_control_def split: if_splits)
    with assms(2) actor_control(1) False show ?thesis by (simp add: conn_inv_defs)
  qed
next
  case (actor_terminal granted answer f r h)
  show ?thesis
  proof (cases "r = Accepted")
    case True
    let ?n = "ch_terminal_sequence (cn_handle c) + 1"
    have h: "h = (cn_handle c)\<lparr>ch_terminal_sequence := ?n, ch_terminal_out := ch_terminal_out (cn_handle c) @
        [SequencedTerminal ?n (sent_frame (cn_handle c) f)]\<rparr>"
      using actor_terminal(2,3) True
      by (auto simp: try_send_terminal_def sent_frame_def Let_def split: if_splits)
    have ws: "waiting_terminals c' = waiting_terminals c @ [(?n, sent_frame (cn_handle c) f)]"
      "waiting_controls c' = waiting_controls c" "collected c' = collected c"
      using actor_terminal(1) h by (simp_all add: conn_inv_defs)
    have less: "\<forall>(w, f) \<in> set (waiting_controls c). w < ?n"
      using assms(2) by (auto simp: conn_inv_def)
    show ?thesis
      using assms(2) actor_terminal(1) h ws merge_lanes_terminal [OF less]
      by (auto simp: conn_inv_def True)
  next
    case False
    then have "ch_control_out h = ch_control_out (cn_handle c)"
      "ch_terminal_out h = ch_terminal_out (cn_handle c)"
      "ch_terminal_sequence (cn_handle c) \<le> ch_terminal_sequence h"
      using actor_terminal(2,3) by (auto simp: try_send_terminal_def Let_def split: if_splits)
    with actor_terminal(1) False have "waiting_controls c' = waiting_controls c"
      "waiting_terminals c' = waiting_terminals c" "collected c' = collected c"
      "cn_sent c' = cn_sent c" "cn_written c' = cn_written c"
      "ch_terminal_sequence (cn_handle c) \<le> ch_terminal_sequence (cn_handle c')"
      by (simp_all add: conn_inv_defs)
    with assms(2) show ?thesis by (auto simp: conn_inv_def dest: order_trans)
  qed
qed (auto simp: conn_inv_defs)

lemma conn_inv_run:
  assumes "conn_step\<^sup>*\<^sup>* (connection_init client_handle_new) c"
  shows "conn_inv c"
  using assms
proof (induction rule: rtranclp_induct)
  case base
  show ?case by (rule conn_inv_init) (simp_all add: client_handle_new_def)
next
  case (step y z)
  then show ?case using conn_inv_step by blast
qed

lemmas conn_run = rtranclp.rtrancl_into_rtrancl [where r = conn_step]

text \<open>
  C3: The writer puts frames on the socket in exactly the order the server sent them, whatever the
  interleaving of the server with the writer and whichever terminal frames the bounded lane
  refuses: what is written is always a prefix of what was sent, and once both lanes are empty and
  no frame is held, everything sent has been written.  In particular a snapshot reply on the
  control lane never overtakes output sent before it and is never overtaken by output sent after it.
\<close>

theorem writer_preserves_send_order:
  assumes "conn_step\<^sup>*\<^sup>* (connection_init client_handle_new) c"
  shows "prefix (cn_written c) (cn_sent c)
    \<and> (ch_control_out (cn_handle c) = [] \<and> ch_terminal_out (cn_handle c) = []
        \<and> cn_pending_terminal c = None \<and> cn_draining c = None \<longrightarrow> cn_written c = cn_sent c)"
  using conn_inv_run [OF assms] by (auto simp: conn_inv_defs)

text \<open>A run in which the server sends a control frame and then terminal output, and the writer
  receives the output first.\<close>

theorem writer_preserves_send_order_witness:
  "\<exists>c. conn_step\<^sup>*\<^sup>* (connection_init client_handle_new) c
    \<and> cn_sent c = [UpgradeToBinary, Output ''s'' [1]] \<and> cn_written c = [UpgradeToBinary, Output ''s'' [1]]
    \<and> prefix (cn_written c) (cn_sent c)"
proof -
  let ?q = "\<lambda>cs ts n. \<lparr>ch_control_out = cs, ch_terminal_out = ts, ch_terminal_sequence = n,
     ch_has_budget = False, ch_exhausted = False\<rparr>"
  let ?c = "OrderedControl 0 UpgradeToBinary" and ?t = "SequencedTerminal 1 (Output ''s'' [1])"
  let ?st = "\<lambda>h p d w s. \<lparr>cn_handle = h, cn_pending_terminal = p, cn_draining = d, cn_written = w, cn_sent = s\<rparr>"
  let ?u = "[UpgradeToBinary]" and ?ut = "[UpgradeToBinary, Output ''s'' [1]]"
  let ?p = "Some (1, Output ''s'' [1])"
  have s1: "conn_step (connection_init client_handle_new) (?st (?q [?c] [] 0) None None [] ?u)"
    using conn_step.actor_control [of True True UpgradeToBinary "connection_init client_handle_new"]
    by (simp add: send_control_def connection_init_def client_handle_new_def sent_frame_def)
  have s2: "conn_step (?st (?q [?c] [] 0) None None [] ?u) (?st (?q [?c] [?t] 1) None None [] ?ut)"
    using conn_step.actor_terminal
      [of "?st (?q [?c] [] 0) None None [] ?u" True Accepted "Output ''s'' [1]" Accepted "?q [?c] [?t] 1"]
    by (simp add: try_send_terminal_def sent_frame_def u64_max_def Let_def u64_succ_def)
  have s3: "conn_step (?st (?q [?c] [?t] 1) None None [] ?ut) (?st (?q [?c] [] 1) ?p None [] ?ut)"
    using conn_step.recv_terminal [of "?st (?q [?c] [?t] 1) None None [] ?ut" ?t "[]" 1 "Output ''s'' [1]"]
    by simp
  have s4: "conn_step (?st (?q [?c] [] 1) ?p None [] ?ut)
      (?st (?q [] [] 1) ?p (Some (0, UpgradeToBinary, [])) [] ?ut)"
    using conn_step.recv_control [of "?st (?q [?c] [] 1) ?p None [] ?ut" ?c "[]" 0 UpgradeToBinary]
    by simp
  have s5: "conn_step (?st (?q [] [] 1) ?p (Some (0, UpgradeToBinary, [])) [] ?ut)
      (?st (?q [] [] 1) ?p None ?u ?ut)"
    using conn_step.drain_stop
      [of "?st (?q [] [] 1) ?p (Some (0, UpgradeToBinary, [])) [] ?ut" 0 UpgradeToBinary "[]" 1]
    by simp
  have s6: "conn_step (?st (?q [] [] 1) ?p None ?u ?ut) (?st (?q [] [] 1) None None ?ut ?ut)"
    using conn_step.write_terminal [of "?st (?q [] [] 1) ?p None ?u ?ut" 1] by simp
  have r: "conn_step\<^sup>*\<^sup>* (connection_init client_handle_new) (?st (?q [] [] 1) None None ?ut ?ut)"
    by (rule conn_run [OF conn_run [OF conn_run [OF conn_run [OF conn_run [OF conn_run
      [OF rtranclp.rtrancl_refl s1] s2] s3] s4] s5] s6])
  from writer_preserves_send_order [OF r] r show ?thesis
    by (intro exI [of _ "?st (?q [] [] 1) None None ?ut ?ut"]) simp
qed

section \<open>Draining\<close>

text \<open>
  How many receptions and writes the writer still owes: a queued frame is received and then
  written, a held frame or a control frame being drained is only written.
\<close>

definition unwritten :: "connection \<Rightarrow> nat" where
  "unwritten c = 2 * length (ch_control_out (cn_handle c)) + 2 * length (ch_terminal_out (cn_handle c))
     + (case cn_pending_terminal c of None \<Rightarrow> 0 | Some t \<Rightarrow> 1)
     + (case cn_draining c of None \<Rightarrow> 0 | Some d \<Rightarrow> 1)"

lemma unwritten_eq_0: "unwritten c = 0 \<longleftrightarrow>
    ch_control_out (cn_handle c) = [] \<and> ch_terminal_out (cn_handle c) = []
    \<and> cn_pending_terminal c = None \<and> cn_draining c = None"
  by (auto simp: unwritten_def split: option.splits)

lemma writer_progress:
  assumes "unwritten c \<noteq> 0"
  shows "\<exists>c'. conn_step c c' \<and> cn_sent c' = cn_sent c \<and> unwritten c' < unwritten c"
proof (cases "cn_draining c")
  case None
  show ?thesis
  proof (cases "ch_control_out (cn_handle c)")
    case (Cons m ms)
    obtain w f where m: "into_control m = (w, f)" by fastforce
    show ?thesis
      using conn_step.recv_control [OF None Cons m] None Cons by (fastforce simp: unwritten_def)
  next
    case Nil
    show ?thesis
    proof (cases "cn_pending_terminal c")
      case (Some p)
      obtain n t where p: "p = (n, t)" by fastforce
      show ?thesis
        using conn_step.write_terminal [OF None Some [unfolded p] Nil] None Some by (fastforce simp: unwritten_def)
    next
      case pending: None
      with assms None Nil obtain m ms where q: "ch_terminal_out (cn_handle c) = m # ms"
        by (cases "ch_terminal_out (cn_handle c)") (auto simp: unwritten_def)
      obtain n t where m: "into_terminal m = (n, t)" by fastforce
      show ?thesis
        using conn_step.recv_terminal [OF None pending q m] None pending q by (fastforce simp: unwritten_def)
    qed
  qed
next
  case (Some d)
  obtain w f acc where d: "cn_draining c = Some (w, f, acc)" using Some by (cases d) auto
  show ?thesis
  proof (cases "cn_pending_terminal c")
    case (Some p)
    obtain n t where p: "cn_pending_terminal c = Some (n, t)" using Some by (cases p) auto
    show ?thesis
      using conn_step.drain_held [OF d p] conn_step.drain_stop [OF d p] d p
      by (cases "n \<le> w") (fastforce simp: unwritten_def not_le)+
  next
    case None
    show ?thesis
    proof (cases "ch_terminal_out (cn_handle c)")
      case Nil
      show ?thesis
        using conn_step.drain_empty [OF d None Nil] d None by (fastforce simp: unwritten_def)
    next
      case (Cons m ms)
      obtain n t where m: "into_terminal m = (n, t)" by fastforce
      show ?thesis
        using conn_step.drain_recv [OF d None Cons m] d None Cons by (fastforce simp: unwritten_def)
    qed
  qed
qed

lemma writer_drains:
  "\<exists>c' n. n \<le> unwritten c \<and> (conn_step ^^ n) c c' \<and> cn_sent c' = cn_sent c \<and> unwritten c' = 0"
proof (induction "unwritten c" arbitrary: c rule: less_induct)
  case less
  show ?case
  proof (cases "unwritten c = 0")
    case True
    then show ?thesis by (intro exI [of _ c] exI [of _ 0]) simp
  next
    case False
    then obtain c1 where c1: "conn_step c c1" "cn_sent c1 = cn_sent c" "unwritten c1 < unwritten c"
      using writer_progress by blast
    with less obtain c' n where c': "n \<le> unwritten c1" "(conn_step ^^ n) c1 c'"
      "cn_sent c' = cn_sent c1" "unwritten c' = 0" by blast
    have "(conn_step ^^ Suc n) c c'" using c1(1) c'(2) by (rule relpowp_Suc_I2)
    with c1 c' show ?thesis by (intro exI [of _ c'] exI [of _ "Suc n"]) simp
  qed
qed

text \<open>
  C30: The writer never gets stuck.  From every reachable connection, if the server sends nothing
  more, the writer puts every frame already accepted by a lane on the socket, in the order it was
  sent, within one reception and one write per waiting frame.
\<close>

theorem writer_delivers_everything:
  assumes "conn_step\<^sup>*\<^sup>* (connection_init client_handle_new) c"
  shows "\<exists>c' n. n \<le> unwritten c \<and> (conn_step ^^ n) c c' \<and> cn_sent c' = cn_sent c \<and> cn_written c' = cn_sent c"
proof -
  obtain c' n where c': "n \<le> unwritten c" "(conn_step ^^ n) c c'" "cn_sent c' = cn_sent c" "unwritten c' = 0"
    using writer_drains by blast
  from assms have "conn_step\<^sup>*\<^sup>* (connection_init client_handle_new) c'"
    using relpowp_imp_rtranclp [OF c'(2)] by simp
  then have "conn_inv c'" by (rule conn_inv_run)
  with c'(4) have "cn_written c' = cn_sent c'" by (auto simp: conn_inv_defs unwritten_eq_0)
  with c' show ?thesis by metis
qed

theorem writer_delivers_everything_witness:
  "\<exists>c. cn_written c = [] \<and> cn_sent c = [UpgradeToBinary] \<and>
     (\<exists>c' n. n \<le> 2 \<and> (conn_step ^^ n) c c' \<and> cn_written c' = [UpgradeToBinary])"
proof -
  let ?start = "connection_init client_handle_new"
  let ?c = "?start\<lparr>cn_handle := snd (send_control True True UpgradeToBinary client_handle_new),
    cn_sent := [UpgradeToBinary]\<rparr>"
  have "conn_step ?start ?c"
    using conn_step.actor_control [of True True UpgradeToBinary ?start]
    by (simp add: send_control_def connection_init_def client_handle_new_def sent_frame_def)
  then have "conn_step\<^sup>*\<^sup>* ?start ?c" by (rule r_into_rtranclp)
  from writer_delivers_everything [OF this] show ?thesis
    by (intro exI [of _ ?c]) (auto simp: unwritten_def send_control_def connection_init_def client_handle_new_def)
qed

end
