(* ===== verification/Terminal_Server.thy ===== *)
theory Terminal_Server
  imports Session_Output Client_Frames
begin

text \<open>
  The server actor's handling of terminal output: delivery to the attached clients
  (\<open>server/output_delivery.rs\<close>), the ordered history writer (\<open>server/history_writer.rs\<close>) and its
  use by the actor (\<open>server/history_persistence.rs\<close>), and the output event of a PTY
  (\<open>server/pty_events.rs\<close>), under \<open>rust/alera-cli/src/terminal_host\<close>.

  The actor state is the record \<open>server\<close>.  Spawned timers, the wake-up of a paused PTY reader and
  calls into other components (title broadcast, orchestration activity, client disconnection) are
  appended to \<open>srv_effects\<close>.  What the bounded channels answer is an argument: \<open>chan c\<close> is the pair
  of the budget's and the terminal lane's answer for client \<open>c\<close>, \<open>enq\<close> the answer of the history
  queue.  A client's lane is seen from the server: \<open>ch_terminal_out\<close> is the list of frames it has
  accepted.
\<close>

section \<open>The ordered history writer\<close>

definition history_writer_max_pending :: nat where
  "history_writer_max_pending = 7 + 1"

datatype completion = Waiting | Succeeded | Failed | CompletionDropped

record history_writer =
  hw_sender_open :: bool
  hw_pending :: "(durable_batch \<times> completion) list"
  hw_last_enqueued_sequence :: "64 word option"
  hw_failed :: bool

datatype enqueue_error = WriterFailed | SequenceGap | QueueFull | WriterClosed | WriterStopped

definition history_writer_new :: history_writer where
  "history_writer_new = \<lparr>hw_sender_open = True, hw_pending = [], hw_last_enqueued_sequence = None,
     hw_failed = False\<rparr>"

text \<open>\<open>saturating_add(1)\<close> on an \<open>i64\<close>.\<close>

definition i64_saturating_succ :: "64 word \<Rightarrow> 64 word" where
  "i64_saturating_succ n = (if n = 0x7FFFFFFFFFFFFFFF then n else n + 1)"

definition stop_when_idle :: "history_writer \<Rightarrow> history_writer" where
  "stop_when_idle w = w\<lparr>hw_sender_open := False\<rparr>"

definition try_enqueue ::
  "send_answer \<Rightarrow> durable_batch \<Rightarrow> history_writer \<Rightarrow> enqueue_error option \<times> history_writer" where
  "try_enqueue enq b w =
    (if hw_failed w then (Some WriterFailed, w)
     else if (case hw_last_enqueued_sequence w of
                None \<Rightarrow> False
              | Some prev \<Rightarrow> db_sequence b \<noteq> i64_saturating_succ prev) then (Some SequenceGap, w)
     else if history_writer_max_pending \<le> length (hw_pending w) then (Some QueueFull, w)
     else if \<not> hw_sender_open w then (Some WriterClosed, w)
     else case enq of
       Full \<Rightarrow> (Some QueueFull, w)
     | Closed \<Rightarrow> (Some WriterStopped, w\<lparr>hw_failed := True\<rparr>)
     | Accepted \<Rightarrow> (None, w\<lparr>hw_last_enqueued_sequence := Some (db_sequence b),
                           hw_pending := hw_pending w @ [(b, Waiting)]\<rparr>))"

text \<open>The loop of \<open>poll_completed\<close>: failed batches, the \<open>failed\<close> flag and what stays pending.\<close>

fun poll_loop :: "(durable_batch \<times> completion) list \<Rightarrow> bool
    \<Rightarrow> durable_batch list \<times> bool \<times> (durable_batch \<times> completion) list" where
  "poll_loop [] failed = ([], failed, [])"
| "poll_loop ((b, c) # ps) failed =
    (case c of
       Waiting \<Rightarrow> ([], failed, (b, c) # ps)
     | Succeeded \<Rightarrow> poll_loop ps failed
     | _ \<Rightarrow> (case poll_loop ps True of (bs, failed', rest) \<Rightarrow> (b # bs, failed', rest)))"

definition poll_completed :: "history_writer \<Rightarrow> durable_batch list \<times> history_writer" where
  "poll_completed w =
    (case poll_loop (hw_pending w) (hw_failed w) of
       (bs, failed, rest) \<Rightarrow> (bs, w\<lparr>hw_pending := rest, hw_failed := failed\<rparr>))"

section \<open>Actor state\<close>

datatype effect =
    OutputBatchTimer string generation
  | DurableOutputBatchTimer string generation
  | OutputResyncTimer string client_id
  | CheckpointTimer string generation
  | DisconnectClient client_id
  | AckPty nat
  | TitleChanged string bytes
  | OutputActivity string

record server =
  srv_sessions :: "string \<rightharpoonup> session"
  srv_clients :: "client_id \<rightharpoonup> client_handle"
  srv_writers :: "string \<rightharpoonup> history_writer"
  srv_paused_pty :: "string set"
  srv_inbox_closed :: bool
  srv_restore_snapshot_bytes :: nat
  srv_effects :: "effect list"

type_synonym channels = "client_id \<Rightarrow> bool \<times> send_answer"

definition output_batch_delay :: nat where
  "output_batch_delay = 8"

definition emit :: "effect \<Rightarrow> server \<Rightarrow> server" where
  "emit e srv = srv\<lparr>srv_effects := srv_effects srv @ [e]\<rparr>"

definition put_session :: "string \<Rightarrow> session \<Rightarrow> server \<Rightarrow> server" where
  "put_session sid s srv = srv\<lparr>srv_sessions := (srv_sessions srv)(sid \<mapsto> s)\<rparr>"

text \<open>\<open>self.sessions.get_mut(id)\<close> followed by an update in place.\<close>

definition on_session :: "string \<Rightarrow> (session \<Rightarrow> session) \<Rightarrow> server \<Rightarrow> server" where
  "on_session sid f srv =
    (case srv_sessions srv sid of None \<Rightarrow> srv | Some s \<Rightarrow> put_session sid (f s) srv)"

text \<open>The admission state of the command inbox; a closed inbox, whose actor is gone, pauses nothing any more.\<close>

definition pause_pty_session :: "string \<Rightarrow> server \<Rightarrow> server" where
  "pause_pty_session sid srv =
    (if srv_inbox_closed srv then srv else srv\<lparr>srv_paused_pty := insert sid (srv_paused_pty srv)\<rparr>)"

definition resume_pty_session :: "string \<Rightarrow> server \<Rightarrow> server" where
  "resume_pty_session sid srv = srv\<lparr>srv_paused_pty := srv_paused_pty srv - {sid}\<rparr>"

definition output_batch_max_bytes :: nat where
  "output_batch_max_bytes = 64 * 1024"

definition spawn_durable_output_batch_timer :: "string \<Rightarrow> generation \<Rightarrow> server \<Rightarrow> server" where
  "spawn_durable_output_batch_timer sid g srv =
    (case srv_sessions srv sid of
       None \<Rightarrow> srv
     | Some s \<Rightarrow>
         (case arm_durable_retry_timer g s of
            (False, _) \<Rightarrow> srv
          | (True, s') \<Rightarrow> emit (DurableOutputBatchTimer sid g) (put_session sid s' srv)))"

definition arm_checkpoint_retry_timer :: "generation \<Rightarrow> session \<Rightarrow> bool \<times> session" where
  "arm_checkpoint_retry_timer g s =
    (if s_checkpoint_retry_timer s \<noteq> None then (False, s)
     else (True, s\<lparr>s_checkpoint_retry_timer := Some g\<rparr>))"

definition spawn_checkpoint_timer :: "string \<Rightarrow> generation \<Rightarrow> server \<Rightarrow> server" where
  "spawn_checkpoint_timer sid g srv =
    (case srv_sessions srv sid of
       None \<Rightarrow> srv
     | Some s \<Rightarrow>
         (case arm_checkpoint_retry_timer g s of
            (False, _) \<Rightarrow> srv
          | (True, s') \<Rightarrow> emit (CheckpointTimer sid g) (put_session sid s' srv)))"

section \<open>History persistence\<close>

definition schedule_history_retry :: "string \<Rightarrow> server \<Rightarrow> server" where
  "schedule_history_retry sid srv =
    (case srv_sessions srv sid of
       None \<Rightarrow> srv
     | Some s \<Rightarrow> spawn_durable_output_batch_timer sid (s_durable_output_batch_gen s) srv)"

definition restore_failed_history_batch :: "string \<Rightarrow> durable_batch \<Rightarrow> server \<Rightarrow> server" where
  "restore_failed_history_batch sid b srv =
    (let srv1 = pause_pty_session sid srv
     in case srv_sessions srv1 sid of
          None \<Rightarrow> srv1
        | Some s \<Rightarrow>
            (case restore_durable_output_batch b s of
               (g, s') \<Rightarrow> spawn_durable_output_batch_timer sid g (put_session sid s' srv1)))"

definition collect_history_writer_completions :: "string \<Rightarrow> server \<Rightarrow> server" where
  "collect_history_writer_completions sid srv =
    (if srv_sessions srv sid = None then srv
     else case srv_writers srv sid of
       None \<Rightarrow> srv
     | Some w \<Rightarrow>
         (case poll_completed w of
            (failures, w') \<Rightarrow>
              fold (restore_failed_history_batch sid) failures
                (srv\<lparr>srv_writers := (srv_writers srv)(sid \<mapsto> w')\<rparr>)))"

definition retire_history_writer :: "string \<Rightarrow> server \<Rightarrow> server" where
  "retire_history_writer sid srv =
    (case srv_writers srv sid of
       None \<Rightarrow> srv
     | Some w \<Rightarrow> if hw_pending w = [] then srv\<lparr>srv_writers := (srv_writers srv)(sid := None)\<rparr> else srv)"

definition release_pty_ack_if_unblocked :: "string \<Rightarrow> server \<Rightarrow> server" where
  "release_pty_ack_if_unblocked sid srv =
    (case srv_sessions srv sid of
       None \<Rightarrow> srv
     | Some s \<Rightarrow>
         if s_history_barrier_held s \<or> s_checkpoint_output_blocked s
            \<or> should_pause_pty_output durable_output_batch_max_bytes s
         then srv
         else
           (case take_pty_ack_if_unblocked durable_output_batch_max_bytes s of
              (ack, s') \<Rightarrow>
                (let srv1 = put_session sid s' (resume_pty_session sid srv)
                 in case ack of None \<Rightarrow> srv1 | Some a \<Rightarrow> emit (AckPty a) srv1)))"

text \<open>The part of \<open>flush_durable_output_batch\<close> after a batch has been taken from the session.\<close>

definition enqueue_durable_batch :: "send_answer \<Rightarrow> string \<Rightarrow> durable_batch \<Rightarrow> server \<Rightarrow> server" where
  "enqueue_durable_batch enq sid b srv =
    (let w = (case srv_writers srv sid of None \<Rightarrow> history_writer_new | Some w \<Rightarrow> w)
     in case try_enqueue enq b w of
          (Some e, w') \<Rightarrow>
            restore_failed_history_batch sid b (srv\<lparr>srv_writers := (srv_writers srv)(sid \<mapsto> w')\<rparr>)
        | (None, w') \<Rightarrow>
            (let srv1 = srv\<lparr>srv_writers := (srv_writers srv)(sid \<mapsto> w')\<rparr>;
                 srv2 = (case srv_sessions srv1 sid of
                     None \<Rightarrow> srv1
                   | Some s \<Rightarrow>
                       if s_durable_output_failures s = [] \<and> s_durable_output_batch s = []
                       then
                         (let s' = disarm_durable_output_batch_if_empty s;
                              srv' = put_session sid s' srv1
                          in if hw_pending w' \<noteq> []
                             then spawn_durable_output_batch_timer sid (s_durable_output_batch_gen s') srv'
                             else srv')
                       else spawn_durable_output_batch_timer sid (s_durable_output_batch_gen s) srv1)
             in release_pty_ack_if_unblocked sid srv2))"

text \<open>\<open>ServerActor::flush_durable_output_batch\<close>.\<close>

definition flush_durable :: "send_answer \<Rightarrow> string \<Rightarrow> server \<Rightarrow> server" where
  "flush_durable enq sid srv =
    (case srv_sessions srv sid of
       None \<Rightarrow> srv
     | Some s0 \<Rightarrow>
         if s_checkpoint_output_blocked s0 then schedule_history_retry sid srv
         else
           (let srv1 = collect_history_writer_completions sid srv;
                stuck = (case srv_writers srv1 sid of
                    None \<Rightarrow> False | Some w \<Rightarrow> hw_failed w \<and> hw_pending w \<noteq> []);
                srv2 = (case srv_writers srv1 sid of
                    None \<Rightarrow> srv1
                  | Some w \<Rightarrow> if hw_failed w then retire_history_writer sid srv1 else srv1)
            in if stuck then schedule_history_retry sid srv1
               else case srv_sessions srv2 sid of
                 None \<Rightarrow> srv2
               | Some s \<Rightarrow>
                   (case flush_durable_output_batch s of
                      (Some b, s') \<Rightarrow> enqueue_durable_batch enq sid b (put_session sid s' srv2)
                    | (None, s') \<Rightarrow>
                        (let srv3 = put_session sid s' srv2;
                             srv4 = (case srv_writers srv3 sid of
                                 None \<Rightarrow> srv3
                               | Some w \<Rightarrow>
                                   if hw_pending w \<noteq> []
                                   then spawn_durable_output_batch_timer sid (s_durable_output_batch_gen s') srv3
                                   else srv3)
                         in release_pty_ack_if_unblocked sid srv4))))"

section \<open>Delivery to clients\<close>

definition frame_data_len :: "client_frame \<Rightarrow> nat" where
  "frame_data_len f = (case f of Output sid data \<Rightarrow> length data | _ \<Rightarrow> 0)"

definition send_terminal_output ::
  "channels \<Rightarrow> string \<Rightarrow> client_id \<Rightarrow> client_frame \<Rightarrow> server \<Rightarrow> bool \<times> server" where
  "send_terminal_output chan sid c f srv =
    (case srv_clients srv c of
       None \<Rightarrow> (False, emit (DisconnectClient c) srv)
     | Some h \<Rightarrow>
         (case try_send_terminal (fst (chan c)) (snd (chan c)) f h of
            (r, h') \<Rightarrow>
              (let srv1 = srv\<lparr>srv_clients := (srv_clients srv)(c \<mapsto> h')\<rparr>
               in case r of
                    Accepted \<Rightarrow>
                      (True, on_session sid (advance_delivered_output_cursor c (frame_data_len f)) srv1)
                  | Full \<Rightarrow>
                      (False,
                       (case srv_sessions srv1 sid of
                          None \<Rightarrow> srv1
                        | Some s \<Rightarrow>
                            (case mark_output_backpressured c s of
                               (newly, s') \<Rightarrow>
                                 (if newly then emit (OutputResyncTimer sid c) else id)
                                   (put_session sid s' srv1))))
                  | Closed \<Rightarrow> (False, emit (DisconnectClient c) srv1))))"

text \<open>\<open>ServerActor::flush_output_batch\<close>.\<close>

definition flush_output :: "channels \<Rightarrow> string \<Rightarrow> server \<Rightarrow> server" where
  "flush_output chan sid srv =
    (case srv_sessions srv sid of
       None \<Rightarrow> srv
     | Some s \<Rightarrow>
         (case flush_output_batch s of
            (None, s') \<Rightarrow> put_session sid s' srv
          | (Some data, s') \<Rightarrow>
              fold (\<lambda>c srv. snd (send_terminal_output chan sid c (Output sid data) srv))
                (output_clients s') (put_session sid s' srv)))"

definition flush_all_output :: "channels \<Rightarrow> send_answer \<Rightarrow> string \<Rightarrow> server \<Rightarrow> server" where
  "flush_all_output chan enq sid srv = flush_durable enq sid (flush_output chan sid srv)"

text \<open>The replies of \<open>setOutputPaused\<close>: \<open>{}\<close>, \<open>{delta: true, resumed}\<close> or a restore payload.\<close>

datatype resume_reply = ReplyEmpty | ReplyDelta bool | ReplySnapshot bytes "nat \<times> nat"

definition resend_output_snapshot :: "string \<Rightarrow> client_id \<Rightarrow> server \<Rightarrow> resume_reply \<times> server" where
  "resend_output_snapshot sid c srv =
    (case srv_sessions srv sid of
       None \<Rightarrow> (ReplyEmpty, srv)
     | Some s \<Rightarrow>
         (let s1 = set_output_paused c False s;
              s2 = set_delivered_output_cursor c (snd (output_stream_range s1)) s1
          in (ReplySnapshot (sb_tail (s_buffer s2) (srv_restore_snapshot_bytes srv)) (s_current_dims s2),
              put_session sid s2 srv)))"

definition missed_output :: "session \<Rightarrow> client_id \<Rightarrow> bytes option" where
  "missed_output s c =
    (case output_stream_range s of
       (base, end) \<Rightarrow>
         (case delivered_output_cursor s c of
            None \<Rightarrow> None
          | Some cursor \<Rightarrow>
              if base \<le> cursor \<and> cursor \<le> end then Some (slice_from (s_buffer s) (cursor - base))
              else None))"

definition resume_output_for_client ::
  "channels \<Rightarrow> string \<Rightarrow> client_id \<Rightarrow> server \<Rightarrow> resume_reply \<times> server" where
  "resume_output_for_client chan sid c srv =
    (case (case srv_sessions srv sid of None \<Rightarrow> None | Some s \<Rightarrow> missed_output s c) of
       None \<Rightarrow> resend_output_snapshot sid c srv
     | Some data \<Rightarrow>
         (case (if data = [] then (True, srv) else send_terminal_output chan sid c (Output sid data) srv) of
            (accepted, srv1) \<Rightarrow>
              (ReplyDelta accepted,
               if accepted then on_session sid (set_output_paused c False) srv1 else srv1)))"

definition set_output_paused_for_client ::
  "channels \<Rightarrow> string \<Rightarrow> client_id \<Rightarrow> bool \<Rightarrow> server \<Rightarrow> resume_reply \<times> server" where
  "set_output_paused_for_client chan sid c paused srv =
    (if \<not> paused then resume_output_for_client chan sid c srv
     else (ReplyEmpty, on_session sid (set_output_paused c True) srv))"

definition output_resync_event :: "string \<Rightarrow> client_frame" where
  "output_resync_event sid = Json (JObj [(''event'', JStr ''outputResyncRequired''),
     (''payload'', JObj [(''sessionId'', JStr sid)])])"

definition handle_output_resync_tick :: "channels \<Rightarrow> string \<Rightarrow> client_id \<Rightarrow> server \<Rightarrow> server" where
  "handle_output_resync_tick chan sid c srv =
    (if (case srv_sessions srv sid of None \<Rightarrow> True | Some s \<Rightarrow> \<not> output_resync_pending s c) then srv
     else case srv_clients srv c of
       None \<Rightarrow> emit (DisconnectClient c) (on_session sid (mark_output_resync_sent c) srv)
     | Some h \<Rightarrow>
         (case try_send_terminal (fst (chan c)) (snd (chan c)) (output_resync_event sid) h of
            (r, h') \<Rightarrow>
              (let srv1 = srv\<lparr>srv_clients := (srv_clients srv)(c \<mapsto> h')\<rparr>
               in case r of
                    Accepted \<Rightarrow> on_session sid (mark_output_resync_sent c) srv1
                  | Full \<Rightarrow> emit (OutputResyncTimer sid c) srv1
                  | Closed \<Rightarrow>
                      emit (DisconnectClient c) (on_session sid (mark_output_resync_sent c) srv1))))"

definition handle_output_batch_tick :: "channels \<Rightarrow> string \<Rightarrow> generation \<Rightarrow> server \<Rightarrow> server" where
  "handle_output_batch_tick chan sid g srv =
    (case srv_sessions srv sid of
       None \<Rightarrow> srv
     | Some s \<Rightarrow> if output_batch_due g s then flush_output chan sid srv else srv)"

section \<open>Output of a PTY\<close>

definition when_some :: "'a option \<Rightarrow> ('a \<Rightarrow> server \<Rightarrow> server) \<Rightarrow> server \<Rightarrow> server" where
  "when_some x f srv = (case x of None \<Rightarrow> srv | Some y \<Rightarrow> f y srv)"

text \<open>
  \<open>handle_pty_output\<close>: the boolean tells the PTY reader whether it may continue.  The title
  broadcast and the orchestration lease update are effects.
\<close>

definition handle_pty_output ::
  "channels \<Rightarrow> send_answer \<Rightarrow> nat \<Rightarrow> string \<Rightarrow> bytes \<Rightarrow> server \<Rightarrow> bool \<times> server" where
  "handle_pty_output chan enq now sid data srv =
    (case srv_sessions srv sid of
       None \<Rightarrow> (True, srv)
     | Some s \<Rightarrow>
         (let leading_edge = output_quiet_for now output_batch_delay s
          in case append_output now data s of
               ((output_generation, durable_generation, title_change), s1) \<Rightarrow>
                 (case arm_checkpoint s1 of
                    (checkpoint, s2) \<Rightarrow>
                      (let output_len = length (s_output_batch s1);
                           durable_len = length (s_durable_output_batch s1);
                           blocked = s_checkpoint_output_blocked s2;
                           srv1 = put_session sid s2 srv;
                           srv2 = when_some title_change (\<lambda>t. emit (TitleChanged sid t)) srv1;
                           srv3 = emit (OutputActivity sid) srv2;
                           srv4 = when_some (if leading_edge then None else output_generation)
                                    (\<lambda>g. emit (OutputBatchTimer sid g)) srv3;
                           srv5 = when_some durable_generation (spawn_durable_output_batch_timer sid) srv4;
                           srv6 = (if leading_edge \<or> output_batch_max_bytes \<le> output_len
                                   then flush_output chan sid srv5 else srv5);
                           srv7 = (if output_batch_max_bytes \<le> durable_len \<and> \<not> blocked
                                   then flush_durable enq sid srv6 else srv6);
                           srv8 = when_some checkpoint (spawn_checkpoint_timer sid) srv7;
                           should_pause = (case srv_sessions srv8 sid of
                               None \<Rightarrow> False
                             | Some s' \<Rightarrow> blocked \<or> should_pause_pty_output durable_output_batch_max_bytes s')
                       in (\<not> should_pause, if should_pause then pause_pty_session sid srv8 else srv8)))))"

end
