(* ===== verification/Output_Delivery.thy ===== *)
theory Output_Delivery
  imports Terminal_Server
begin

text \<open>
  Lossless delivery of terminal output.  The requests of \<open>server/requests.rs\<close> and
  \<open>server/terminal_session_requests.rs\<close> that touch delivery are composed from the operations of the
  previous theory, and a transition system runs them in any order, with any answers of the client
  lanes, next to PTY output and timers.  History variables record the complete output stream of
  every session and, for every session and client, the stream position and the number of frames
  accepted when the client last received a snapshot.
\<close>

section \<open>Requests\<close>

definition set_output_paused_request ::
  "channels \<Rightarrow> send_answer \<Rightarrow> channels \<Rightarrow> string \<Rightarrow> client_id \<Rightarrow> bool \<Rightarrow> server \<Rightarrow> resume_reply \<times> server" where
  "set_output_paused_request chan1 enq chan2 sid c paused srv =
    set_output_paused_for_client chan2 sid c paused (flush_all_output chan1 enq sid srv)"

text \<open>Attaching to a running session; the reply carries the snapshot.\<close>

definition attach_request ::
  "channels \<Rightarrow> send_answer \<Rightarrow> string \<Rightarrow> client_id \<Rightarrow> server \<Rightarrow> bytes option \<times> server" where
  "attach_request chan enq sid c srv =
    (let srv1 = flush_all_output chan enq sid srv
     in case srv_sessions srv1 sid of
          None \<Rightarrow> (None, srv1)
        | Some s \<Rightarrow>
            (let s' = attach c (s\<lparr>s_observer_clients := s_observer_clients s - {c}\<rparr>)
             in (Some (sb_tail (s_buffer s') (srv_restore_snapshot_bytes srv1)), put_session sid s' srv1)))"

section \<open>The delivery system\<close>

record delivery =
  dl_srv :: server
  dl_stream :: "string \<Rightarrow> bytes"
  dl_mark :: "string \<Rightarrow> client_id \<Rightarrow> nat \<times> nat"
  dl_closed :: "client_id set"

text \<open>The bytes of a session among the frames a lane accepted.\<close>

definition frame_bytes_of :: "string \<Rightarrow> client_frame \<Rightarrow> bytes" where
  "frame_bytes_of sid f =
    (case frame_payload f of Output sid' d \<Rightarrow> if sid' = sid then d else [] | _ \<Rightarrow> [])"

definition delivered :: "string \<Rightarrow> nat \<Rightarrow> client_handle \<Rightarrow> bytes" where
  "delivered sid n h = concat (map (frame_bytes_of sid) (drop n (ch_terminal_out h)))"

text \<open>A lane whose receiver is gone stays closed.\<close>

definition closed_by :: "channels \<Rightarrow> client_id set" where
  "closed_by chan = {c. snd (chan c) = Closed}"

definition channels_ok :: "client_id set \<Rightarrow> channels \<Rightarrow> bool" where
  "channels_ok closed chan \<longleftrightarrow> closed \<subseteq> closed_by chan"

definition accepted_count :: "server \<Rightarrow> client_id \<Rightarrow> nat" where
  "accepted_count srv c = (case srv_clients srv c of None \<Rightarrow> 0 | Some h \<Rightarrow> length (ch_terminal_out h))"

definition set_mark :: "string \<Rightarrow> client_id \<Rightarrow> server \<Rightarrow> delivery \<Rightarrow> delivery" where
  "set_mark sid c srv d =
    d\<lparr>dl_mark := (dl_mark d)(sid := (dl_mark d sid)(c := (length (dl_stream d sid), accepted_count srv c)))\<rparr>"

inductive delivery_step :: "delivery \<Rightarrow> delivery \<Rightarrow> bool" where
  pty_output:
    "channels_ok (dl_closed d) chan \<Longrightarrow> srv_sessions (dl_srv d) sid \<noteq> None \<Longrightarrow>
      length (dl_stream d sid) + length data \<le> u64_max \<Longrightarrow>
      handle_pty_output chan enq now sid data (dl_srv d) = (go, srv) \<Longrightarrow>
      delivery_step d (d\<lparr>dl_srv := srv, dl_closed := dl_closed d \<union> closed_by chan,
        dl_stream := (dl_stream d)(sid := dl_stream d sid @ data)\<rparr>)"
| batch_tick:
    "channels_ok (dl_closed d) chan \<Longrightarrow> handle_output_batch_tick chan sid g (dl_srv d) = srv \<Longrightarrow>
      delivery_step d (d\<lparr>dl_srv := srv, dl_closed := dl_closed d \<union> closed_by chan\<rparr>)"
| resync_tick:
    "channels_ok (dl_closed d) chan \<Longrightarrow> handle_output_resync_tick chan sid c (dl_srv d) = srv \<Longrightarrow>
      delivery_step d (d\<lparr>dl_srv := srv, dl_closed := dl_closed d \<union> closed_by chan\<rparr>)"
| pause_or_resume:
    "channels_ok (dl_closed d) chan1 \<Longrightarrow> channels_ok (dl_closed d \<union> closed_by chan1) chan2 \<Longrightarrow>
      set_output_paused_request chan1 enq chan2 sid c paused (dl_srv d) = (reply, srv) \<Longrightarrow>
      delivery_step d
        ((case reply of ReplySnapshot _ _ \<Rightarrow> set_mark sid c srv | _ \<Rightarrow> id)
          (d\<lparr>dl_srv := srv, dl_closed := dl_closed d \<union> closed_by chan1 \<union> closed_by chan2\<rparr>))"
| attach_client:
    "channels_ok (dl_closed d) chan \<Longrightarrow> attach_request chan enq sid c (dl_srv d) = (snapshot, srv) \<Longrightarrow>
      delivery_step d (set_mark sid c srv
        (d\<lparr>dl_srv := srv, dl_closed := dl_closed d \<union> closed_by chan\<rparr>))"
| attach_resync:
    "delivery_step d (d\<lparr>dl_srv := on_session sid (attach_for_resync c) (dl_srv d)\<rparr>)"
| detach_client:
    "channels_ok (dl_closed d) chan \<Longrightarrow>
      delivery_step d (d\<lparr>dl_srv := on_session sid (detach c) (flush_all_output chan enq sid (dl_srv d)),
        dl_closed := dl_closed d \<union> closed_by chan\<rparr>)"
| resize_scrollback:
    "delivery_step d (d\<lparr>dl_srv := on_session sid (set_session_max_bytes n) (dl_srv d)\<rparr>)"
| history_tick:
    "delivery_step d (d\<lparr>dl_srv := flush_durable enq sid (dl_srv d)\<rparr>)"
| history_progress:
    "delivery_step d (d\<lparr>dl_srv := (dl_srv d)\<lparr>srv_writers := ws\<rparr>\<rparr>)"
| start_session:
    "srv_sessions (dl_srv d) sid = None \<Longrightarrow> suffix scrollback past \<Longrightarrow>
      length past = resumed_output_stream_bytes previous (length scrollback) \<Longrightarrow> length past \<le> u64_max \<Longrightarrow>
      delivery_step d (d\<lparr>dl_srv :=
          put_session sid (session_start sid dims max_bytes scrollback previous next now) (dl_srv d),
        dl_stream := (dl_stream d)(sid := past)\<rparr>)"
| connect_client:
    "srv_clients (dl_srv d) c = None \<Longrightarrow> c \<notin> dl_closed d \<Longrightarrow>
      (\<forall>s \<in> ran (srv_sessions (dl_srv d)). c \<notin> set (s_clients s) \<and> s_delivered_output_cursors s c = None) \<Longrightarrow>
      ch_terminal_out h = [] \<Longrightarrow>
      delivery_step d (d\<lparr>dl_srv := (dl_srv d)\<lparr>srv_clients := (srv_clients (dl_srv d))(c \<mapsto> h)\<rparr>\<rparr>)"
| drop_client:
    "delivery_step d (d\<lparr>dl_srv := (dl_srv d)\<lparr>srv_clients := (srv_clients (dl_srv d))(c := None)\<rparr>\<rparr>)"

definition delivery_init :: "nat \<Rightarrow> delivery" where
  "delivery_init restore_bytes = \<lparr>dl_srv = \<lparr>srv_sessions = Map.empty, srv_clients = Map.empty,
       srv_writers = Map.empty, srv_paused_pty = {}, srv_inbox_closed = False, srv_restore_snapshot_bytes = restore_bytes,
       srv_effects = []\<rparr>,
     dl_stream = (\<lambda>_. []), dl_mark = (\<lambda>_ _. (0, 0)), dl_closed = {}\<rparr>"

section \<open>What durable bookkeeping leaves alone\<close>

text \<open>The fields of a session and of the server that delivery depends on.\<close>

definition view :: "session \<Rightarrow> scrollback \<times> nat \<times> bytes \<times> client_id list \<times> client_id set
    \<times> (client_id \<rightharpoonup> nat)" where
  "view s = (s_buffer s, s_output_stream_bytes s, s_output_batch s, s_clients s,
     s_output_paused_clients s, s_delivered_output_cursors s)"

definition srv_view :: "server \<Rightarrow> (string \<Rightarrow> (scrollback \<times> nat \<times> bytes \<times> client_id list \<times> client_id set
    \<times> (client_id \<rightharpoonup> nat)) option) \<times> (client_id \<rightharpoonup> client_handle)" where
  "srv_view srv = (\<lambda>sid. map_option view (srv_sessions srv sid), srv_clients srv)"

named_theorems view_simps \<open>operations that keep the delivery view\<close>

lemma srv_view_put [view_simps]:
  "srv_sessions srv sid = Some s \<Longrightarrow> view s' = view s \<Longrightarrow> srv_view (put_session sid s' srv) = srv_view srv"
  by (auto simp: srv_view_def put_session_def fun_eq_iff)

lemma srv_view_fields [simp, view_simps]:
  "srv_view (emit e srv) = srv_view srv"
  "srv_view (pause_pty_session sid srv) = srv_view srv"
  "srv_view (resume_pty_session sid srv) = srv_view srv"
  "srv_view (srv\<lparr>srv_writers := ws\<rparr>) = srv_view srv"
  by (simp_all add: srv_view_def emit_def pause_pty_session_def resume_pty_session_def)

lemma sessions_fields [simp]:
  "srv_sessions (emit e srv) = srv_sessions srv"
  "srv_sessions (pause_pty_session sid srv) = srv_sessions srv"
  "srv_sessions (resume_pty_session sid srv) = srv_sessions srv"
  "srv_clients (emit e srv) = srv_clients srv"
  "srv_sessions (put_session sid s srv) = (srv_sessions srv)(sid \<mapsto> s)"
  "srv_clients (put_session sid s srv) = srv_clients srv"
  by (simp_all add: emit_def pause_pty_session_def resume_pty_session_def put_session_def)

lemma view_durable [simp, view_simps]:
  "view (snd (arm_durable_retry_timer g s)) = view s"
  "view (snd (restore_durable_output_batch b s)) = view s"
  "view (snd (take_pty_ack_if_unblocked n s)) = view s"
  "view (disarm_durable_output_batch_if_empty s) = view s"
  "view (snd (flush_durable_output_batch s)) = view s"
  "view (snd (arm_checkpoint s)) = view s"
  "view (snd (arm_checkpoint_retry_timer g s)) = view s"
  by (simp_all add: view_def arm_durable_retry_timer_def restore_durable_output_batch_def Let_def
      take_pty_ack_if_unblocked_def disarm_durable_output_batch_if_empty_def
      flush_durable_output_batch_def arm_checkpoint_def arm_checkpoint_retry_timer_def split: list.splits)

lemma view_durable_eq:
  "arm_durable_retry_timer g s = (r1, s') \<Longrightarrow> view s' = view s"
  "restore_durable_output_batch b s = (r2, s') \<Longrightarrow> view s' = view s"
  "take_pty_ack_if_unblocked n s = (r3, s') \<Longrightarrow> view s' = view s"
  "flush_durable_output_batch s = (r4, s') \<Longrightarrow> view s' = view s"
  "arm_checkpoint s = (r5, s') \<Longrightarrow> view s' = view s"
  "arm_checkpoint_retry_timer g s = (r6, s') \<Longrightarrow> view s' = view s"
  using view_durable by (metis snd_conv)+

lemma srv_view_timers [simp, view_simps]:
  "srv_view (spawn_durable_output_batch_timer sid g srv) = srv_view srv"
  "srv_view (spawn_checkpoint_timer sid g srv) = srv_view srv"
  "srv_view (schedule_history_retry sid srv) = srv_view srv"
  by (auto simp: spawn_durable_output_batch_timer_def spawn_checkpoint_timer_def schedule_history_retry_def
      split: option.splits prod.splits bool.splits intro!: srv_view_put dest: view_durable_eq)

lemma srv_view_restore [simp, view_simps]:
  "srv_view (restore_failed_history_batch sid b srv) = srv_view srv"
proof -
  have "srv_view (put_session sid s' (pause_pty_session sid srv)) = srv_view srv"
    if "srv_sessions srv sid = Some s" "restore_durable_output_batch b s = (g, s')" for s g s'
    using srv_view_put [of "pause_pty_session sid srv" sid s s'] view_durable_eq(2) [OF that(2)] that(1)
    by simp
  then show ?thesis
    by (auto simp: restore_failed_history_batch_def Let_def split: option.splits prod.splits)
qed

lemma srv_view_restore_fold [simp]:
  "srv_view (fold (restore_failed_history_batch sid) bs srv) = srv_view srv"
  by (induction bs arbitrary: srv) simp_all

lemma srv_view_collect [simp, view_simps]:
  "srv_view (collect_history_writer_completions sid srv) = srv_view srv"
  "srv_view (retire_history_writer sid srv) = srv_view srv"
  by (auto simp: collect_history_writer_completions_def retire_history_writer_def
      split: option.splits prod.splits)

lemma srv_view_release [simp, view_simps]:
  "srv_view (release_pty_ack_if_unblocked sid srv) = srv_view srv"
proof -
  have "srv_view (put_session sid s' (resume_pty_session sid srv)) = srv_view srv"
    if "srv_sessions srv sid = Some s" "take_pty_ack_if_unblocked n s = (a, s')" for s n a s'
    using srv_view_put [of "resume_pty_session sid srv" sid s s'] view_durable_eq(3) [OF that(2)] that(1)
    by simp
  then show ?thesis
    by (auto simp: release_pty_ack_if_unblocked_def Let_def split: option.splits prod.splits)
qed

lemma srv_view_enqueue [simp, view_simps]:
  "srv_view (enqueue_durable_batch enq sid b srv) = srv_view srv"
proof -
  have "srv_view (put_session sid (disarm_durable_output_batch_if_empty s) (srv\<lparr>srv_writers := ws\<rparr>)) = srv_view srv"
    if "srv_sessions srv sid = Some s" for s ws
    using srv_view_put [of "srv\<lparr>srv_writers := ws\<rparr>" sid s "disarm_durable_output_batch_if_empty s"] that
    by simp
  then show ?thesis
    by (auto simp: enqueue_durable_batch_def Let_def split: option.splits prod.splits)
qed

lemma srv_view_session: "srv_view srv = srv_view srv' \<Longrightarrow>
    srv_sessions srv sid = Some s \<Longrightarrow> \<exists>s'. srv_sessions srv' sid = Some s' \<and> view s' = view s"
proof -
  assume eq: "srv_view srv = srv_view srv'" and s: "srv_sessions srv sid = Some s"
  have "map_option view (srv_sessions srv' sid) = fst (srv_view srv') sid" by (simp add: srv_view_def)
  also have "\<dots> = Some (view s)" using eq [symmetric] s by (simp add: srv_view_def)
  finally show ?thesis by auto
qed

lemma srv_view_flush_durable [simp, view_simps]: "srv_view (flush_durable enq sid srv) = srv_view srv"
proof (cases "srv_sessions srv sid")
  case None
  then show ?thesis by (simp add: flush_durable_def)
next
  case (Some s0)
  define srv1 where "srv1 = collect_history_writer_completions sid srv"
  define srv2 where "srv2 = (case srv_writers srv1 sid of None \<Rightarrow> srv1
    | Some w \<Rightarrow> if hw_failed w then retire_history_writer sid srv1 else srv1)"
  have v: "srv_view srv1 = srv_view srv" "srv_view srv2 = srv_view srv"
    by (auto simp: srv1_def srv2_def split: option.splits)
  have put: "srv_view (put_session sid s' srv2) = srv_view srv"
    if "srv_sessions srv2 sid = Some s" "flush_durable_output_batch s = (r, s')" for s r s'
    using srv_view_put [OF that(1) view_durable_eq(4) [OF that(2)]] v by simp
  show ?thesis
    unfolding flush_durable_def Let_def srv1_def [symmetric] srv2_def [symmetric]
    using Some v put by (auto split: option.splits prod.splits)
qed

section \<open>The delivery invariant\<close>

text \<open>The retained scrollback and the waiting batch are suffixes of the stream.\<close>

definition stream_ok :: "bytes \<Rightarrow> session \<Rightarrow> bool" where
  "stream_ok stream s \<longleftrightarrow> sb_inv (s_buffer s) \<and> suffix (to_bytes (s_buffer s)) stream
    \<and> s_output_stream_bytes s = length stream \<and> length stream \<le> u64_max
    \<and> suffix (s_output_batch s) stream \<and> distinct (s_clients s)"

text \<open>
  What a client with cursor \<open>k\<close> has been sent since its last snapshot at stream position \<open>p\<close> is the
  stream from \<open>p\<close> to \<open>k\<close>.
\<close>

definition cursor_ok :: "string \<Rightarrow> bytes \<Rightarrow> nat \<times> nat \<Rightarrow> client_handle option \<Rightarrow> nat \<Rightarrow> bool" where
  "cursor_ok sid stream mark oh k \<longleftrightarrow> fst mark \<le> k \<and> k \<le> length stream
    \<and> (\<forall>h. oh = Some h \<longrightarrow> snd mark \<le> length (ch_terminal_out h)
        \<and> delivered sid (snd mark) h = drop (fst mark) (take k stream))"

text \<open>
  A connected client that is attached and not paused lacks only the waiting batch; \<open>extra\<close> gives
  the bytes each client is still owed while a batch is being sent.
\<close>

definition caught_up :: "client_id set \<Rightarrow> server \<Rightarrow> bytes \<Rightarrow> (client_id \<Rightarrow> nat) \<Rightarrow> session \<Rightarrow> bool" where
  "caught_up closed srv stream extra s \<longleftrightarrow>
    (\<forall>c \<in> set (s_clients s). c \<notin> s_output_paused_clients s \<longrightarrow> srv_clients srv c \<noteq> None \<longrightarrow> c \<notin> closed \<longrightarrow>
      (\<exists>k. s_delivered_output_cursors s c = Some k \<and> k + length (s_output_batch s) + extra c = length stream))"

definition session_inv :: "string \<Rightarrow> bytes \<Rightarrow> (client_id \<Rightarrow> nat \<times> nat) \<Rightarrow> client_id set
    \<Rightarrow> (client_id \<Rightarrow> nat) \<Rightarrow> server \<Rightarrow> session \<Rightarrow> bool" where
  "session_inv sid stream mark closed extra srv s \<longleftrightarrow> stream_ok stream s
    \<and> (\<forall>c k. s_delivered_output_cursors s c = Some k \<longrightarrow> cursor_ok sid stream (mark c) (srv_clients srv c) k)
    \<and> caught_up closed srv stream extra s"

definition server_inv :: "(string \<Rightarrow> bytes) \<Rightarrow> (string \<Rightarrow> client_id \<Rightarrow> nat \<times> nat) \<Rightarrow> client_id set
    \<Rightarrow> (string \<Rightarrow> client_id \<Rightarrow> nat) \<Rightarrow> server \<Rightarrow> bool" where
  "server_inv stream mark closed extra srv \<longleftrightarrow>
    (\<forall>sid s. srv_sessions srv sid = Some s \<longrightarrow>
      session_inv sid (stream sid) (mark sid) closed (extra sid) srv s)"

lemmas inv_defs = session_inv_def stream_ok_def caught_up_def

lemma server_invD:
  "server_inv st mk cl ex srv \<Longrightarrow> srv_sessions srv sid = Some s \<Longrightarrow>
    session_inv sid (st sid) (mk sid) cl (ex sid) srv s"
  by (simp add: server_inv_def)

lemma session_inv_view:
  assumes "view s = view s'" "srv_clients srv = srv_clients srv'" "session_inv sid st mk cl ex srv s"
  shows "session_inv sid st mk cl ex srv' s'"
  using assms by (simp add: inv_defs view_def)

lemma server_inv_view:
  assumes "srv_view srv = srv_view srv'" "server_inv st mk cl ex srv"
  shows "server_inv st mk cl ex srv'"
  unfolding server_inv_def
proof (intro allI impI)
  fix sid s'
  assume "srv_sessions srv' sid = Some s'"
  with srv_view_session [OF assms(1) [symmetric]] obtain s where
    s: "srv_sessions srv sid = Some s" "view s = view s'" by blast
  have "srv_clients srv = srv_clients srv'" using assms(1) by (simp add: srv_view_def)
  from session_inv_view [OF s(2) this server_invD [OF assms(2) s(1)]]
  show "session_inv sid (st sid) (mk sid) cl (ex sid) srv' s'" .
qed

lemma session_inv_closed_mono:
  "session_inv sid st mk cl ex srv s \<Longrightarrow> cl \<subseteq> cl' \<Longrightarrow> session_inv sid st mk cl' ex srv s"
  unfolding session_inv_def caught_up_def by blast

lemma server_inv_closed_mono:
  "server_inv st mk cl ex srv \<Longrightarrow> cl \<subseteq> cl' \<Longrightarrow> server_inv st mk cl' ex srv"
  unfolding server_inv_def using session_inv_closed_mono by blast

text \<open>Replacing one session, the clients unchanged.\<close>

lemma server_inv_put:
  assumes "server_inv st mk cl ex srv" "session_inv sid (st' sid) (mk' sid) cl (ex' sid) srv s"
    and "\<And>sid'. sid' \<noteq> sid \<Longrightarrow> st' sid' = st sid' \<and> mk' sid' = mk sid' \<and> ex' sid' = ex sid'"
  shows "server_inv st' mk' cl ex' (put_session sid s srv)"
  unfolding server_inv_def
proof (intro allI impI)
  fix sid' s'
  assume s': "srv_sessions (put_session sid s srv) sid' = Some s'"
  have "session_inv sid' (st' sid') (mk' sid') cl (ex' sid') srv s'"
  proof (cases "sid' = sid")
    case True
    with s' assms(2) show ?thesis by simp
  next
    case False
    with s' assms(3) [OF False] server_invD [OF assms(1), of sid' s'] show ?thesis by simp
  qed
  then show "session_inv sid' (st' sid') (mk' sid') cl (ex' sid') (put_session sid s srv) s'"
    by (rule session_inv_view [rotated 2]) simp_all
qed

text \<open>A refused send changes the sequence counter of the lane only.\<close>

lemma session_inv_clients:
  assumes "session_inv sid st mk cl ex srv s"
    and "\<And>c. map_option ch_terminal_out (srv_clients srv' c) = map_option ch_terminal_out (srv_clients srv c)"
  shows "session_inv sid st mk cl ex srv' s"
proof -
  have "cursor_ok sid st m (srv_clients srv' c) k = cursor_ok sid st m (srv_clients srv c) k" for m c k
    using assms(2) [of c]
    by (cases "srv_clients srv' c"; cases "srv_clients srv c") (simp_all add: cursor_ok_def delivered_def)
  moreover have "srv_clients srv' c \<noteq> None \<longleftrightarrow> srv_clients srv c \<noteq> None" for c
    using assms(2) [of c] by (metis option.map_disc_iff)
  ultimately show ?thesis using assms(1) by (simp add: session_inv_def caught_up_def)
qed

lemma server_inv_clients:
  assumes "server_inv st mk cl ex srv" "srv_sessions srv' = srv_sessions srv"
    and "\<And>c. map_option ch_terminal_out (srv_clients srv' c) = map_option ch_terminal_out (srv_clients srv c)"
  shows "server_inv st mk cl ex srv'"
  using assms(1,2) session_inv_clients [OF _ assms(3)] by (simp add: server_inv_def)

section \<open>Sending one frame\<close>

lemma try_send_cases:
  assumes "try_send_terminal granted answer f h = (r, h')"
  obtains n where "r = Accepted" "answer = Accepted"
      "ch_terminal_out h' = ch_terminal_out h @ [SequencedTerminal n (if ch_has_budget h then Budgeted f else f)]"
    | "r = Full" "ch_terminal_out h' = ch_terminal_out h"
    | "r = Closed" "answer = Closed" "ch_terminal_out h' = ch_terminal_out h"
  using assms by (cases answer) (auto simp: try_send_terminal_def Let_def split: if_splits)

lemma delivered_snoc:
  assumes "ch_terminal_out h' = ch_terminal_out h @ [SequencedTerminal n (if b then Budgeted f else f)]"
    and "m \<le> length (ch_terminal_out h)"
  shows "delivered sid m h' = delivered sid m h @ frame_bytes_of sid f"
  using assms by (simp add: delivered_def frame_bytes_of_def)

text \<open>
  A frame accepted by client \<open>c\<close> keeps the invariant of a session whose cursor for \<open>c\<close> moved on by
  the bytes of the session in that frame.
\<close>

lemma session_inv_accepted:
  assumes inv: "session_inv sid st mk cl ex srv s" and h: "srv_clients srv c = Some h"
    and out: "ch_terminal_out h' = ch_terminal_out h @ [SequencedTerminal n (if b then Budgeted f else f)]"
    and srv': "srv_clients srv' = (srv_clients srv)(c \<mapsto> h')"
    and none: "frame_bytes_of sid f = []"
  shows "session_inv sid st mk cl ex srv' s"
proof -
  have "cursor_ok sid st (mk c') (srv_clients srv' c') k"
    if "cursor_ok sid st (mk c') (srv_clients srv c') k" for c' k
  proof (cases "c' = c")
    case True
    with that h out srv' none delivered_snoc [OF out, of "snd (mk c)" sid] show ?thesis
      by (simp add: cursor_ok_def)
  next
    case False
    with that srv' show ?thesis by simp
  qed
  moreover have "srv_clients srv' c' \<noteq> None \<longleftrightarrow> srv_clients srv c' \<noteq> None" for c'
    using h srv' by simp
  ultimately show ?thesis using inv by (simp add: session_inv_def caught_up_def)
qed

lemma session_inv_advance:
  assumes inv: "session_inv sid st mk cl ex srv s" and h: "srv_clients srv c = Some h"
    and out: "ch_terminal_out h' = ch_terminal_out h @ [SequencedTerminal n (if b then Budgeted f else f)]"
    and srv': "srv_clients srv' = (srv_clients srv)(c \<mapsto> h')"
    and f: "f = Output sid data" and k: "s_delivered_output_cursors s c = Some k" "data = drop k st"
    and batch: "s_output_batch s = []"
  shows "session_inv sid st mk cl (ex(c := 0)) srv' (advance_delivered_output_cursor c (length data) s)"
proof -
  let ?s = "advance_delivered_output_cursor c (length data) s"
  have ck: "cursor_ok sid st (mk c) (Some h) k" using inv h k(1) by (metis session_inv_def)
  then have kle: "k \<le> length st" "fst (mk c) \<le> k" "snd (mk c) \<le> length (ch_terminal_out h)"
    and del: "delivered sid (snd (mk c)) h = drop (fst (mk c)) (take k st)"
    by (simp_all add: cursor_ok_def)
  have "length st \<le> u64_max" using inv by (simp add: inv_defs)
  then have s': "?s = s\<lparr>s_delivered_output_cursors := (s_delivered_output_cursors s)(c \<mapsto> length st)\<rparr>"
    using k kle by (simp add: advance_delivered_output_cursor_def)
  have "delivered sid (snd (mk c)) h' = drop (fst (mk c)) (take k st) @ drop k st"
    using delivered_snoc [OF out kle(3), of sid] del k(2) by (simp add: f frame_bytes_of_def)
  also have "\<dots> = drop (fst (mk c)) (take k st @ drop k st)" using kle by (simp only: drop_append) simp
  finally have "cursor_ok sid st (mk c) (Some h') (length st)"
    using kle out by (simp add: cursor_ok_def)
  moreover have "caught_up cl srv' st (ex(c := 0)) ?s"
    using inv batch h srv' unfolding s' by (auto simp: inv_defs)
  ultimately show ?thesis
    using inv srv' unfolding s' by (auto simp: session_inv_def stream_ok_def)
qed

lemma frame_bytes_of_other [simp]: "sid' \<noteq> sid \<Longrightarrow> frame_bytes_of sid' (Output sid data) = []"
  by (simp add: frame_bytes_of_def)

text \<open>What sending output to one client guarantees, whatever the lane answers.\<close>

definition sent_to :: "string \<Rightarrow> client_id \<Rightarrow> bytes \<Rightarrow> session \<Rightarrow> bool \<Rightarrow> session \<Rightarrow> bool" where
  "sent_to sid c stream s r s' \<longleftrightarrow> s_output_batch s' = s_output_batch s \<and> s_clients s' = s_clients s
    \<and> s_output_paused_clients s' \<subseteq> insert c (s_output_paused_clients s)
    \<and> (\<forall>c'. c' \<noteq> c \<longrightarrow> s_delivered_output_cursors s' c' = s_delivered_output_cursors s c')
    \<and> (r \<longrightarrow> s_delivered_output_cursors s' c = Some (length stream))"

text \<open>A client that is disconnected, closed or paused is owed nothing.\<close>

lemma session_inv_skip:
  assumes "session_inv sid st mk cl ex srv s"
    and "srv_clients srv c = None \<or> c \<in> cl \<or> c \<in> s_output_paused_clients s"
  shows "session_inv sid st mk cl (ex(c := 0)) srv s"
  using assms unfolding session_inv_def caught_up_def by auto

lemma session_inv_pause:
  assumes "session_inv sid st mk cl ex srv s"
  shows "session_inv sid st mk cl ex srv (s\<lparr>s_output_paused_clients := insert c (s_output_paused_clients s),
    s_output_resync_pending_clients := P\<rparr>)"
  using assms by (auto simp: inv_defs)

abbreviation paid :: "string \<Rightarrow> client_id \<Rightarrow> (string \<Rightarrow> client_id \<Rightarrow> nat) \<Rightarrow> string \<Rightarrow> client_id \<Rightarrow> nat" where
  "paid sid c ex \<equiv> ex(sid := (ex sid)(c := 0))"

lemma server_inv_paid:
  assumes "server_inv st mk cl ex srv" "srv_sessions srv sid = Some s"
    and "srv_clients srv c = None \<or> c \<in> cl \<or> c \<in> s_output_paused_clients s"
  shows "server_inv st mk cl (paid sid c ex) srv"
  using assms session_inv_skip [OF server_invD [OF assms(1,2)] assms(3)] by (auto simp: server_inv_def)

lemma server_inv_accepted:
  assumes inv: "server_inv st mk cl ex srv" and s: "srv_sessions srv sid = Some s"
    and h: "srv_clients srv c = Some h" and batch: "s_output_batch s = []"
    and out: "ch_terminal_out h' = ch_terminal_out h
      @ [SequencedTerminal n (if b then Budgeted (Output sid data) else Output sid data)]"
    and k: "s_delivered_output_cursors s c = Some k" "data = drop k (st sid)"
  shows "server_inv st mk cl (paid sid c ex)
    (put_session sid (advance_delivered_output_cursor c (length data) s)
      (srv\<lparr>srv_clients := (srv_clients srv)(c \<mapsto> h')\<rparr>))"
proof -
  let ?s = "advance_delivered_output_cursor c (length data) s"
  let ?srv = "srv\<lparr>srv_clients := (srv_clients srv)(c \<mapsto> h')\<rparr>"
  have upd: "session_inv sid (st sid) (mk sid) cl (paid sid c ex sid) ?srv ?s"
    using session_inv_advance [OF server_invD [OF inv s] h out _ refl k batch, of ?srv] by simp
  have oth: "session_inv sid' (st sid') (mk sid') cl (ex sid') ?srv s'"
    if "sid' \<noteq> sid" "srv_sessions srv sid' = Some s'" for sid' s'
    using session_inv_accepted [OF server_invD [OF inv that(2)] h out, of ?srv] that(1) by simp
  show ?thesis
    unfolding server_inv_def
  proof (intro allI impI)
    fix sid' s' assume "srv_sessions (put_session sid ?s ?srv) sid' = Some s'"
    then have "session_inv sid' (st sid') (mk sid') cl (paid sid c ex sid') ?srv s'"
      using upd oth by (cases "sid' = sid") auto
    then show "session_inv sid' (st sid') (mk sid') cl (paid sid c ex sid') (put_session sid ?s ?srv) s'"
      by (rule session_inv_view [rotated 2]) simp_all
  qed
qed

lemma server_inv_refused:
  assumes "server_inv st mk cl ex srv" "srv_clients srv c = Some h" "ch_terminal_out h' = ch_terminal_out h"
  shows "server_inv st mk cl ex (srv\<lparr>srv_clients := (srv_clients srv)(c \<mapsto> h')\<rparr>)"
  by (rule server_inv_clients [OF assms(1)]) (simp_all add: assms(2,3))

lemma server_inv_backpressured:
  assumes inv: "server_inv st mk cl ex srv" and s: "srv_sessions srv sid = Some s"
    and mark: "mark_output_backpressured c s = (newly, s')"
  shows "server_inv st mk cl (paid sid c ex) (put_session sid s' srv)"
proof -
  have s': "s' = s\<lparr>s_output_paused_clients := insert c (s_output_paused_clients s),
      s_output_resync_pending_clients := insert c (s_output_resync_pending_clients s)\<rparr>"
    using mark by (simp add: mark_output_backpressured_def)
  from server_invD [OF inv s] have "session_inv sid (st sid) (mk sid) cl (ex sid) srv s'"
    unfolding s' by (rule session_inv_pause)
  then have "server_inv st mk cl ex (put_session sid s' srv)" by (rule server_inv_put [OF inv]) simp_all
  then show ?thesis by (rule server_inv_paid [where s = s']) (simp_all add: s')
qed

lemma send_terminal_output_inv:
  assumes inv: "server_inv st mk cl ex srv" and s: "srv_sessions srv sid = Some s"
    and chan: "channels_ok cl chan"
    and owed: "srv_clients srv c \<noteq> None \<Longrightarrow> c \<notin> cl \<Longrightarrow>
      \<exists>k. s_delivered_output_cursors s c = Some k \<and> data = drop k (st sid)"
    and batch: "s_output_batch s = []"
    and send: "send_terminal_output chan sid c (Output sid data) srv = (r, srv')"
  shows "server_inv st mk (cl \<union> closed_by chan) (paid sid c ex) srv'
    \<and> (\<exists>s'. srv_sessions srv' sid = Some s' \<and> sent_to sid c (st sid) s r s')"
proof (cases "srv_clients srv c")
  let ?cl = "cl \<union> closed_by chan"
  have inv': "server_inv st mk ?cl ex srv" by (rule server_inv_closed_mono [OF inv]) simp
  {
    case None
    then have "r = False" "srv' = emit (DisconnectClient c) srv"
      using send by (auto simp: send_terminal_output_def)
    moreover have "server_inv st mk ?cl (paid sid c ex) srv"
      by (rule server_inv_paid [OF inv' s]) (simp add: None)
    ultimately show ?thesis
      using s server_inv_view [of srv "emit (DisconnectClient c) srv"]
      by (simp add: sent_to_def subset_insertI)
  next
    case (Some h)
    obtain r' h' where tr: "try_send_terminal (fst (chan c)) (snd (chan c)) (Output sid data) h = (r', h')"
      by fastforce
    let ?srv = "srv\<lparr>srv_clients := (srv_clients srv)(c \<mapsto> h')\<rparr>"
    have s1: "srv_sessions ?srv sid = Some s" using s by simp
    from tr show ?thesis
    proof (cases rule: try_send_cases)
      case (1 n)
      have "c \<notin> cl" using chan 1(2) by (auto simp: channels_ok_def closed_by_def)
      with owed Some obtain k where k: "s_delivered_output_cursors s c = Some k" "data = drop k (st sid)" by auto
      have eq: "r = True" "srv' = put_session sid (advance_delivered_output_cursor c (length data) s) ?srv"
        using send Some tr 1(1) s by (auto simp: send_terminal_output_def on_session_def frame_data_len_def)
      have "k \<le> length (st sid)" "length (st sid) \<le> u64_max"
        using server_invD [OF inv s] k(1) by (auto simp: session_inv_def cursor_ok_def stream_ok_def)
      with eq k server_inv_accepted [OF inv' s Some batch 1(3) k] show ?thesis
        by (auto simp: sent_to_def advance_delivered_output_cursor_def)
    next
      case 2
      obtain newly s' where mark: "mark_output_backpressured c s = (newly, s')" by fastforce
      have eq: "r = False" "srv_view srv' = srv_view (put_session sid s' ?srv)" "srv_sessions srv' sid = Some s'"
        using send Some tr 2(1) s mark by (auto simp: send_terminal_output_def srv_view_def)
      have "server_inv st mk ?cl (paid sid c ex) (put_session sid s' ?srv)"
        by (rule server_inv_backpressured [OF server_inv_refused [OF inv' Some 2(2)] s1 mark])
      with server_inv_view [OF eq(2) [symmetric]] eq(1,3) mark show ?thesis
        by (auto simp: sent_to_def mark_output_backpressured_def)
    next
      case 3
      have eq: "r = False" "srv' = emit (DisconnectClient c) ?srv"
        using send Some tr 3(1) by (auto simp: send_terminal_output_def)
      have "c \<in> ?cl" using 3(2) by (simp add: closed_by_def)
      then have "server_inv st mk ?cl (paid sid c ex) ?srv"
        by (intro server_inv_paid [OF server_inv_refused [OF inv' Some 3(3)] s1]) simp
      with eq s1 server_inv_view [of ?srv "emit (DisconnectClient c) ?srv"] show ?thesis
        by (simp add: sent_to_def subset_insertI)
    qed
  }
qed

section \<open>Flushing a batch\<close>

lemma fold_send_inv:
  assumes "server_inv st mk cl ex srv" "srv_sessions srv sid = Some s" "channels_ok cl chan"
    and "closed_by chan \<subseteq> cl" "s_output_batch s = []" "distinct cs"
    and "\<And>c. c \<in> set cs \<Longrightarrow> srv_clients srv c \<noteq> None \<Longrightarrow> c \<notin> cl \<Longrightarrow>
      \<exists>k. s_delivered_output_cursors s c = Some k \<and> data = drop k (st sid)"
  shows "server_inv st mk cl (ex(sid := (\<lambda>c. if c \<in> set cs then 0 else ex sid c)))
      (fold (\<lambda>c srv. snd (send_terminal_output chan sid c (Output sid data) srv)) cs srv)
    \<and> (\<exists>s'. srv_sessions (fold (\<lambda>c srv. snd (send_terminal_output chan sid c (Output sid data) srv)) cs srv) sid
          = Some s' \<and> s_output_batch s' = [])"
  using assms
proof (induction cs arbitrary: srv s ex)
  case Nil
  then show ?case by simp
next
  case (Cons c cs)
  obtain r srv' where send: "send_terminal_output chan sid c (Output sid data) srv = (r, srv')" by fastforce
  have cl: "cl \<union> closed_by chan = cl" using Cons.prems(4) by blast
  from send_terminal_output_inv [OF Cons.prems(1-3) _ Cons.prems(5) send] Cons.prems(7) [of c]
  obtain s' where inv: "server_inv st mk cl (paid sid c ex) srv'" and s': "srv_sessions srv' sid = Some s'"
    and st: "sent_to sid c (st sid) s r s'" unfolding cl by auto
  have same: "srv_clients srv' c' = srv_clients srv c'" if "c' \<noteq> c" for c'
    using send that
    by (auto simp: send_terminal_output_def on_session_def put_session_def emit_def Let_def
        split: option.splits prod.splits send_answer.splits if_splits)
  have "server_inv st mk cl ((paid sid c ex)(sid := (\<lambda>c'. if c' \<in> set cs then 0 else paid sid c ex sid c')))
      (fold (\<lambda>c srv. snd (send_terminal_output chan sid c (Output sid data) srv)) cs srv')
    \<and> (\<exists>s'. srv_sessions (fold (\<lambda>c srv. snd (send_terminal_output chan sid c (Output sid data) srv)) cs srv') sid
          = Some s' \<and> s_output_batch s' = [])"
  proof (rule Cons.IH [OF inv s' Cons.prems(3,4)])
    show "s_output_batch s' = []" using st Cons.prems(5) by (simp add: sent_to_def)
    show "distinct cs" using Cons.prems(6) by simp
    fix c' assume c': "c' \<in> set cs" "srv_clients srv' c' \<noteq> None" "c' \<notin> cl"
    then have "c' \<noteq> c" using Cons.prems(6) by auto
    with c' Cons.prems(7) [of c'] same st
    show "\<exists>k. s_delivered_output_cursors s' c' = Some k \<and> data = drop k (st sid)"
      by (simp add: sent_to_def)
  qed
  moreover have "(paid sid c ex)(sid := (\<lambda>c'. if c' \<in> set cs then 0 else paid sid c ex sid c'))
      = ex(sid := (\<lambda>c'. if c' \<in> set (c # cs) then 0 else ex sid c'))"
    by (auto simp: fun_eq_iff)
  ultimately show ?case by (simp add: send fun_upd_def)
qed

abbreviation settled :: "(string \<Rightarrow> bytes) \<Rightarrow> (string \<Rightarrow> client_id \<Rightarrow> nat \<times> nat) \<Rightarrow> client_id set \<Rightarrow> server \<Rightarrow> bool" where
  "settled st mk cl srv \<equiv> server_inv st mk cl (\<lambda>_ _. 0) srv"

definition batch_empty :: "string \<Rightarrow> server \<Rightarrow> bool" where
  "batch_empty sid srv \<longleftrightarrow> (\<forall>s. srv_sessions srv sid = Some s \<longrightarrow> s_output_batch s = [])"

lemma batch_empty_view: "srv_view srv = srv_view srv' \<Longrightarrow> batch_empty sid srv \<Longrightarrow> batch_empty sid srv'"
  unfolding batch_empty_def using srv_view_session [of srv' srv sid] by (fastforce simp: view_def)

lemma flush_output_inv:
  assumes inv: "settled st mk cl srv" and chan: "channels_ok cl chan"
  shows "settled st mk (cl \<union> closed_by chan) (flush_output chan sid srv) \<and> batch_empty sid (flush_output chan sid srv)"
proof (cases "srv_sessions srv sid")
  let ?cl = "cl \<union> closed_by chan"
  have inv': "settled st mk ?cl srv" by (rule server_inv_closed_mono [OF inv]) simp
  {
    case None
    with inv' show ?thesis by (simp add: flush_output_def batch_empty_def)
  next
    case (Some s)
    show ?thesis
    proof (cases "s_output_batch s = []")
      case True
      let ?s = "s\<lparr>s_output_batch_armed := False\<rparr>"
      have eq: "flush_output chan sid srv = put_session sid ?s srv"
        using Some True by (simp add: flush_output_def flush_output_batch_def)
      have "srv_view (put_session sid ?s srv) = srv_view srv"
        by (rule srv_view_put [OF Some]) (simp add: view_def)
      from server_inv_view [OF this [symmetric] inv'] True show ?thesis
        unfolding eq by (simp add: batch_empty_def)
    next
      case False
      let ?d = "s_output_batch s"
      let ?s = "s\<lparr>s_output_batch_gen := s_output_batch_gen s + 1, s_output_batch_armed := False, s_output_batch := []\<rparr>"
      let ?cs = "output_clients ?s"
      let ?ex = "(\<lambda>_ _. 0)(sid := (\<lambda>c. if c \<in> set ?cs then length ?d else 0))"
      have eq: "flush_output chan sid srv
          = fold (\<lambda>c srv. snd (send_terminal_output chan sid c (Output sid ?d) srv)) ?cs (put_session sid ?s srv)"
        using Some False by (simp add: flush_output_def flush_output_batch_def)
      note si = server_invD [OF inv' Some]
      have "session_inv sid (st sid) (mk sid) ?cl (?ex sid) srv ?s"
        using si by (auto simp: inv_defs output_clients_def)
      then have i1: "server_inv st mk ?cl ?ex (put_session sid ?s srv)"
        by (rule server_inv_put [OF inv']) simp_all
      have ok: "channels_ok ?cl chan" using chan by (auto simp: channels_ok_def)
      have owed: "\<exists>k. s_delivered_output_cursors ?s c = Some k \<and> ?d = drop k (st sid)"
        if "c \<in> set ?cs" "srv_clients (put_session sid ?s srv) c \<noteq> None" "c \<notin> ?cl" for c
      proof -
        from that si obtain k where k: "s_delivered_output_cursors s c = Some k"
          "k + length ?d = length (st sid)"
          unfolding session_inv_def caught_up_def by (auto simp: output_clients_def)
        from si have "suffix ?d (st sid)" by (simp add: inv_defs)
        moreover have "length (st sid) - length ?d = k" using k(2) by simp
        ultimately have "?d = drop k (st sid)" using suffix_eq_drop by metis
        with k(1) show ?thesis by simp
      qed
      have "distinct ?cs" using si by (simp add: inv_defs output_clients_def)
      have s1: "srv_sessions (put_session sid ?s srv) sid = Some ?s" by simp
      from fold_send_inv [OF i1 s1 ok _ _ \<open>distinct ?cs\<close> owed]
      have "server_inv st mk ?cl (?ex(sid := (\<lambda>c. if c \<in> set ?cs then 0 else ?ex sid c))) (flush_output chan sid srv)"
        "\<exists>s'. srv_sessions (flush_output chan sid srv) sid = Some s' \<and> s_output_batch s' = []"
        unfolding eq by auto
      moreover have "?ex(sid := (\<lambda>c. if c \<in> set ?cs then 0 else ?ex sid c)) = (\<lambda>_ _. 0)"
        by (auto simp: fun_eq_iff)
      ultimately show ?thesis by (auto simp: batch_empty_def)
    qed
  }
qed

lemma flush_all_output_inv:
  assumes "settled st mk cl srv" "channels_ok cl chan"
  shows "settled st mk (cl \<union> closed_by chan) (flush_all_output chan enq sid srv)
    \<and> batch_empty sid (flush_all_output chan enq sid srv)"
proof -
  have "srv_view (flush_output chan sid srv) = srv_view (flush_all_output chan enq sid srv)"
    by (simp add: flush_all_output_def)
  with flush_output_inv [OF assms, of sid] server_inv_view batch_empty_view show ?thesis by blast
qed

section \<open>Preservation by the operations\<close>

lemma server_inv_on_session:
  assumes "server_inv st mk cl ex srv"
    and "\<And>s. srv_sessions srv sid = Some s \<Longrightarrow> session_inv sid (st sid) (mk sid) cl (ex sid) srv s \<Longrightarrow>
      session_inv sid (st sid) (mk sid) cl (ex sid) srv (f s)"
  shows "server_inv st mk cl ex (on_session sid f srv)"
proof (cases "srv_sessions srv sid")
  case None
  with assms(1) show ?thesis by (simp add: on_session_def)
next
  case (Some s)
  have "server_inv st mk cl ex (put_session sid (f s) srv)"
    by (rule server_inv_put [OF assms(1)]) (use assms(2) [OF Some server_invD [OF assms(1) Some]] in simp_all)
  with Some show ?thesis by (simp add: on_session_def)
qed

lemma session_inv_append:
  assumes inv: "session_inv sid st mk cl (\<lambda>_. 0) srv s" and len: "length st + length data \<le> u64_max"
    and app: "append_output now data s = (r, s')"
  shows "session_inv sid (st @ data) mk cl (\<lambda>_. 0) srv s'"
proof -
  have v: "s_buffer s' = sb_append (s_buffer s) data" "s_output_batch s' = s_output_batch s @ data"
    "s_output_stream_bytes s' = saturating_add (s_output_stream_bytes s) (length data)"
    "s_clients s' = s_clients s" "s_output_paused_clients s' = s_output_paused_clients s"
    "s_delivered_output_cursors s' = s_delivered_output_cursors s"
    using app by (auto simp: append_output_def split: prod.splits)
  have ok: "sb_inv (s_buffer s)" "suffix (to_bytes (s_buffer s)) st" "s_output_stream_bytes s = length st"
    "suffix (s_output_batch s) st" "distinct (s_clients s)"
    using inv by (simp_all add: inv_defs)
  have "stream_ok (st @ data) s'"
    using ok len v sbr.suffix_push [OF ok(1,2)] sb_append_spec(1) [OF ok(1)] by (simp add: stream_ok_def)
  moreover have "cursor_ok sid (st @ data) m oh k" if "cursor_ok sid st m oh k" for m oh k
    using that by (simp add: cursor_ok_def)
  ultimately show ?thesis
    using inv v unfolding session_inv_def caught_up_def by (auto simp: add.assoc [symmetric])
qed

lemma srv_view_when_some: "(\<And>x srv. srv_view (f x srv) = srv_view srv) \<Longrightarrow> srv_view (when_some ox f srv) = srv_view srv"
  by (simp add: when_some_def split: option.splits)

lemma pty_output_inv:
  assumes inv: "settled st mk cl srv" and chan: "channels_ok cl chan"
    and s: "srv_sessions srv sid = Some s" and len: "length (st sid) + length data \<le> u64_max"
    and h: "handle_pty_output chan enq now sid data srv = (go, srv')"
  shows "settled (st(sid := st sid @ data)) mk (cl \<union> closed_by chan) srv'"
proof -
  let ?st = "st(sid := st sid @ data)" and ?cl = "cl \<union> closed_by chan"
  obtain og dg tc s1 where app: "append_output now data s = ((og, dg, tc), s1)" by (metis surj_pair)
  obtain cp s2 where arm: "arm_checkpoint s1 = (cp, s2)" by fastforce
  define flush where "flush \<longleftrightarrow> output_quiet_for now output_batch_delay s \<or> output_batch_max_bytes \<le> length (s_output_batch s1)"
  define srv5 where "srv5 = when_some dg (spawn_durable_output_batch_timer sid)
    (when_some (if output_quiet_for now output_batch_delay s then None else og) (\<lambda>g. emit (OutputBatchTimer sid g))
      (emit (OutputActivity sid) (when_some tc (\<lambda>t. emit (TitleChanged sid t)) (put_session sid s2 srv))))"
  define srv6 where "srv6 = (if flush then flush_output chan sid srv5 else srv5)"
  have "\<exists>b d. srv' =
      (let x = when_some cp (spawn_checkpoint_timer sid) (if d then flush_durable enq sid srv6 else srv6)
       in if b then pause_pty_session sid x else x)"
    using h by (simp only: handle_pty_output_def s option.case app prod.case arm Let_def srv5_def srv6_def
        flush_def prod.inject) (elim conjE, intro exI, erule sym)
  then have "srv_view srv' = srv_view srv6" by (auto simp: srv_view_when_some Let_def split: if_splits)
  have "session_inv sid (?st sid) (mk sid) cl (\<lambda>_. 0) srv s2"
    using session_inv_view [OF view_durable_eq(5) [OF arm, symmetric] refl
      session_inv_append [OF server_invD [OF inv s] len app]] by simp
  then have "settled ?st mk cl (put_session sid s2 srv)" by (rule server_inv_put [OF inv]) simp_all
  moreover have "srv_view (put_session sid s2 srv) = srv_view srv5"
    by (simp add: srv5_def srv_view_when_some)
  ultimately have i5: "settled ?st mk cl srv5" by (rule server_inv_view [rotated])
  have "settled ?st mk ?cl srv6"
    using flush_output_inv [OF i5 chan, of sid] server_inv_closed_mono [OF i5, of ?cl] by (simp add: srv6_def)
  with \<open>srv_view srv' = srv_view srv6\<close> show ?thesis by (metis server_inv_view)
qed

lemma resync_tick_inv:
  assumes inv: "settled st mk cl srv" and h: "handle_output_resync_tick chan sid c srv = srv'"
  shows "settled st mk (cl \<union> closed_by chan) srv'"
proof -
  let ?cl = "cl \<union> closed_by chan"
  have inv': "settled st mk ?cl srv" by (rule server_inv_closed_mono [OF inv]) simp
  have sent: "settled st mk ?cl (emit e (on_session sid (mark_output_resync_sent c) x))"
    "settled st mk ?cl (on_session sid (mark_output_resync_sent c) x)"
    if "settled st mk ?cl x" for x e
  proof -
    show i: "settled st mk ?cl (on_session sid (mark_output_resync_sent c) x)"
      by (rule server_inv_on_session [OF that]) (auto simp: inv_defs mark_output_resync_sent_def)
    show "settled st mk ?cl (emit e (on_session sid (mark_output_resync_sent c) x))"
      by (rule server_inv_view [OF _ i]) simp
  qed
  have out: "settled st mk ?cl (srv\<lparr>srv_clients := (srv_clients srv)(c \<mapsto> h')\<rparr>)"
    if "srv_clients srv c = Some h" "try_send_terminal g a (output_resync_event sid) h = (r, h')" for h g a r h'
    using that(2)
  proof (cases rule: try_send_cases)
    case (1 n)
    have "frame_bytes_of sid' (output_resync_event sid) = []" for sid'
      by (simp add: frame_bytes_of_def output_resync_event_def)
    with session_inv_accepted [OF server_invD [OF inv'] that(1) 1(3),
        of _ _ "srv\<lparr>srv_clients := (srv_clients srv)(c \<mapsto> h')\<rparr>"]
    show ?thesis by (simp add: server_inv_def)
  qed (use server_inv_refused [OF inv' that(1)] in auto)
  have "settled st mk ?cl (emit e x)" if "settled st mk ?cl x" for e x
    by (rule server_inv_view [OF _ that]) simp
  with h inv' sent out show ?thesis
    by (auto simp: handle_output_resync_tick_def Let_def split: if_splits option.splits prod.splits send_answer.splits)
qed

text \<open>A client that receives a snapshot of everything so far starts afresh at the end of the stream.\<close>

lemma session_inv_rebase:
  assumes inv: "session_inv sid st mk cl (\<lambda>_. 0) srv s" and batch: "s_output_batch s = []"
    and s': "s_buffer s' = s_buffer s" "s_output_stream_bytes s' = s_output_stream_bytes s"
      "s_output_batch s' = []" "distinct (s_clients s')"
      "set (s_clients s') \<subseteq> insert c (set (s_clients s))"
      "s_output_paused_clients s - {c} \<subseteq> s_output_paused_clients s'"
      "s_delivered_output_cursors s' = (s_delivered_output_cursors s)(c \<mapsto> length st)"
  shows "session_inv sid st (mk(c := (length st, accepted_count srv c))) cl (\<lambda>_. 0) srv s'"
proof -
  have "cursor_ok sid st (length st, accepted_count srv c) (srv_clients srv c) (length st)"
    by (auto simp: cursor_ok_def accepted_count_def delivered_def)
  moreover have "\<exists>k. s_delivered_output_cursors s' c' = Some k \<and> k = length st"
    if "c' \<in> set (s_clients s')" "c' \<notin> s_output_paused_clients s'" "srv_clients srv c' \<noteq> None" "c' \<notin> cl" for c'
    using that inv s' batch unfolding session_inv_def caught_up_def by (cases "c' = c") auto
  ultimately show ?thesis
    using inv s' unfolding session_inv_def caught_up_def stream_ok_def by auto
qed

lemma resend_output_snapshot_inv:
  assumes inv: "settled st mk cl srv" and batch: "batch_empty sid srv"
    and r: "resend_output_snapshot sid c srv = (reply, srv')"
  shows "settled st (case reply of ReplySnapshot _ _ \<Rightarrow> mk(sid := (mk sid)(c := (length (st sid), accepted_count srv' c)))
      | _ \<Rightarrow> mk) cl srv'"
proof (cases "srv_sessions srv sid")
  case None
  with r inv show ?thesis by (auto simp: resend_output_snapshot_def)
next
  case (Some s)
  let ?s = "set_delivered_output_cursor c (snd (output_stream_range (set_output_paused c False s))) (set_output_paused c False s)"
  have eq: "\<exists>b dims. reply = ReplySnapshot b dims" "srv' = put_session sid ?s srv"
    using r Some by (auto simp: resend_output_snapshot_def Let_def)
  note si = server_invD [OF inv Some]
  have "s_output_stream_bytes s = length (st sid)" "distinct (s_clients s)" using si by (simp_all add: inv_defs)
  moreover have b: "s_output_batch s = []" using batch Some by (simp add: batch_empty_def)
  ultimately have "session_inv sid (st sid) ((mk sid)(c := (length (st sid), accepted_count srv c))) cl (\<lambda>_. 0) srv ?s"
    by (intro session_inv_rebase [OF si b])
      (auto simp: set_delivered_output_cursor_def set_output_paused_def output_stream_range_def)
  then have "settled st (mk(sid := (mk sid)(c := (length (st sid), accepted_count srv c)))) cl (put_session sid ?s srv)"
    by (intro server_inv_put [OF inv]) simp_all
  moreover have "accepted_count (put_session sid ?s srv) c = accepted_count srv c"
    by (simp add: accepted_count_def)
  ultimately show ?thesis using eq by auto
qed

lemma missed_output_spec:
  assumes "session_inv sid st mk cl ex srv s" "missed_output s c = Some data"
  shows "\<exists>k. s_delivered_output_cursors s c = Some k \<and> data = drop k st"
proof -
  from assms(2) obtain k where k: "s_delivered_output_cursors s c = Some k"
    "s_output_stream_bytes s - sb_length (s_buffer s) \<le> k"
    "data = slice_from (s_buffer s) (k - (s_output_stream_bytes s - sb_length (s_buffer s)))"
    by (auto simp: missed_output_def output_stream_range_def delivered_output_cursor_def sb_len_def
        split: option.splits if_splits)
  from assms(1) have ok: "sb_inv (s_buffer s)" "suffix (to_bytes (s_buffer s)) st" "s_output_stream_bytes s = length st"
    by (simp_all add: inv_defs)
  from sbr.read_from_stream [OF ok(1,2), of k] k ok(3) show ?thesis by simp
qed

lemma session_inv_unpause:
  assumes "session_inv sid st mk cl (\<lambda>_. 0) srv s" "s_output_batch s = []"
    and "s_delivered_output_cursors s c = Some (length st)"
  shows "session_inv sid st mk cl (\<lambda>_. 0) srv (set_output_paused c False s)"
  using assms unfolding session_inv_def caught_up_def stream_ok_def set_output_paused_def by auto

lemma resume_inv:
  assumes inv: "settled st mk cl srv" and batch: "batch_empty sid srv" and chan: "channels_ok cl chan"
    and r: "resume_output_for_client chan sid c srv = (reply, srv')"
  shows "settled st (case reply of ReplySnapshot _ _ \<Rightarrow> mk(sid := (mk sid)(c := (length (st sid), accepted_count srv' c)))
      | _ \<Rightarrow> mk) (cl \<union> closed_by chan) srv'"
proof (cases "case srv_sessions srv sid of None \<Rightarrow> None | Some s \<Rightarrow> missed_output s c")
  case None
  with r have "resend_output_snapshot sid c srv = (reply, srv')" by (simp add: resume_output_for_client_def)
  from resend_output_snapshot_inv [OF _ batch this] server_inv_closed_mono [OF inv] show ?thesis by blast
next
  case (Some data)
  then obtain s where s: "srv_sessions srv sid = Some s" "missed_output s c = Some data"
    by (auto split: option.splits)
  have b: "s_output_batch s = []" using batch s(1) by (simp add: batch_empty_def)
  from missed_output_spec [OF server_invD [OF inv s(1)] s(2)] obtain k where
    k: "s_delivered_output_cursors s c = Some k" "data = drop k (st sid)" by blast
  have kle: "k \<le> length (st sid)"
    using server_invD [OF inv s(1)] k(1) by (auto simp: session_inv_def cursor_ok_def)
  obtain acc srv1 where snd: "(if data = [] then (True, srv) else send_terminal_output chan sid c (Output sid data) srv)
      = (acc, srv1)" by fastforce
  have "settled st mk (cl \<union> closed_by chan) srv1 \<and>
      (\<exists>s'. srv_sessions srv1 sid = Some s' \<and> s_output_batch s' = []
        \<and> (acc \<longrightarrow> s_delivered_output_cursors s' c = Some (length (st sid))))"
  proof (cases "data = []")
    case True
    with snd k kle b s(1) server_inv_closed_mono [OF inv, of "cl \<union> closed_by chan"] show ?thesis by simp
  next
    case False
    with snd have "send_terminal_output chan sid c (Output sid data) srv = (acc, srv1)" by simp
    from send_terminal_output_inv [OF inv s(1) chan _ b this] k show ?thesis
      by (auto simp: sent_to_def b fun_upd_idem)
  qed
  then obtain s' where i1: "settled st mk (cl \<union> closed_by chan) srv1" and s': "srv_sessions srv1 sid = Some s'"
    "s_output_batch s' = []" "acc \<longrightarrow> s_delivered_output_cursors s' c = Some (length (st sid))" by blast
  have "settled st mk (cl \<union> closed_by chan) (on_session sid (set_output_paused c False) srv1)" if acc
    by (rule server_inv_on_session [OF i1]) (use s' that in \<open>auto intro: session_inv_unpause\<close>)
  with r Some snd i1 show ?thesis
    by (auto simp: resume_output_for_client_def split: if_splits)
qed

lemma set_output_paused_request_inv:
  assumes inv: "settled st mk cl srv"
    and chan: "channels_ok cl chan1" "channels_ok (cl \<union> closed_by chan1) chan2"
    and r: "set_output_paused_request chan1 enq chan2 sid c paused srv = (reply, srv')"
  shows "settled st (case reply of ReplySnapshot _ _ \<Rightarrow> mk(sid := (mk sid)(c := (length (st sid), accepted_count srv' c)))
      | _ \<Rightarrow> mk) (cl \<union> closed_by chan1 \<union> closed_by chan2) srv'"
proof -
  let ?srv = "flush_all_output chan1 enq sid srv"
  have i1: "settled st mk (cl \<union> closed_by chan1) ?srv" and b1: "batch_empty sid ?srv"
    using flush_all_output_inv [OF inv chan(1)] by simp_all
  show ?thesis
  proof (cases paused)
    case True
    have "settled st mk (cl \<union> closed_by chan1) (on_session sid (set_output_paused c True) ?srv)"
      by (rule server_inv_on_session [OF i1]) (auto simp: set_output_paused_def inv_defs)
    with r True server_inv_closed_mono show ?thesis
      by (fastforce simp: set_output_paused_request_def set_output_paused_for_client_def)
  next
    case False
    with r have "resume_output_for_client chan2 sid c ?srv = (reply, srv')"
      by (simp add: set_output_paused_request_def set_output_paused_for_client_def)
    from resume_inv [OF i1 b1 chan(2) this] show ?thesis .
  qed
qed

lemma attach_request_inv:
  assumes inv: "settled st mk cl srv" and chan: "channels_ok cl chan"
    and r: "attach_request chan enq sid c srv = (snapshot, srv')"
  shows "settled st (mk(sid := (mk sid)(c := (length (st sid), accepted_count srv' c)))) (cl \<union> closed_by chan) srv'"
proof -
  let ?srv = "flush_all_output chan enq sid srv" and ?cl = "cl \<union> closed_by chan"
  have i1: "settled st mk ?cl ?srv" and b1: "batch_empty sid ?srv"
    using flush_all_output_inv [OF inv chan] by simp_all
  show ?thesis
  proof (cases "srv_sessions ?srv sid")
    case None
    with r have "srv' = ?srv" by (simp add: attach_request_def Let_def)
    with i1 None show ?thesis by (auto simp: server_inv_def)
  next
    case (Some s)
    let ?s = "attach c (s\<lparr>s_observer_clients := s_observer_clients s - {c}\<rparr>)"
    note si = server_invD [OF i1 Some]
    have "s_output_stream_bytes s = length (st sid)" "distinct (s_clients s)" "s_output_batch s = []"
      using si b1 Some by (simp_all add: inv_defs batch_empty_def)
    then have "session_inv sid (st sid) ((mk sid)(c := (length (st sid), accepted_count ?srv c))) ?cl (\<lambda>_. 0) ?srv ?s"
      by (intro session_inv_rebase [OF si]) (auto simp: attach_def set_insert_def)
    then have "settled st (mk(sid := (mk sid)(c := (length (st sid), accepted_count ?srv c)))) ?cl (put_session sid ?s ?srv)"
      by (intro server_inv_put [OF i1]) simp_all
    with r Some show ?thesis by (auto simp: attach_request_def Let_def accepted_count_def)
  qed
qed

lemma session_inv_attach_resync:
  "session_inv sid st mk cl ex srv s \<Longrightarrow> session_inv sid st mk cl ex srv (attach_for_resync c s)"
  unfolding session_inv_def caught_up_def stream_ok_def by (auto simp: attach_for_resync_def set_insert_def)

lemma session_inv_detach: "session_inv sid st mk cl ex srv s \<Longrightarrow> session_inv sid st mk cl ex srv (detach c s)"
  unfolding session_inv_def caught_up_def stream_ok_def by (auto simp: detach_def distinct_removeAll)

lemma session_inv_resize:
  "session_inv sid st mk cl ex srv s \<Longrightarrow> session_inv sid st mk cl ex srv (set_session_max_bytes n s)"
  unfolding session_inv_def caught_up_def stream_ok_def
  using set_max_bytes_spec [of "s_buffer s" n] suffix_keep_last [of n "to_bytes (s_buffer s)"]
  by (auto simp: set_session_max_bytes_def intro: suffix_order.trans)

lemma session_inv_start:
  assumes "suffix scrollback past" "length past = resumed_output_stream_bytes previous (length scrollback)"
    "length past \<le> u64_max"
  shows "session_inv sid past mk cl ex srv (session_start sid dims max_bytes scrollback previous next now)"
  using assms sb_new_spec [of max_bytes scrollback] suffix_keep_last [of max_bytes scrollback]
  by (auto simp: inv_defs session_start_def intro: suffix_order.trans)

lemma session_inv_same_clients:
  assumes "session_inv sid st mk cl ex srv s"
    and "\<And>c. c \<in> set (s_clients s) \<or> s_delivered_output_cursors s c \<noteq> None \<Longrightarrow> srv_clients srv' c = srv_clients srv c"
  shows "session_inv sid st mk cl ex srv' s"
proof -
  have "cursor_ok sid st (mk c) (srv_clients srv' c) k" if "s_delivered_output_cursors s c = Some k" for c k
    using assms(1) assms(2) [of c] that by (simp add: session_inv_def)
  moreover have "caught_up cl srv' st ex s"
    using assms unfolding session_inv_def caught_up_def by simp
  ultimately show ?thesis using assms(1) by (simp add: session_inv_def)
qed

lemma server_inv_connect:
  assumes "settled st mk cl srv"
    and "\<forall>s \<in> ran (srv_sessions srv). c \<notin> set (s_clients s) \<and> s_delivered_output_cursors s c = None"
  shows "settled st mk cl (srv\<lparr>srv_clients := (srv_clients srv)(c := oh)\<rparr>)"
  unfolding server_inv_def
proof (intro allI impI)
  fix sid s
  assume "srv_sessions (srv\<lparr>srv_clients := (srv_clients srv)(c := oh)\<rparr>) sid = Some s"
  then have s: "srv_sessions srv sid = Some s" by simp
  with assms(2) have "c \<notin> set (s_clients s)" "s_delivered_output_cursors s c = None" by (auto simp: ran_def)
  then show "session_inv sid (st sid) (mk sid) cl (\<lambda>_. 0) (srv\<lparr>srv_clients := (srv_clients srv)(c := oh)\<rparr>) s"
    by (intro session_inv_same_clients [OF server_invD [OF assms(1) s]]) auto
qed

lemma server_inv_drop:
  assumes "settled st mk cl srv"
  shows "settled st mk cl (srv\<lparr>srv_clients := (srv_clients srv)(c := None)\<rparr>)"
  using assms unfolding server_inv_def session_inv_def caught_up_def cursor_ok_def
  by (auto split: if_splits)

section \<open>Reachable states\<close>

definition delivery_inv :: "delivery \<Rightarrow> bool" where
  "delivery_inv d \<longleftrightarrow> settled (dl_stream d) (dl_mark d) (dl_closed d) (dl_srv d)"

lemma delivery_inv_init: "delivery_inv (delivery_init n)"
  by (simp add: delivery_inv_def delivery_init_def server_inv_def)

lemma delivery_inv_step:
  assumes "delivery_step d d'" "delivery_inv d"
  shows "delivery_inv d'"
  using assms(1)
proof (cases rule: delivery_step.cases)
  note inv = assms(2) [unfolded delivery_inv_def]
  {
    case (pty_output chan sid data enq now go srv)
    then show ?thesis using pty_output_inv [OF inv] by (auto simp: delivery_inv_def)
  next
    case (batch_tick chan sid g srv)
    then show ?thesis
      using flush_output_inv [OF inv, of chan sid] server_inv_closed_mono [OF inv]
      by (auto simp: delivery_inv_def handle_output_batch_tick_def split: option.splits if_splits)
  next
    case (resync_tick chan sid c srv)
    then show ?thesis using resync_tick_inv [OF inv] by (auto simp: delivery_inv_def)
  next
    case (pause_or_resume chan1 chan2 enq sid c paused reply srv)
    then show ?thesis
      using set_output_paused_request_inv [OF inv pause_or_resume(2-4)]
      by (cases reply) (simp_all add: delivery_inv_def set_mark_def)
  next
    case (attach_client chan enq sid c snapshot srv)
    then show ?thesis
      using attach_request_inv [OF inv attach_client(2,3)] by (simp add: delivery_inv_def set_mark_def)
  next
    case (attach_resync sid c)
    then show ?thesis
      using server_inv_on_session [OF inv, of sid "attach_for_resync c"] session_inv_attach_resync
      by (simp add: delivery_inv_def)
  next
    case (detach_client chan sid c enq)
    have "settled (dl_stream d) (dl_mark d) (dl_closed d \<union> closed_by chan) (flush_all_output chan enq sid (dl_srv d))"
      using flush_all_output_inv [OF inv detach_client(2)] by simp
    from server_inv_on_session [OF this, of sid "detach c"] show ?thesis
      using detach_client(1) session_inv_detach by (simp add: delivery_inv_def)
  next
    case (resize_scrollback sid n)
    then show ?thesis
      using server_inv_on_session [OF inv, of sid "set_session_max_bytes n"] session_inv_resize
      by (simp add: delivery_inv_def)
  next
    case (history_tick enq sid)
    then show ?thesis using server_inv_view [OF srv_view_flush_durable [symmetric] inv] by (simp add: delivery_inv_def)
  next
    case (history_progress ws)
    then show ?thesis using server_inv_view [OF srv_view_fields(4) [symmetric] inv] by (simp add: delivery_inv_def)
  next
    case (start_session sid scrollback past previous dims max_bytes "next" now)
    have "settled ((dl_stream d)(sid := past)) (dl_mark d) (dl_closed d)
        (put_session sid (session_start sid dims max_bytes scrollback previous next now) (dl_srv d))"
      by (rule server_inv_put [OF inv]) (use session_inv_start [OF start_session(3-5)] in simp_all)
    with start_session(1) show ?thesis by (simp add: delivery_inv_def)
  next
    case (connect_client c h)
    then show ?thesis using server_inv_connect [OF inv] by (simp add: delivery_inv_def)
  next
    case (drop_client c)
    then show ?thesis using server_inv_drop [OF inv] by (simp add: delivery_inv_def)
  }
qed

text \<open>
  C1: Terminal output reaches every client without gap and without duplicate.  In every reachable
  state of the server, whatever the client lanes answered and however PTY output, timers, pauses,
  resumes, attachments and resizes interleaved, the session bytes a connected client's lane has
  accepted since its last snapshot are exactly the session's output stream from the position of
  that snapshot to the client's delivery cursor; and a client that is attached, not paused and whose
  lane is open is behind the stream by exactly the batch that is waiting to be flushed.
\<close>

theorem output_delivery_is_gapless:
  assumes "delivery_step\<^sup>*\<^sup>* (delivery_init n) d"
    and "srv_sessions (dl_srv d) sid = Some s" "srv_clients (dl_srv d) c = Some h"
    and "s_delivered_output_cursors s c = Some k"
  shows "fst (dl_mark d sid c) \<le> k \<and> k \<le> length (dl_stream d sid)
    \<and> delivered sid (snd (dl_mark d sid c)) h = drop (fst (dl_mark d sid c)) (take k (dl_stream d sid))
    \<and> (c \<in> set (s_clients s) \<and> c \<notin> s_output_paused_clients s \<and> c \<notin> dl_closed d \<longrightarrow>
        k + length (s_output_batch s) = length (dl_stream d sid))"
proof -
  have "delivery_inv d"
    using assms(1) by (induction rule: rtranclp_induct) (auto intro: delivery_inv_init delivery_inv_step)
  then have "session_inv sid (dl_stream d sid) (dl_mark d sid) (dl_closed d) (\<lambda>_. 0) (dl_srv d) s"
    using assms(2) by (simp add: delivery_inv_def server_inv_def)
  with assms(3,4) show ?thesis
    unfolding session_inv_def caught_up_def cursor_ok_def by fastforce
qed

lemmas delivery_run = rtranclp.rtrancl_into_rtrancl [where r = delivery_step]

lemmas run_defs = delivery_init_def session_start_def put_session_def resumed_output_stream_bytes_def
  attach_request_def flush_all_output_def flush_output_def flush_durable_def flush_output_batch_def
  flush_durable_output_batch_def collect_history_writer_completions_def attach_def set_insert_def set_mark_def
  release_pty_ack_if_unblocked_def take_pty_ack_if_unblocked_def should_pause_pty_output_def
  durable_output_batch_max_bytes_def resume_pty_session_def accepted_count_def client_handle_new_def

text \<open>A client attaches to a fresh session, which then writes two bytes.\<close>

theorem output_delivery_is_gapless_witness:
  "\<exists>d s h k. delivery_step\<^sup>*\<^sup>* (delivery_init 100) d \<and> srv_sessions (dl_srv d) ''s'' = Some s
    \<and> srv_clients (dl_srv d) 1 = Some h \<and> s_delivered_output_cursors s 1 = Some k
    \<and> k = 2 \<and> delivered ''s'' (snd (dl_mark d ''s'' 1)) h = [1, 2]"
proof -
  let ?chan = "\<lambda>c :: client_id. (True, Accepted)"
  let ?d1 = "(delivery_init 100)\<lparr>dl_srv := put_session ''s'' (session_start ''s'' (80, 24) 8 [] 0 0 0) (dl_srv (delivery_init 100)),
     dl_stream := (dl_stream (delivery_init 100))(''s'' := [])\<rparr>"
  let ?d2 = "?d1\<lparr>dl_srv := (dl_srv ?d1)\<lparr>srv_clients := (srv_clients (dl_srv ?d1))(1 \<mapsto> client_handle_new)\<rparr>\<rparr>"
  let ?a = "attach_request ?chan Accepted ''s'' 1 (dl_srv ?d2)"
  let ?d3 = "set_mark ''s'' 1 (snd ?a) (?d2\<lparr>dl_srv := snd ?a, dl_closed := dl_closed ?d2 \<union> closed_by ?chan\<rparr>)"
  let ?p = "handle_pty_output ?chan Accepted 100 ''s'' [1, 2] (dl_srv ?d3)"
  let ?d4 = "?d3\<lparr>dl_srv := snd ?p, dl_closed := dl_closed ?d3 \<union> closed_by ?chan,
        dl_stream := (dl_stream ?d3)(''s'' := dl_stream ?d3 ''s'' @ [1, 2])\<rparr>"
  have s1: "delivery_step (delivery_init 100) ?d1"
    by (rule delivery_step.start_session) (simp_all add: run_defs)
  have s2: "delivery_step ?d1 ?d2"
    by (rule delivery_step.connect_client) (auto simp: run_defs ran_def)
  have s3: "delivery_step ?d2 ?d3"
    by (rule delivery_step.attach_client [where enq = Accepted and snapshot = "fst ?a"])
      (simp_all add: channels_ok_def delivery_init_def)
  have s4: "delivery_step ?d3 ?d4"
    by (rule delivery_step.pty_output [where go = "fst ?p"])
      (simp_all add: channels_ok_def closed_by_def run_defs u64_max_def Let_def)
  have r: "delivery_step\<^sup>*\<^sup>* (delivery_init 100) ?d4"
    by (rule delivery_run [OF delivery_run [OF delivery_run [OF delivery_run
      [OF rtranclp.rtrancl_refl s1] s2] s3] s4])
  let ?S = "(session_start ''s'' (80, 24) 8 [] 0 0 0)\<lparr>s_clients := [1], s_delivered_output_cursors := [1 \<mapsto> 0]\<rparr>"
  let ?srv = "\<lambda>s h e. \<lparr>srv_sessions = [''s'' \<mapsto> s], srv_clients = [1 \<mapsto> h], srv_writers = Map.empty,
     srv_paused_pty = {}, srv_inbox_closed = False, srv_restore_snapshot_bytes = 100, srv_effects = e\<rparr>"
  have d3: "dl_srv ?d3 = ?srv ?S client_handle_new []"
    by (simp add: run_defs)
  obtain tr tc where tt: "tt_feed (s_title_tracker ?S) [1, 2] = (tr, tc)" by fastforce
  let ?S1 = "?S\<lparr>s_output_stream_bytes := 2, s_last_output_at := 100, s_buffer := sb_append (s_buffer ?S) [1, 2],
      s_output_batch := [1, 2], s_durable_output_batch := [1, 2], s_title_tracker := tr,
      s_output_batch_armed := True, s_durable_output_batch_armed := True\<rparr>"
  have app: "append_output 100 [1, 2] ?S = ((Some 0, Some 0, tc), ?S1)"
    using tt by (simp add: append_output_def session_start_def resumed_output_stream_bytes_def u64_max_def)
  have "\<exists>s h. srv_sessions (dl_srv ?d4) ''s'' = Some s \<and> srv_clients (dl_srv ?d4) 1 = Some h
      \<and> s_delivered_output_cursors s 1 = Some 2"
    using d3 app
    by (cases tc) (simp_all add: handle_pty_output_def session_start_def arm_checkpoint_def when_some_def
        output_quiet_for_def output_batch_delay_def emit_def put_session_def
        spawn_durable_output_batch_timer_def arm_durable_retry_timer_def flush_output_def flush_output_batch_def
        output_clients_def send_terminal_output_def try_send_terminal_def client_handle_new_def on_session_def
        advance_delivered_output_cursor_def frame_data_len_def output_batch_max_bytes_def
        spawn_checkpoint_timer_def arm_checkpoint_retry_timer_def should_pause_pty_output_def
        durable_output_batch_max_bytes_def u64_max_def)
  then obtain s h where s: "srv_sessions (dl_srv ?d4) ''s'' = Some s" "srv_clients (dl_srv ?d4) 1 = Some h"
    "s_delivered_output_cursors s 1 = Some 2" by blast
  have m: "fst (dl_mark ?d4 ''s'' 1) = 0" "take 2 (dl_stream ?d4 ''s'') = [1, 2]"
    by (simp_all add: set_mark_def delivery_init_def)
  from output_delivery_is_gapless [OF r s] m
  have "delivered ''s'' (snd (dl_mark ?d4 ''s'' 1)) h = [1, 2]" by simp
  with r s show ?thesis by blast
qed

end
