(* ===== verification/Wire_Codec.thy ===== *)
theory Wire_Codec
  imports Utf8
begin

text \<open>
  The two wire formats of the terminal host: the length-prefixed frames of the local socket
  (\<open>frame_codec.rs\<close>) and the envelopes of the relay (\<open>relay_wire.rs\<close>), both under
  \<open>rust/alera-cli/src/terminal_host\<close>.  The readers of the local frames live in the clients; the
  reference parser below follows the layout that \<open>frame_codec.rs\<close> documents.  The cryptographic
  session and the JSON handshakes of the relay are not part of this theory.
\<close>

section \<open>Big-endian integers\<close>

fun be_bytes :: "nat \<Rightarrow> nat \<Rightarrow> bytes" where
  "be_bytes 0 n = []"
| "be_bytes (Suc k) n = word_of_nat (n div 256 ^ k) # be_bytes k n"

definition from_be :: "bytes \<Rightarrow> nat" where
  "from_be bs = foldl (\<lambda>a b. a * 256 + unat b) 0 bs"

section \<open>Frames of the local socket\<close>

definition frame_kind_json :: byte where
  "frame_kind_json = 1"

definition frame_kind_output :: byte where
  "frame_kind_output = 2"

definition frame_header_len :: nat where
  "frame_header_len = 5"

text \<open>The casts \<open>as u16\<close> and \<open>as u32\<close> keep the low bits, as \<open>be_bytes\<close> does.\<close>

definition frame :: "byte \<Rightarrow> bytes \<Rightarrow> bytes" where
  "frame kind payload = kind # be_bytes 4 (length payload) @ payload"

definition encode_output_payload :: "bytes \<Rightarrow> bytes \<Rightarrow> bytes" where
  "encode_output_payload session_id data = be_bytes 2 (length session_id) @ session_id @ data"

definition encode_output_frame :: "bytes \<Rightarrow> bytes \<Rightarrow> bytes" where
  "encode_output_frame session_id data =
    frame frame_kind_output (encode_output_payload session_id data)"

text \<open>\<open>to_vec\<close> is the JSON serialiser, which is not part of the sources.\<close>

definition encode_json_frame :: "('v \<Rightarrow> bytes option) \<Rightarrow> 'v \<Rightarrow> bytes option" where
  "encode_json_frame to_vec v = map_option (frame frame_kind_json) (to_vec v)"

text \<open>Reference parser of one frame: kind, payload and the rest of the stream.\<close>

definition parse_frame :: "bytes \<Rightarrow> (byte \<times> bytes \<times> bytes) option" where
  "parse_frame bs =
    (case bs of [] \<Rightarrow> None
     | kind # rest \<Rightarrow>
         (let n = from_be (take 4 rest); body = drop 4 rest
          in if length rest < 4 \<or> length body < n then None else Some (kind, take n body, drop n body)))"

definition parse_output_payload :: "bytes \<Rightarrow> (bytes \<times> bytes) option" where
  "parse_output_payload bs =
    (let n = from_be (take 2 bs); body = drop 2 bs
     in if length bs < 2 \<or> length body < n then None else Some (take n body, drop n body))"

text \<open>Reading a whole stream of frames; \<open>None\<close> when it does not end at a frame boundary.\<close>

function parse_frames :: "bytes \<Rightarrow> (byte \<times> bytes) list option" where
  "parse_frames bs =
    (if bs = [] then Some []
     else case parse_frame bs of
       None \<Rightarrow> None
     | Some (kind, payload, rest) \<Rightarrow> map_option ((#) (kind, payload)) (parse_frames rest))"
  by pat_completeness auto

termination
  by (relation "measure length") (auto simp: parse_frame_def Let_def split: list.splits if_splits)

section \<open>Relay envelopes\<close>

datatype relay_error =
    EnvelopeTooLarge
  | FragmentInterrupted
  | FragmentTruncated
  | FragmentOutOfRange
  | FragmentSequenceInvalid
  | ClientIdOutOfRange
  | RelayFrameTruncated
  | ClientIdInvalid
  | ClientIdNotUtf8

definition client_id_bytes :: nat where
  "client_id_bytes = 2"

definition max_client_id_bytes :: nat where
  "max_client_id_bytes = 128"

definition fragment_magic :: bytes where
  "fragment_magic = [0x41, 0x4C, 0x52, 0x46, 0x01]"

definition fragment_header_bytes :: nat where
  "fragment_header_bytes = length fragment_magic + 4 + 4"

definition relay_fragment_payload_bytes :: nat where
  "relay_fragment_payload_bytes = 48 * 1024"

definition max_relay_envelope_bytes :: nat where
  "max_relay_envelope_bytes = 1024 * 1024"

record reassembler =
  fr_total :: "nat option"
  fr_bytes :: bytes

definition fr_default :: reassembler where
  "fr_default = \<lparr>fr_total = None, fr_bytes = []\<rparr>"

definition fr_reset :: "reassembler \<Rightarrow> reassembler" where
  "fr_reset r = r\<lparr>fr_total := None, fr_bytes := []\<rparr>"

text \<open>
  \<open>FragmentReassembler::accept\<close>: the result and the state after the call, which the error
  branches change too.
\<close>

definition fr_accept :: "bytes \<Rightarrow> reassembler \<Rightarrow> (relay_error + bytes option) \<times> reassembler" where
  "fr_accept payload r =
    (if max_relay_envelope_bytes < length payload then (Inl EnvelopeTooLarge, fr_reset r)
     else if take 5 payload \<noteq> fragment_magic then
       (if fr_total r \<noteq> None then (Inl FragmentInterrupted, fr_reset r)
        else (Inr (Some payload), r))
     else if length payload \<le> fragment_header_bytes then (Inl FragmentTruncated, fr_reset r)
     else
       (let ftotal = from_be (take 4 (drop 5 payload));
            offset = from_be (take 4 (drop 9 payload));
            chunk = drop fragment_header_bytes payload
        in if ftotal \<le> relay_fragment_payload_bytes \<or> max_relay_envelope_bytes < ftotal
              \<or> relay_fragment_payload_bytes < length chunk \<or> ftotal < offset + length chunk
           then (Inl FragmentOutOfRange, fr_reset r)
           else if offset \<noteq> 0 \<and> (fr_total r \<noteq> Some ftotal \<or> offset \<noteq> length (fr_bytes r))
           then (Inl FragmentSequenceInvalid, fr_reset r)
           else
             (let r' = (if offset = 0 then r\<lparr>fr_total := Some ftotal, fr_bytes := chunk\<rparr>
                        else r\<lparr>fr_bytes := fr_bytes r @ chunk\<rparr>)
              in if length (fr_bytes r') \<noteq> ftotal then (Inr None, r')
                 else (Inr (Some (fr_bytes r')), r'\<lparr>fr_total := None, fr_bytes := []\<rparr>))))"

text \<open>\<open>slice::chunks(n)\<close> for a positive \<open>n\<close>.\<close>

function chunks_of :: "nat \<Rightarrow> bytes \<Rightarrow> bytes list" where
  "chunks_of n bs = (if bs = [] \<or> n = 0 then [] else take n bs # chunks_of n (drop n bs))"
  by pat_completeness auto

termination
  by (relation "measure (\<lambda>(n, bs). length bs)") auto

definition fragment_frame :: "nat \<Rightarrow> nat \<Rightarrow> bytes \<Rightarrow> bytes" where
  "fragment_frame ftotal offset chunk = fragment_magic @ be_bytes 4 ftotal @ be_bytes 4 offset @ chunk"

definition fragment :: "bytes \<Rightarrow> relay_error + bytes list" where
  "fragment payload =
    (if max_relay_envelope_bytes < length payload then Inl EnvelopeTooLarge
     else if length payload \<le> relay_fragment_payload_bytes then Inr [payload]
     else Inr (map (\<lambda>(index, chunk).
         fragment_frame (length payload) (index * relay_fragment_payload_bytes) chunk)
       (enumerate 0 (chunks_of relay_fragment_payload_bytes payload))))"

definition wrap :: "bytes \<Rightarrow> bytes \<Rightarrow> relay_error + bytes" where
  "wrap client_id payload =
    (if client_id = [] \<or> max_client_id_bytes < length client_id then Inl ClientIdOutOfRange
     else Inr (be_bytes 2 (length client_id) @ client_id @ payload))"

definition unwrap :: "bytes \<Rightarrow> relay_error + bytes \<times> bytes" where
  "unwrap fr =
    (if length fr < client_id_bytes then Inl RelayFrameTruncated
     else
       (let n = from_be (take 2 fr)
        in if n = 0 \<or> max_client_id_bytes < n \<or> length fr < client_id_bytes + n
           then Inl ClientIdInvalid
           else case from_utf8 (take n (drop client_id_bytes fr)) of
             None \<Rightarrow> Inl ClientIdNotUtf8
           | Some client_id \<Rightarrow> Inr (client_id, drop (client_id_bytes + n) fr)))"

text \<open>Feeding a sequence of frames to the reassembler, collecting the envelopes it completes.\<close>

fun accept_all :: "bytes list \<Rightarrow> reassembler \<Rightarrow> (relay_error + bytes list) \<times> reassembler" where
  "accept_all [] r = (Inr [], r)"
| "accept_all (f # fs) r =
    (case fr_accept f r of
       (Inl e, r') \<Rightarrow> (Inl e, r')
     | (Inr done, r') \<Rightarrow>
         (case accept_all fs r' of
            (Inl e, r'') \<Rightarrow> (Inl e, r'')
          | (Inr out, r'') \<Rightarrow> (Inr ((case done of None \<Rightarrow> [] | Some p \<Rightarrow> [p]) @ out), r'')))"

section \<open>Integer round trips\<close>

declare parse_frames.simps [simp del] chunks_of.simps [simp del]

lemma parse_frames_Nil [simp]: "parse_frames [] = Some []"
  by (simp add: parse_frames.simps)

lemma chunks_of_Nil [simp]: "chunks_of n [] = []"
  by (simp add: chunks_of.simps)

lemma length_be_bytes [simp]: "length (be_bytes k n) = k"
  by (induction k) simp_all

lemma foldl_be_bytes:
  "foldl (\<lambda>a b. a * 256 + unat (b :: byte)) a (be_bytes k n) = a * 256 ^ k + n mod 256 ^ k"
proof (induction k arbitrary: a)
  case (Suc k)
  have "unat (word_of_nat (n div 256 ^ k) :: byte) = n div 256 ^ k mod 256"
    by (simp add: unat_of_nat)
  moreover have "n mod 256 ^ Suc k = n div 256 ^ k mod 256 * 256 ^ k + n mod 256 ^ k"
    using mod_mult2_eq [of n "256 ^ k" 256] by (simp add: mult.commute)
  moreover have "foldl (\<lambda>a b. a * 256 + unat (b :: byte)) a (be_bytes (Suc k) n)
      = (a * 256 + unat (word_of_nat (n div 256 ^ k) :: byte)) * 256 ^ k + n mod 256 ^ k"
    by (simp add: Suc)
  ultimately show ?case by (simp add: algebra_simps)
qed simp

lemma from_be_be_bytes [simp]: "from_be (be_bytes k n) = n mod 256 ^ k"
  by (simp add: from_be_def foldl_be_bytes)

section \<open>Properties of the local frames\<close>

lemma parse_frame_frame:
  "length p < 2 ^ 32 \<Longrightarrow> parse_frame (frame k p @ rest) = Some (k, p, rest)"
  by (simp add: parse_frame_def frame_def Let_def)

lemma parse_frames_frame:
  "length p < 2 ^ 32 \<Longrightarrow> parse_frames (frame k p @ rest) = map_option ((#) (k, p)) (parse_frames rest)"
  using parse_frame_frame [of p k rest] by (subst parse_frames.simps) (simp add: frame_def)

text \<open>
  The byte stream of any sequence of frames parses back to exactly those frames: the length
  prefixes delimit the frames as long as every payload fits the 32-bit length field, and an output
  payload splits back into session id and bytes as long as the id fits the 16-bit length field.
\<close>

theorem frame_stream_roundtrip:
  assumes "\<forall>(k, p) \<in> set fs. length p < 2 ^ 32" and "length session_id < 2 ^ 16"
  shows "parse_frames (concat (map (\<lambda>(k, p). frame k p) fs)) = Some fs
    \<and> parse_output_payload (encode_output_payload session_id data) = Some (session_id, data)"
proof
  show "parse_frames (concat (map (\<lambda>(k, p). frame k p) fs)) = Some fs"
    using assms(1)
  proof (induction fs)
    case (Cons f fs)
    obtain k p where f: "f = (k, p)" by fastforce
    have "parse_frames (frame k p @ concat (map (\<lambda>(k, p). frame k p) fs))
        = map_option ((#) (k, p)) (parse_frames (concat (map (\<lambda>(k, p). frame k p) fs)))"
      using Cons.prems f by (intro parse_frames_frame) simp
    also have "\<dots> = Some ((k, p) # fs)" using Cons by simp
    finally show ?case using f by simp
  qed simp
  show "parse_output_payload (encode_output_payload session_id data) = Some (session_id, data)"
    using assms(2) by (simp add: parse_output_payload_def encode_output_payload_def Let_def)
qed

theorem frame_stream_roundtrip_witness:
  "parse_frames (frame 1 [123, 125] @ encode_output_frame [115, 49] [27, 91, 72])
    = Some [(1, [123, 125]), (2, [0, 2, 115, 49, 27, 91, 72])]"
proof -
  have "parse_frames (concat (map (\<lambda>(k, p). frame k p) [(1, [123, 125]), (2, [0, 2, 115, 49, 27, 91, 72])]))
    = Some [(1, [123, 125]), (2, [0, 2, 115, 49, 27, 91, 72])]"
    using frame_stream_roundtrip
      [of "[(1, [123, 125]), (2, [0, 2, 115, 49, 27, 91, 72])]" "[115, 49]"] by simp
  moreover have "be_bytes 2 (length [115 :: byte, 49]) = [0, 2]" by (simp add: numeral_2_eq_2)
  then have "encode_output_frame [115, 49] [27, 91, 72] = frame 2 [0, 2, 115, 49, 27, 91, 72]"
    by (simp add: encode_output_frame_def encode_output_payload_def frame_kind_output_def)
  ultimately show ?thesis by simp
qed

section \<open>Properties of the relay envelopes\<close>

lemma take_magic: "take 5 (fragment_frame t off c) = fragment_magic"
  by (simp add: fragment_frame_def fragment_magic_def)

lemma fragment_frame_fields:
  "take 4 (drop 5 (fragment_frame t off c)) = be_bytes 4 t"
  "take 4 (drop 9 (fragment_frame t off c)) = be_bytes 4 off"
  "drop fragment_header_bytes (fragment_frame t off c) = c"
  "length (fragment_frame t off c) = fragment_header_bytes + length c"
  by (simp_all add: fragment_frame_def fragment_magic_def fragment_header_bytes_def)

lemmas relay_bounds = relay_fragment_payload_bytes_def max_relay_envelope_bytes_def
  fragment_header_bytes_def fragment_magic_def

lemma fr_accept_fragment:
  assumes "relay_fragment_payload_bytes < t" "t \<le> max_relay_envelope_bytes"
    and "c \<noteq> []" "length c \<le> relay_fragment_payload_bytes" "length pre + length c \<le> t"
    and "pre = [] \<or> fr_total r = Some t \<and> fr_bytes r = pre"
  shows "fr_accept (fragment_frame t (length pre) c) r =
    (if length pre + length c = t then (Inr (Some (pre @ c)), \<lparr>fr_total = None, fr_bytes = []\<rparr>)
     else (Inr None, \<lparr>fr_total = Some t, fr_bytes = pre @ c\<rparr>))"
proof -
  have t: "t mod 256 ^ 4 = t" "length pre mod 256 ^ 4 = length pre"
    using assms(2,5) by (simp_all add: relay_bounds)
  have small: "\<not> max_relay_envelope_bytes < fragment_header_bytes + length c"
    using assms(4) by (simp add: relay_bounds)
  show ?thesis
    using assms t small
    by (cases "pre = []"; cases r)
      (auto simp: fr_accept_def take_magic fragment_frame_fields Let_def)
qed

lemma accept_all_fragments:
  assumes "relay_fragment_payload_bytes < t" "t \<le> max_relay_envelope_bytes"
    and "t = length pre + length suf" "length pre = j * relay_fragment_payload_bytes" "suf \<noteq> []"
    and "pre = [] \<or> fr_total r = Some t \<and> fr_bytes r = pre"
  shows "accept_all (map (\<lambda>(i, c). fragment_frame t (i * relay_fragment_payload_bytes) c)
      (enumerate j (chunks_of relay_fragment_payload_bytes suf))) r
    = (Inr [pre @ suf], \<lparr>fr_total = None, fr_bytes = []\<rparr>)"
  using assms
proof (induction "length suf" arbitrary: pre suf j r rule: less_induct)
  case less
  let ?N = relay_fragment_payload_bytes
  let ?c = "take ?N suf" and ?rest = "drop ?N suf"
  have N: "0 < ?N" by (simp add: relay_bounds)
  have c: "?c \<noteq> []" "length ?c \<le> ?N" "length pre + length ?c \<le> t"
    using less.prems N by simp_all
  have chunks: "chunks_of ?N suf = ?c # chunks_of ?N ?rest"
    using less.prems(5) N by (subst chunks_of.simps) simp
  have off: "j * ?N = length pre" using less.prems(4) by simp
  note acc = fr_accept_fragment [OF less.prems(1,2) c less.prems(6)]
  show ?case
  proof (cases "?rest = []")
    case True
    then have "length pre + length ?c = t" "?c = suf" using less.prems(3) by simp_all
    with acc chunks True off show ?thesis by (simp add: enumerate_simps)
  next
    case False
    then have len: "length ?c = ?N" by simp
    have ih: "accept_all (map (\<lambda>(i, c). fragment_frame t (i * ?N) c)
        (enumerate (Suc j) (chunks_of ?N ?rest))) \<lparr>fr_total = Some t, fr_bytes = pre @ ?c\<rparr>
      = (Inr [(pre @ ?c) @ ?rest], \<lparr>fr_total = None, fr_bytes = []\<rparr>)"
      using less.prems False len N by (intro less.hyps) auto
    have "length pre + length ?c \<noteq> t" using False less.prems(3) by simp
    with acc chunks off ih show ?thesis
      by (simp add: enumerate_simps)
  qed
qed

text \<open>
  C8: An envelope that \<open>fragment\<close> accepts is delivered unchanged: feeding its fragments in order to
  an idle reassembler produces the envelope exactly once and leaves the reassembler idle.  An
  envelope sent in one piece must not itself start with the fragment marker.
\<close>

theorem fragment_reassembly_roundtrip:
  assumes "fragment payload = Inr fs" "fr_total r = None"
    and "length payload \<le> relay_fragment_payload_bytes \<Longrightarrow> take 5 payload \<noteq> fragment_magic"
  shows "fst (accept_all fs r) = Inr [payload] \<and> fr_total (snd (accept_all fs r)) = None"
proof (cases "length payload \<le> relay_fragment_payload_bytes")
  case True
  then show ?thesis
    using assms by (auto simp: fragment_def fr_accept_def relay_bounds split: if_splits)
next
  case False
  then have fs: "fs = map (\<lambda>(i, c). fragment_frame (length payload) (i * relay_fragment_payload_bytes) c)
      (enumerate 0 (chunks_of relay_fragment_payload_bytes payload))"
    and le: "length payload \<le> max_relay_envelope_bytes"
    using assms(1) by (auto simp: fragment_def split: if_splits)
  have "accept_all fs r = (Inr [[] @ payload], \<lparr>fr_total = None, fr_bytes = []\<rparr>)"
    unfolding fs by (rule accept_all_fragments) (use False le in auto)
  then show ?thesis by simp
qed

theorem fragment_reassembly_roundtrip_witness:
  "fst (accept_all [[1, 2, 3]] fr_default) = Inr [[1, 2, 3]]
    \<and> (\<exists>fs. fragment (replicate 50000 7) = Inr fs \<and> fst (accept_all fs fr_default) = Inr [replicate 50000 7])"
proof -
  have "\<exists>fs. fragment (replicate 50000 (7 :: byte)) = Inr fs"
    by (simp add: fragment_def relay_bounds)
  then obtain fs where fs: "fragment (replicate 50000 (7 :: byte)) = Inr fs" ..
  have "fst (accept_all fs fr_default) = Inr [replicate 50000 7]"
    using fragment_reassembly_roundtrip [OF fs, of fr_default]
    by (simp add: fr_default_def relay_bounds)
  moreover have "fst (accept_all [[1, 2, 3]] fr_default) = Inr [[1, 2, 3]]"
    using fragment_reassembly_roundtrip [of "[1, 2, 3]" "[[1, 2, 3]]" fr_default]
    by (simp add: fragment_def fr_default_def relay_bounds)
  ultimately show ?thesis using fs by blast
qed

text \<open>
  The outer relay frame keeps identity and payload apart: unwrapping a wrapped frame gives back
  the client id and the payload, for every client id that is valid UTF-8 and that \<open>wrap\<close> accepts;
  \<open>wrap\<close> refuses exactly the empty ids and those longer than 128 bytes.
\<close>

theorem wrap_unwrap_roundtrip:
  assumes "utf8_valid client_id"
  shows "case wrap client_id payload of
      Inl e \<Rightarrow> e = ClientIdOutOfRange \<and> (client_id = [] \<or> 128 < length client_id)
    | Inr fr \<Rightarrow> client_id \<noteq> [] \<and> length client_id \<le> 128 \<and> unwrap fr = Inr (client_id, payload)"
  using assms
  by (auto simp: wrap_def unwrap_def from_utf8_def client_id_bytes_def max_client_id_bytes_def Let_def
      split: sum.splits)

theorem wrap_unwrap_roundtrip_witness:
  "\<exists>fr. wrap [109, 49] [1, 2] = Inr fr \<and> unwrap fr = Inr ([109, 49], [1, 2])"
proof -
  have "utf8_valid [109, 49]" by (rule utf8_valid_ascii) simp
  from wrap_unwrap_roundtrip [OF this, of "[1, 2]"] show ?thesis
    by (auto simp: wrap_def max_client_id_bytes_def)
qed

end
