(* ===== verification/Mutation_Queue.thy ===== *)
theory Mutation_Queue
  imports Prelude "HOL-Library.Sublist"
begin

text \<open>
  The queue of runtime mutations and the idle shutdown that must not cut them off
  (\<open>server/runtime_mutation_queue.rs\<close>, \<open>server/lifecycle.rs\<close>, the disconnection in \<open>server/client_delivery.rs\<close>).
  Each handler of the actor is one function; the messages it can receive are the steps of a transition
  system.  What the other parts of the actor add to the idle test is the argument \<open>busy\<close>.
\<close>

section \<open>The queue\<close>

definition max_mutations :: nat where
  "max_mutations = 256"

record 'm queued_mutation =
  qm_client_id :: nat
  qm_request_id :: int
  qm_mutation :: 'm

record 'm mutation_queue =
  mq_active :: bool
  mq_pending :: "'m queued_mutation list"
  mq_in_flight :: nat
  mq_file_writes :: nat

text \<open>
  The part of the actor the queue touches.  \<open>ac_spawned\<close> and \<open>ac_refused\<close> record the tasks handed to the
  executor and the error responses, \<open>ac_timers\<close> the generations of the shutdown timers that still sleep;
  \<open>ac_accepted\<close> and \<open>ac_finished\<close> count what came in and what reported back.
\<close>

record 'm actor =
  ac_queue :: "'m mutation_queue"
  ac_clients :: "nat list"
  ac_shutdown_gen :: nat
  ac_timers :: "nat list"
  ac_disposed :: bool
  ac_accepted :: "'m queued_mutation list"
  ac_spawned :: "'m queued_mutation list"
  ac_finished :: nat
  ac_refused :: "(nat \<times> int) list"

definition initial_actor :: "'m actor" where
  "initial_actor = \<lparr>ac_queue = \<lparr>mq_active = False, mq_pending = [], mq_in_flight = 0, mq_file_writes = 0\<rparr>,
     ac_clients = [], ac_shutdown_gen = 0, ac_timers = [], ac_disposed = False, ac_accepted = [],
     ac_spawned = [], ac_finished = 0, ac_refused = []\<rparr>"

definition outstanding :: "'m mutation_queue \<Rightarrow> nat" where
  "outstanding q = of_bool (mq_active q) + length (mq_pending q) + mq_file_writes q"

definition has_runtime_mutations :: "'m mutation_queue \<Rightarrow> bool" where
  "has_runtime_mutations q \<longleftrightarrow> mq_in_flight q > 0"

definition update_queue :: "('m mutation_queue \<Rightarrow> 'm mutation_queue) \<Rightarrow> 'm actor \<Rightarrow> 'm actor" where
  "update_queue f a = a\<lparr>ac_queue := f (ac_queue a)\<rparr>"

section \<open>Idle shutdown\<close>

definition cancel_shutdown_timer :: "'m actor \<Rightarrow> 'm actor" where
  "cancel_shutdown_timer a = a\<lparr>ac_shutdown_gen := ac_shutdown_gen a + 1\<rparr>"

definition schedule_shutdown_if_idle :: "bool \<Rightarrow> 'm actor \<Rightarrow> 'm actor" where
  "schedule_shutdown_if_idle busy a =
    (if ac_disposed a \<or> busy \<or> outstanding (ac_queue a) > 0 then cancel_shutdown_timer a
     else a\<lparr>ac_shutdown_gen := ac_shutdown_gen a + 1, ac_timers := (ac_shutdown_gen a + 1) # ac_timers a\<rparr>)"

text \<open>
  A timer that fires.  \<open>generating\<close> stands for the resumable generations and skill installs, \<open>owned\<close> for the
  clients and jobs the tick looks at again; the queue is not among them.
\<close>

definition handle_shutdown_tick :: "bool \<Rightarrow> bool \<Rightarrow> bool \<Rightarrow> nat \<Rightarrow> 'm actor \<Rightarrow> 'm actor" where
  "handle_shutdown_tick generating busy owned generation a =
    (if generation = ac_shutdown_gen a \<and> generating then schedule_shutdown_if_idle busy a
     else if generation = ac_shutdown_gen a \<and> \<not> ac_disposed a \<and> \<not> owned then a\<lparr>ac_disposed := True\<rparr>
     else a)"

section \<open>Handlers\<close>

text \<open>The loop of \<open>start_next_runtime_mutation\<close>: requests of clients that have gone are skipped.\<close>

primrec start_loop :: "'m queued_mutation list \<Rightarrow> 'm actor \<Rightarrow> 'm actor" where
  "start_loop [] a = update_queue (\<lambda>q. q\<lparr>mq_pending := []\<rparr>) a"
| "start_loop (r # rs) a =
    (if qm_client_id r \<in> set (ac_clients a)
     then (update_queue (\<lambda>q. q\<lparr>mq_active := True, mq_pending := rs\<rparr>) a)\<lparr>ac_spawned := ac_spawned a @ [r]\<rparr>
     else start_loop rs (update_queue (\<lambda>q. q\<lparr>mq_in_flight := mq_in_flight q - 1\<rparr>) a))"

definition start_next_runtime_mutation :: "'m actor \<Rightarrow> 'm actor" where
  "start_next_runtime_mutation a =
    (if mq_active (ac_queue a) \<or> mq_file_writes (ac_queue a) > 0 then a
     else start_loop (mq_pending (ac_queue a)) a)"

definition begin_workspace_file_write :: "'m actor \<Rightarrow> 'm actor" where
  "begin_workspace_file_write a =
    update_queue (\<lambda>q. q\<lparr>mq_file_writes := mq_file_writes q + 1, mq_in_flight := mq_in_flight q + 1\<rparr>)
      (cancel_shutdown_timer a)"

definition complete_workspace_file_write :: "bool \<Rightarrow> 'm actor \<Rightarrow> 'm actor" where
  "complete_workspace_file_write busy a =
    schedule_shutdown_if_idle busy (start_next_runtime_mutation
      (update_queue (\<lambda>q. q\<lparr>mq_file_writes := mq_file_writes q - 1, mq_in_flight := mq_in_flight q - 1\<rparr>) a))"

definition start_runtime_mutation :: "nat \<Rightarrow> int \<Rightarrow> 'm \<Rightarrow> 'm actor \<Rightarrow> 'm actor" where
  "start_runtime_mutation client_id request_id mutation a =
    (if outstanding (ac_queue a) \<ge> max_mutations then a\<lparr>ac_refused := ac_refused a @ [(client_id, request_id)]\<rparr>
     else let r = \<lparr>qm_client_id = client_id, qm_request_id = request_id, qm_mutation = mutation\<rparr>;
              b = cancel_shutdown_timer a
       in start_next_runtime_mutation ((update_queue
            (\<lambda>q. q\<lparr>mq_in_flight := mq_in_flight q + 1, mq_pending := mq_pending q @ [r]\<rparr>) b)
              \<lparr>ac_accepted := ac_accepted b @ [r]\<rparr>))"

definition complete_runtime_mutation :: "bool \<Rightarrow> 'm actor \<Rightarrow> 'm actor" where
  "complete_runtime_mutation busy a =
    schedule_shutdown_if_idle busy (start_next_runtime_mutation
      ((update_queue (\<lambda>q. q\<lparr>mq_in_flight := mq_in_flight q - 1, mq_active := False\<rparr>) a)
        \<lparr>ac_finished := ac_finished a + 1\<rparr>))"

definition cancel_queued_runtime_mutations :: "nat \<Rightarrow> 'm actor \<Rightarrow> 'm actor" where
  "cancel_queued_runtime_mutations client_id =
    update_queue (\<lambda>q. let kept = filter (\<lambda>r. qm_client_id r \<noteq> client_id) (mq_pending q) in
      q\<lparr>mq_pending := kept, mq_in_flight := mq_in_flight q - (length (mq_pending q) - length kept)\<rparr>)"

text \<open>The queue's share of \<open>dispose_client\<close>; an unknown client changes nothing.\<close>

definition dispose_client :: "bool \<Rightarrow> nat \<Rightarrow> 'm actor \<Rightarrow> 'm actor" where
  "dispose_client busy client_id a =
    (if client_id \<notin> set (ac_clients a) then a
     else schedule_shutdown_if_idle busy
       (let b = cancel_queued_runtime_mutations client_id a in b\<lparr>ac_clients := removeAll client_id (ac_clients b)\<rparr>))"

section \<open>Histories\<close>

text \<open>
  The messages of the actor: a task reports back only while one runs, a file write only after it began, and a
  timer fires once.  A shutdown that a client asks for is not among them.
\<close>

inductive actor_step :: "'m actor \<Rightarrow> 'm actor \<Rightarrow> bool" where
  connect: "actor_step a (a\<lparr>ac_clients := c # ac_clients a\<rparr>)"
| dispose: "actor_step a (dispose_client busy c a)"
| request: "actor_step a (start_runtime_mutation c i m a)"
| finished: "mq_active (ac_queue a) \<Longrightarrow> actor_step a (complete_runtime_mutation busy a)"
| write_begins: "actor_step a (begin_workspace_file_write a)"
| write_ends: "mq_file_writes (ac_queue a) > 0 \<Longrightarrow> actor_step a (complete_workspace_file_write busy a)"
| idle: "actor_step a (schedule_shutdown_if_idle busy a)"
| tick: "g \<in> set (ac_timers a) \<Longrightarrow>
    actor_step a (handle_shutdown_tick generating busy owned g (a\<lparr>ac_timers := remove1 g (ac_timers a)\<rparr>))"

inductive_cases actor_stepE: "actor_step a b"

inductive reachable_actor :: "'m actor \<Rightarrow> bool" where
  start: "reachable_actor initial_actor"
| step: "reachable_actor a \<Longrightarrow> actor_step a b \<Longrightarrow> reachable_actor b"

section \<open>The loop\<close>

text \<open>What the loop does in one go.\<close>

lemma start_loop_run:
  "start_loop rs a = (case dropWhile (\<lambda>r. qm_client_id r \<notin> set (ac_clients a)) rs of
     [] \<Rightarrow> update_queue (\<lambda>q. q\<lparr>mq_pending := [], mq_in_flight := mq_in_flight q - length rs\<rparr>) a
   | r # rest \<Rightarrow> (update_queue (\<lambda>q. q\<lparr>mq_active := True, mq_pending := rest,
         mq_in_flight := mq_in_flight q - (length rs - length (r # rest))\<rparr>) a)\<lparr>ac_spawned := ac_spawned a @ [r]\<rparr>)"
proof (induction rs arbitrary: a)
  case (Cons r rs)
  let ?gone = "\<lambda>r. qm_client_id r \<notin> set (ac_clients a)"
  show ?case
  proof (cases "?gone r")
    case True
    show ?thesis
    proof (cases "dropWhile ?gone rs")
      case Nil
      with True Cons show ?thesis by (simp add: update_queue_def del: dropWhile_eq_Nil_conv)
    next
      case (Cons x rest)
      have "Suc (length rest) \<le> length rs" using length_dropWhile_le [of ?gone rs] Cons by simp
      then have "Suc (length rs) - Suc (length rest) = Suc (length rs - Suc (length rest))" by simp
      with True Cons Cons.IH show ?thesis by (simp add: update_queue_def del: diff_Suc_Suc)
    qed
  qed (simp add: update_queue_def)
qed (simp add: update_queue_def)

text \<open>The state before \<open>start_next_runtime_mutation\<close>: everything but that waiting work is running.\<close>

definition queue_books :: "'m actor \<Rightarrow> bool" where
  "queue_books a \<longleftrightarrow> mq_in_flight (ac_queue a) = outstanding (ac_queue a)
    \<and> of_bool (mq_active (ac_queue a)) + length (mq_pending (ac_queue a)) \<le> max_mutations
    \<and> subseq (ac_spawned a @ mq_pending (ac_queue a)) (ac_accepted a)
    \<and> length (ac_spawned a) = ac_finished a + of_bool (mq_active (ac_queue a))"

definition work_conserving :: "'m actor \<Rightarrow> bool" where
  "work_conserving a \<longleftrightarrow> mq_pending (ac_queue a) \<noteq> [] \<longrightarrow> mq_active (ac_queue a) \<or> mq_file_writes (ac_queue a) > 0"

definition timers_ok :: "'m actor \<Rightarrow> bool" where
  "timers_ok a \<longleftrightarrow> (\<forall>g \<in> set (ac_timers a). g \<le> ac_shutdown_gen a)
    \<and> (ac_shutdown_gen a \<in> set (ac_timers a) \<longrightarrow> outstanding (ac_queue a) = 0)"

lemma subseq_dropWhile: "subseq (xs @ dropWhile p ys) (xs @ ys)"
  by (simp add: subseq_append_iff) (metis list_emb_append_mono subseq_order.refl suffix_dropWhile suffix_imp_subseq)

lemma start_next_books:
  assumes "queue_books a"
  shows "queue_books (start_next_runtime_mutation a)" "work_conserving (start_next_runtime_mutation a)"
proof -
  let ?p = "\<lambda>r. qm_client_id r \<notin> set (ac_clients a)"
  let ?rs = "mq_pending (ac_queue a)"
  have sub: "subseq (ac_spawned a @ dropWhile ?p ?rs) (ac_accepted a)"
    using assms subseq_dropWhile subseq_order.trans unfolding queue_books_def by blast
  have short: "length (dropWhile ?p ?rs) \<le> length ?rs" by (rule length_dropWhile_le)
  show "queue_books (start_next_runtime_mutation a)"
    using assms sub short
    by (auto simp: start_next_runtime_mutation_def start_loop_run queue_books_def outstanding_def update_queue_def
        split: list.splits dest: list_emb_append2 intro: subseq_order.trans)
  show "work_conserving (start_next_runtime_mutation a)"
    by (auto simp: start_next_runtime_mutation_def start_loop_run work_conserving_def update_queue_def split: list.splits)
qed

lemma start_next_frame:
  "ac_timers (start_next_runtime_mutation a) = ac_timers a"
  "ac_shutdown_gen (start_next_runtime_mutation a) = ac_shutdown_gen a"
  "ac_disposed (start_next_runtime_mutation a) = ac_disposed a"
  "ac_clients (start_next_runtime_mutation a) = ac_clients a"
  "ac_finished (start_next_runtime_mutation a) = ac_finished a"
  by (auto simp: start_next_runtime_mutation_def start_loop_run update_queue_def split: list.split)

lemma schedule_frame:
  "ac_queue (schedule_shutdown_if_idle busy a) = ac_queue a"
  "ac_spawned (schedule_shutdown_if_idle busy a) = ac_spawned a"
  "ac_accepted (schedule_shutdown_if_idle busy a) = ac_accepted a"
  "ac_finished (schedule_shutdown_if_idle busy a) = ac_finished a"
  "ac_clients (schedule_shutdown_if_idle busy a) = ac_clients a"
  "ac_disposed (schedule_shutdown_if_idle busy a) = ac_disposed a"
  by (simp_all add: schedule_shutdown_if_idle_def cancel_shutdown_timer_def)

lemma schedule_books [simp]:
  "queue_books (schedule_shutdown_if_idle busy a) = queue_books a"
  "work_conserving (schedule_shutdown_if_idle busy a) = work_conserving a"
  by (simp_all add: queue_books_def work_conserving_def schedule_frame)

lemma schedule_timers:
  "\<forall>g \<in> set (ac_timers a). g \<le> ac_shutdown_gen a \<Longrightarrow> timers_ok (schedule_shutdown_if_idle busy a)"
  by (auto simp: timers_ok_def schedule_shutdown_if_idle_def cancel_shutdown_timer_def)

section \<open>The invariant\<close>

definition actor_inv :: "'m actor \<Rightarrow> bool" where
  "actor_inv a \<longleftrightarrow> queue_books a \<and> work_conserving a \<and> timers_ok a"

lemma timers_ok_le: "timers_ok a \<Longrightarrow> \<forall>g \<in> set (ac_timers a). g \<le> ac_shutdown_gen a"
  by (simp add: timers_ok_def)

lemma timers_ok_cancelled:
  "timers_ok a \<Longrightarrow> ac_timers b = ac_timers a \<Longrightarrow> ac_shutdown_gen b = ac_shutdown_gen a + 1 \<Longrightarrow> timers_ok b"
  by (fastforce simp: timers_ok_def)

lemma dispose_inv: "actor_inv a \<Longrightarrow> actor_inv (dispose_client busy c a)"
proof -
  assume inv: "actor_inv a"
  define kept where "kept = filter (\<lambda>r. qm_client_id r \<noteq> c) (mq_pending (ac_queue a))"
  have shorter: "length kept \<le> length (mq_pending (ac_queue a))" "kept \<noteq> [] \<Longrightarrow> mq_pending (ac_queue a) \<noteq> []"
    by (auto simp: kept_def)
  have "subseq (ac_spawned a @ kept) (ac_spawned a @ mq_pending (ac_queue a))"
    unfolding kept_def by (intro list_emb_append_mono subseq_filter_left subseq_order.refl)
  then have "subseq (ac_spawned a @ kept) (ac_accepted a)"
    using inv unfolding actor_inv_def queue_books_def by (meson subseq_order.trans)
  moreover have "cancel_queued_runtime_mutations c a = update_queue (\<lambda>q. q\<lparr>mq_pending := kept,
      mq_in_flight := mq_in_flight q - (length (mq_pending q) - length kept)\<rparr>) a"
    by (simp add: cancel_queued_runtime_mutations_def update_queue_def kept_def Let_def)
  moreover have "\<forall>g \<in> set (ac_timers a). g \<le> ac_shutdown_gen a" using inv by (simp add: actor_inv_def timers_ok_le)
  ultimately show ?thesis
    using inv shorter
    by (auto simp: dispose_client_def actor_inv_def Let_def queue_books_def work_conserving_def schedule_frame
        outstanding_def update_queue_def intro!: schedule_timers)
qed

lemma request_inv: "actor_inv a \<Longrightarrow> actor_inv (start_runtime_mutation c i m a)"
proof (cases "outstanding (ac_queue a) \<ge> max_mutations")
  case True
  then show "actor_inv a \<Longrightarrow> ?thesis"
    by (simp add: start_runtime_mutation_def actor_inv_def queue_books_def work_conserving_def timers_ok_def)
next
  case False
  assume inv: "actor_inv a"
  let ?r = "\<lparr>qm_client_id = c, qm_request_id = i, qm_mutation = m\<rparr>"
  let ?b = "(update_queue (\<lambda>q. q\<lparr>mq_in_flight := mq_in_flight q + 1, mq_pending := mq_pending q @ [?r]\<rparr>)
      (cancel_shutdown_timer a))\<lparr>ac_accepted := ac_accepted (cancel_shutdown_timer a) @ [?r]\<rparr>"
  have "subseq ((ac_spawned a @ mq_pending (ac_queue a)) @ [?r]) (ac_accepted a @ [?r])"
    using inv by (intro list_emb_append_mono) (simp_all add: actor_inv_def queue_books_def)
  then have "queue_books ?b"
    using inv False
    by (auto simp: actor_inv_def queue_books_def outstanding_def update_queue_def cancel_shutdown_timer_def)
  moreover have "timers_ok (start_next_runtime_mutation ?b)"
    using inv by (auto simp: actor_inv_def start_next_frame update_queue_def cancel_shutdown_timer_def
        intro: timers_ok_cancelled)
  moreover have "start_runtime_mutation c i m a = start_next_runtime_mutation ?b"
    using False by (simp add: start_runtime_mutation_def Let_def)
  ultimately show ?thesis
    unfolding actor_inv_def using start_next_books [of ?b] by metis
qed

text \<open>Both completions: the books are right before the next task is looked for.\<close>

lemma completion_inv:
  assumes "queue_books b" "\<forall>g \<in> set (ac_timers b). g \<le> ac_shutdown_gen b"
  shows "actor_inv (schedule_shutdown_if_idle busy (start_next_runtime_mutation b))"
  using assms start_next_books [OF assms(1)] by (simp add: actor_inv_def schedule_timers start_next_frame)

lemma finished_inv: "actor_inv a \<Longrightarrow> mq_active (ac_queue a) \<Longrightarrow> actor_inv (complete_runtime_mutation busy a)"
  unfolding complete_runtime_mutation_def
  by (rule completion_inv) (auto simp: actor_inv_def queue_books_def outstanding_def update_queue_def timers_ok_def)

lemma write_ends_inv: "actor_inv a \<Longrightarrow> mq_file_writes (ac_queue a) > 0 \<Longrightarrow> actor_inv (complete_workspace_file_write busy a)"
  unfolding complete_workspace_file_write_def
  by (rule completion_inv) (auto simp: actor_inv_def queue_books_def outstanding_def update_queue_def timers_ok_def)

lemma write_begins_inv: "actor_inv a \<Longrightarrow> actor_inv (begin_workspace_file_write a)"
  by (auto simp: actor_inv_def queue_books_def work_conserving_def outstanding_def update_queue_def
      begin_workspace_file_write_def cancel_shutdown_timer_def intro: timers_ok_cancelled)

lemma schedule_inv: "actor_inv a \<Longrightarrow> actor_inv (schedule_shutdown_if_idle busy a)"
  by (simp add: actor_inv_def schedule_timers timers_ok_le)

lemma tick_inv:
  assumes "actor_inv a" "set ts \<subseteq> set (ac_timers a)"
  shows "actor_inv (handle_shutdown_tick generating busy owned g (a\<lparr>ac_timers := ts\<rparr>))"
proof -
  have b: "actor_inv (a\<lparr>ac_timers := ts\<rparr>)"
    using assms by (auto simp: actor_inv_def queue_books_def work_conserving_def timers_ok_def)
  then have "actor_inv (a\<lparr>ac_timers := ts, ac_disposed := True\<rparr>)"
    by (simp add: actor_inv_def queue_books_def work_conserving_def timers_ok_def)
  with b show ?thesis by (simp add: handle_shutdown_tick_def schedule_inv)
qed

lemma actor_step_inv: "actor_step a b \<Longrightarrow> actor_inv a \<Longrightarrow> actor_inv b"
proof (induction rule: actor_step.induct)
  case (tick g a generating busy owned)
  then show ?case by (simp add: tick_inv set_remove1_subset)
next
  case (connect a c)
  then show ?case by (simp add: actor_inv_def queue_books_def work_conserving_def timers_ok_def)
qed (simp_all add: dispose_inv request_inv finished_inv write_ends_inv write_begins_inv schedule_inv)

lemma reachable_inv: "reachable_actor a \<Longrightarrow> actor_inv a"
proof (induction rule: reachable_actor.induct)
  case start
  then show ?case
    by (simp add: actor_inv_def queue_books_def work_conserving_def timers_ok_def initial_actor_def outstanding_def)
qed (rule actor_step_inv)

text \<open>
  C7: Runtime mutations run one at a time, in the order they were accepted.  In every state the actor can
  reach, at most one spawned mutation has not reported back, the mutations spawned so far followed by those
  still queued are a subsequence of the accepted ones (only requests of clients that left are skipped), at
  most 256 are running or queued, nothing waits while neither a mutation nor a file write is in progress,
  and the counter that blocks conflicting requests equals the work that is really outstanding.
\<close>

theorem mutations_run_one_at_a_time_in_order:
  assumes "reachable_actor a"
  shows "length (ac_spawned a) = ac_finished a + of_bool (mq_active (ac_queue a))
    \<and> subseq (ac_spawned a @ mq_pending (ac_queue a)) (ac_accepted a)
    \<and> of_bool (mq_active (ac_queue a)) + length (mq_pending (ac_queue a)) \<le> 256
    \<and> (mq_pending (ac_queue a) = [] \<or> mq_active (ac_queue a) \<or> mq_file_writes (ac_queue a) > 0)
    \<and> mq_in_flight (ac_queue a) = outstanding (ac_queue a)"
  using reachable_inv [OF assms]
  by (auto simp: actor_inv_def queue_books_def work_conserving_def max_mutations_def)

lemma reachable_connect: "reachable_actor a \<Longrightarrow> reachable_actor (a\<lparr>ac_clients := c # ac_clients a\<rparr>)"
  by (erule reachable_actor.step) (rule actor_step.connect)

text \<open>A client connects and asks twice: the first request runs, the second waits.\<close>

definition demo_actor :: "nat actor" where
  "demo_actor = start_runtime_mutation 1 11 5 (start_runtime_mutation 1 10 4 (initial_actor\<lparr>ac_clients := [1]\<rparr>))"

lemma demo_actor_reachable: "reachable_actor demo_actor"
  unfolding demo_actor_def
  by (intro reachable_actor.step [OF _ actor_step.request])
    (use reachable_connect [OF reachable_actor.start, of 1] in \<open>simp add: initial_actor_def\<close>)

theorem mutations_run_one_at_a_time_in_order_witness:
  "map qm_request_id (ac_spawned demo_actor @ mq_pending (ac_queue demo_actor)) = [10, 11]
    \<and> mq_in_flight (ac_queue demo_actor) = 2 \<and> outstanding (ac_queue demo_actor) = 2"
proof -
  have "map qm_request_id (ac_spawned demo_actor @ mq_pending (ac_queue demo_actor)) = [10, 11]"
    "mq_in_flight (ac_queue demo_actor) = 2"
    by (simp_all add: demo_actor_def initial_actor_def start_runtime_mutation_def start_next_runtime_mutation_def
        update_queue_def cancel_shutdown_timer_def outstanding_def max_mutations_def Let_def)
  with mutations_run_one_at_a_time_in_order [OF demo_actor_reachable] show ?thesis by simp
qed

text \<open>
  C19: The idle shutdown does not cut off a mutation.  Whenever a timer disposes of the actor, no mutation is
  running or queued and no file write is in progress, although the shutdown tick itself does not look at the
  queue: a timer is armed only when the queue is empty, and every piece of work that enters makes the armed
  timers stale.
\<close>

theorem no_shutdown_under_mutations:
  assumes "reachable_actor a" "actor_step a b" "\<not> ac_disposed a" "ac_disposed b"
  shows "outstanding (ac_queue a) = 0 \<and> ac_queue b = ac_queue a"
  using assms(2)
proof (cases rule: actor_step.cases)
  case (tick g generating busy owned)
  have "timers_ok a" using reachable_inv [OF assms(1)] by (simp add: actor_inv_def)
  with tick assms(3,4) show ?thesis
    by (auto simp: handle_shutdown_tick_def schedule_frame timers_ok_def split: if_splits)
qed (use assms(3,4) in \<open>auto simp: dispose_client_def start_runtime_mutation_def complete_runtime_mutation_def
    begin_workspace_file_write_def complete_workspace_file_write_def start_next_frame schedule_frame
    cancel_queued_runtime_mutations_def update_queue_def cancel_shutdown_timer_def Let_def split: if_splits\<close>)

definition idle_actor :: "nat actor" where
  "idle_actor = schedule_shutdown_if_idle False initial_actor"

theorem no_shutdown_under_mutations_witness:
  "ac_disposed (handle_shutdown_tick False False False 1 (idle_actor\<lparr>ac_timers := remove1 1 (ac_timers idle_actor)\<rparr>))
    \<and> outstanding (ac_queue idle_actor) = 0"
proof -
  have idle: "ac_timers idle_actor = [1]" "ac_shutdown_gen idle_actor = 1" "\<not> ac_disposed idle_actor"
    by (simp_all add: idle_actor_def initial_actor_def schedule_shutdown_if_idle_def outstanding_def)
  have reach: "reachable_actor idle_actor"
    unfolding idle_actor_def by (rule reachable_actor.step [OF reachable_actor.start actor_step.idle])
  have gone: "ac_disposed (handle_shutdown_tick False False False 1 (idle_actor\<lparr>ac_timers := remove1 1 (ac_timers idle_actor)\<rparr>))"
    using idle by (simp add: handle_shutdown_tick_def)
  have "actor_step idle_actor (handle_shutdown_tick False False False 1 (idle_actor\<lparr>ac_timers := remove1 1 (ac_timers idle_actor)\<rparr>))"
    by (rule actor_step.tick) (simp add: idle)
  from no_shutdown_under_mutations [OF reach this idle(3) gone] gone show ?thesis by simp
qed

section \<open>Progress\<close>

definition connected_pending :: "'m actor \<Rightarrow> 'm queued_mutation list" where
  "connected_pending a = filter (\<lambda>r. qm_client_id r \<in> set (ac_clients a)) (mq_pending (ac_queue a))"

lemma filter_dropWhile_gone:
  "filter p xs = (case dropWhile (\<lambda>x. \<not> p x) xs of [] \<Rightarrow> [] | x # rest \<Rightarrow> x # filter p rest)"
  by (induction xs) auto

text \<open>A completion starts the next request of a client that is still connected.\<close>

lemma completion_starts_next:
  fixes a :: "'m actor" and busy :: bool
  assumes "mq_active (ac_queue a)" "mq_file_writes (ac_queue a) = 0"
  defines "b \<equiv> complete_runtime_mutation busy a"
  shows "mq_file_writes (ac_queue b) = 0" "ac_clients b = ac_clients a"
    "case connected_pending a of
       [] \<Rightarrow> \<not> mq_active (ac_queue b) \<and> mq_pending (ac_queue b) = [] \<and> ac_spawned b = ac_spawned a
     | r # rest \<Rightarrow> mq_active (ac_queue b) \<and> ac_spawned b = ac_spawned a @ [r] \<and> connected_pending b = rest"
proof -
  let ?gone = "\<lambda>r. qm_client_id r \<notin> set (ac_clients a)"
  have conn: "connected_pending a = (case dropWhile ?gone (mq_pending (ac_queue a)) of [] \<Rightarrow> []
      | r # rest \<Rightarrow> r # filter (\<lambda>r. qm_client_id r \<in> set (ac_clients a)) rest)"
    unfolding connected_pending_def by (rule filter_dropWhile_gone)
  show frame: "mq_file_writes (ac_queue b) = 0" "ac_clients b = ac_clients a"
    using assms(1,2) unfolding b_def complete_runtime_mutation_def
    by (auto simp: schedule_frame start_next_frame start_next_runtime_mutation_def start_loop_run update_queue_def
        split: list.split)
  show "case connected_pending a of
       [] \<Rightarrow> \<not> mq_active (ac_queue b) \<and> mq_pending (ac_queue b) = [] \<and> ac_spawned b = ac_spawned a
     | r # rest \<Rightarrow> mq_active (ac_queue b) \<and> ac_spawned b = ac_spawned a @ [r] \<and> connected_pending b = rest"
    unfolding conn connected_pending_def [of b] frame(2) using assms(1,2)
    by (cases "dropWhile ?gone (mq_pending (ac_queue a))")
      (simp_all add: b_def complete_runtime_mutation_def schedule_frame start_next_runtime_mutation_def start_loop_run
        update_queue_def del: dropWhile_eq_Nil_conv)
qed

lemma drain:
  assumes "mq_active (ac_queue a)" "mq_file_writes (ac_queue a) = 0"
  shows "(\<forall>j \<le> length (connected_pending a). mq_active (ac_queue ((complete_runtime_mutation busy ^^ j) a)))
    \<and> (let b = (complete_runtime_mutation busy ^^ Suc (length (connected_pending a))) a in
       ac_spawned b = ac_spawned a @ connected_pending a \<and> \<not> mq_active (ac_queue b)
       \<and> mq_pending (ac_queue b) = [] \<and> mq_file_writes (ac_queue b) = 0)"
  using assms
proof (induction "connected_pending a" arbitrary: a)
  case Nil
  then show ?case using completion_starts_next [of a busy] Nil(1) [symmetric] by simp
next
  case (Cons r rest)
  let ?b = "complete_runtime_mutation busy a"
  have b: "mq_active (ac_queue ?b)" "ac_spawned ?b = ac_spawned a @ [r]" "connected_pending ?b = rest"
    "mq_file_writes (ac_queue ?b) = 0"
    using completion_starts_next [OF Cons.prems, of busy] Cons(2) [symmetric] by simp_all
  have iter: "(complete_runtime_mutation busy ^^ Suc j) a = (complete_runtime_mutation busy ^^ j) ?b" for j
    by (simp add: funpow_swap1)
  have len: "connected_pending a = r # rest" using Cons(2) by simp
  show ?case
  proof (intro conjI allI impI)
    fix j
    assume j: "j \<le> length (connected_pending a)"
    show "mq_active (ac_queue ((complete_runtime_mutation busy ^^ j) a))"
    proof (cases j)
      case (Suc i)
      with j have "i \<le> length (connected_pending ?b)" by (simp add: len b(3))
      with Cons.hyps(1) [OF b(3) [symmetric] b(1,4)] show ?thesis unfolding Suc iter by blast
    qed (simp add: Cons.prems(1))
  next
    show "let b = (complete_runtime_mutation busy ^^ Suc (length (connected_pending a))) a in
       ac_spawned b = ac_spawned a @ connected_pending a \<and> \<not> mq_active (ac_queue b)
       \<and> mq_pending (ac_queue b) = [] \<and> mq_file_writes (ac_queue b) = 0"
      using Cons.hyps(1) [OF b(3) [symmetric] b(1,4)]
      by (simp add: len iter [of "Suc (length rest)"] b(2,3) Let_def del: funpow.simps(2))
  qed
qed

text \<open>
  C20: Every queued mutation gets its turn.  Once no file write is in progress, each report of the running
  mutation starts the next queued request whose client is still connected: as many reports as there are such
  requests, plus one for the mutation that was running, start all of them in order and leave the queue empty,
  and until then there always is a running mutation to report.
\<close>

theorem queued_mutations_get_their_turn:
  assumes "reachable_actor a" "mq_file_writes (ac_queue a) = 0" "has_runtime_mutations (ac_queue a)"
  shows "\<exists>b. b = (complete_runtime_mutation busy ^^ Suc (length (connected_pending a))) a \<and> reachable_actor b
    \<and> ac_spawned b = ac_spawned a @ connected_pending a \<and> outstanding (ac_queue b) = 0"
proof -
  have inv: "actor_inv a" by (rule reachable_inv [OF assms(1)])
  then have act: "mq_active (ac_queue a)"
    using assms(2,3)
    by (auto simp: actor_inv_def queue_books_def work_conserving_def outstanding_def has_runtime_mutations_def)
  note d = drain [OF act assms(2), of busy]
  have "reachable_actor ((complete_runtime_mutation busy ^^ j) a)" if "j \<le> Suc (length (connected_pending a))" for j
    using that
  proof (induction j)
    case (Suc j)
    then show ?case using d by (auto intro: reachable_actor.step actor_step.finished)
  qed (simp add: assms(1))
  with d show ?thesis by (auto simp: Let_def outstanding_def simp del: funpow.simps(2))
qed

theorem queued_mutations_get_their_turn_witness:
  "\<exists>b :: nat actor. reachable_actor b \<and> map qm_request_id (ac_spawned b) = [10, 11] \<and> outstanding (ac_queue b) = 0"
proof -
  have d: "mq_file_writes (ac_queue demo_actor) = 0" "has_runtime_mutations (ac_queue demo_actor)"
    "map qm_request_id (ac_spawned demo_actor @ connected_pending demo_actor) = [10, 11]"
    by (simp_all add: demo_actor_def initial_actor_def start_runtime_mutation_def start_next_runtime_mutation_def
        update_queue_def cancel_shutdown_timer_def outstanding_def max_mutations_def Let_def
        has_runtime_mutations_def connected_pending_def)
  obtain b where "reachable_actor b" "ac_spawned b = ac_spawned demo_actor @ connected_pending demo_actor"
    "outstanding (ac_queue b) = 0"
    using queued_mutations_get_their_turn [OF demo_actor_reachable d(1,2), where busy = False] by blast
  with d(3) show ?thesis by (intro exI [of _ b]) simp
qed

end
