(* ===== verification/Store_Monad.thy ===== *)
theory Store_Monad
  imports Prelude
begin

text \<open>
  Statements and transactions of a relational store.  A statement is a function from the store to a
  result and the store after it; an error keeps the store it happened in, and only the enclosing
  \<open>atomic\<close> (a transaction that is dropped without a commit) takes the changes back.  The locale
  \<open>txn_preorder\<close> collects how a reflexive and transitive relation between stores is kept by every way of
  composing statements: it carries both the frame properties and the monotonicity of the journals.
\<close>

section \<open>Statements\<close>

named_theorems txn_simps \<open>success and failure of composed statements\<close>
named_theorems txn_intros \<open>composition rules for relations kept by statements\<close>

type_synonym ('s, 'e, 'a) txn = "'s \<Rightarrow> ('e + 'a) \<times> 's"

definition okT :: "'a \<Rightarrow> ('s, 'e, 'a) txn" where
  "okT x s = (Inr x, s)"

definition failT :: "'e \<Rightarrow> ('s, 'e, 'a) txn" where
  "failT e s = (Inl e, s)"

definition bindT :: "('s, 'e, 'a) txn \<Rightarrow> ('a \<Rightarrow> ('s, 'e, 'b) txn) \<Rightarrow> ('s, 'e, 'b) txn" where
  "bindT m f s = (case m s of (Inl e, s') \<Rightarrow> (Inl e, s') | (Inr x, s') \<Rightarrow> f x s')"

definition thenT :: "('s, 'e, 'a) txn \<Rightarrow> ('s, 'e, 'b) txn \<Rightarrow> ('s, 'e, 'b) txn" where
  "thenT m n = bindT m (\<lambda>_. n)"

definition getsT :: "('s \<Rightarrow> 'a) \<Rightarrow> ('s, 'e, 'a) txn" where
  "getsT f s = (Inr (f s), s)"

definition modifyT :: "('s \<Rightarrow> 's) \<Rightarrow> ('s, 'e, unit) txn" where
  "modifyT f s = (Inr (), f s)"

definition guardT :: "bool \<Rightarrow> 'e \<Rightarrow> ('s, 'e, unit) txn" where
  "guardT b e s = (if b then Inr () else Inl e, s)"

definition whenT :: "bool \<Rightarrow> ('s, 'e, unit) txn \<Rightarrow> ('s, 'e, unit) txn" where
  "whenT b m = (if b then m else okT ())"

definition liftT :: "'e + 'a \<Rightarrow> ('s, 'e, 'a) txn" where
  "liftT r s = (r, s)"

primrec forT :: "'a list \<Rightarrow> ('a \<Rightarrow> ('s, 'e, unit) txn) \<Rightarrow> ('s, 'e, unit) txn" where
  "forT [] f = okT ()"
| "forT (x # xs) f = thenT (f x) (forT xs f)"

text \<open>A transaction: the changes of a failed body are rolled back.\<close>

definition atomic :: "('s, 'e, 'a) txn \<Rightarrow> ('s, 'e, 'a) txn" where
  "atomic m s = (case m s of (Inl e, _) \<Rightarrow> (Inl e, s) | (Inr x, s') \<Rightarrow> (Inr x, s'))"

lemma bindT_Inr_iff [txn_simps]:
  "bindT m f s = (Inr y, s'') \<longleftrightarrow> (\<exists>x s'. m s = (Inr x, s') \<and> f x s' = (Inr y, s''))"
  by (auto simp: bindT_def split: prod.splits sum.splits)

lemma bindT_Inl_iff:
  "bindT m f s = (Inl e, s'') \<longleftrightarrow>
    m s = (Inl e, s'') \<or> (\<exists>x s'. m s = (Inr x, s') \<and> f x s' = (Inl e, s''))"
  by (auto simp: bindT_def split: prod.splits sum.splits)

lemma thenT_Inr_iff [txn_simps]:
  "thenT m n s = (Inr y, s'') \<longleftrightarrow> (\<exists>x s'. m s = (Inr x, s') \<and> n s' = (Inr y, s''))"
  by (simp add: thenT_def bindT_Inr_iff)

lemma basic_Inr_iff [txn_simps]:
  "okT x s = (Inr y, s') \<longleftrightarrow> y = x \<and> s' = s"
  "failT e s = (Inr y, s') \<longleftrightarrow> False"
  "getsT f s = (Inr y, s') \<longleftrightarrow> y = f s \<and> s' = s"
  "modifyT g s = (Inr u, s') \<longleftrightarrow> s' = g s"
  "guardT b e s = (Inr u, s') \<longleftrightarrow> b \<and> s' = s"
  "liftT r s = (Inr y, s') \<longleftrightarrow> r = Inr y \<and> s' = s"
  by (auto simp: okT_def failT_def getsT_def modifyT_def guardT_def liftT_def)

lemma whenT_Inr_iff [txn_simps]:
  "whenT b m s = (Inr u, s') \<longleftrightarrow> (if b then m s = (Inr u, s') else s' = s)"
  by (auto simp: whenT_def okT_def)

lemma atomic_Inr_iff [txn_simps]: "atomic m s = (Inr x, s') \<longleftrightarrow> m s = (Inr x, s')"
  by (auto simp: atomic_def split: prod.splits sum.splits)

lemma atomic_Inl_iff: "atomic m s = (Inl e, s') \<longleftrightarrow> s' = s \<and> (\<exists>s''. m s = (Inl e, s''))"
  by (auto simp: atomic_def split: prod.splits sum.splits)

lemma atomic_error: "fst (atomic m s) = Inl e \<Longrightarrow> snd (atomic m s) = s"
  by (auto simp: atomic_def split: prod.splits sum.splits)

lemma forT_Inr_append:
  "forT (xs @ ys) f s = (Inr u, s'') \<longleftrightarrow> (\<exists>s'. forT xs f s = (Inr (), s') \<and> forT ys f s' = (Inr u, s''))"
  by (induction xs arbitrary: s) (auto simp: txn_simps)

lemma forT_invariant:
  assumes "forT xs f s = (Inr u, s')" "P [] s"
    and "\<And>ys x s s'. set (ys @ [x]) \<subseteq> set xs \<Longrightarrow> P ys s \<Longrightarrow> f x s = (Inr (), s') \<Longrightarrow> P (ys @ [x]) s'"
  shows "P xs s'"
  using assms
proof (induction xs arbitrary: s' u rule: rev_induct)
  case Nil
  then show ?case by (simp add: okT_def)
next
  case (snoc x xs)
  from snoc(2) obtain s1 where s1: "forT xs f s = (Inr (), s1)" "f x s1 = (Inr (), s')"
    by (auto simp: forT_Inr_append txn_simps)
  have "P xs s1"
    by (rule snoc(1) [OF s1(1) snoc(3)]) (rule snoc(4), auto)
  then show ?case
    by (rule snoc(4) [rotated]) (use s1(2) in auto)
qed

section \<open>Evaluation\<close>

text \<open>Rewrite rules that run a statement on a concrete store.\<close>

lemmas txn_run = okT_def failT_def getsT_def modifyT_def guardT_def liftT_def bindT_def thenT_def
  whenT_def atomic_def

section \<open>Errors of a statement\<close>

definition fails_within :: "'e set \<Rightarrow> ('s, 'e, 'a) txn \<Rightarrow> bool" where
  "fails_within E m \<longleftrightarrow> (\<forall>s e s'. m s = (Inl e, s') \<longrightarrow> e \<in> E)"

lemma fails_withinD: "fails_within E m \<Longrightarrow> m s = (Inl e, s') \<Longrightarrow> e \<in> E"
  by (auto simp: fails_within_def)

lemma fails_within_basic:
  "fails_within E (okT x)" "fails_within E (getsT f)" "fails_within E (modifyT g)"
  by (simp_all add: fails_within_def okT_def getsT_def modifyT_def)

lemma fails_within_guard: "e \<in> E \<Longrightarrow> fails_within E (guardT b e)"
  by (simp add: fails_within_def guardT_def)

lemma fails_within_bind: "fails_within E m \<Longrightarrow> (\<And>x. fails_within E (f x)) \<Longrightarrow> fails_within E (bindT m f)"
  unfolding fails_within_def bindT_Inl_iff by blast

lemma fails_within_then: "fails_within E m \<Longrightarrow> fails_within E n \<Longrightarrow> fails_within E (thenT m n)"
  unfolding thenT_def by (rule fails_within_bind)

lemma fails_within_when: "fails_within E m \<Longrightarrow> fails_within E (whenT b m)"
  by (simp add: whenT_def fails_within_basic)

lemma fails_within_for: "(\<And>x. fails_within E (f x)) \<Longrightarrow> fails_within E (forT xs f)"
  by (induction xs) (simp_all add: fails_within_basic fails_within_then)

lemma fails_within_atomic: "fails_within E m \<Longrightarrow> fails_within E (atomic m)"
  by (auto simp: fails_within_def atomic_Inl_iff)

lemmas fails_within_intros = fails_within_basic fails_within_guard fails_within_bind fails_within_then
  fails_within_when fails_within_for fails_within_atomic

section \<open>Invariants of operations\<close>

definition preserves :: "('s \<Rightarrow> bool) \<Rightarrow> ('s, 'e, 'a) txn \<Rightarrow> bool" where
  "preserves P m \<longleftrightarrow> (\<forall>s. P s \<longrightarrow> P (snd (m s)))"

lemma preservesI: "(\<And>s r s'. P s \<Longrightarrow> m s = (r, s') \<Longrightarrow> P s') \<Longrightarrow> preserves P m"
  unfolding preserves_def by (metis prod.collapse)

lemma preservesD: "preserves P m \<Longrightarrow> P s \<Longrightarrow> m s = (r, s') \<Longrightarrow> P s'"
  unfolding preserves_def by (metis snd_conv)

lemma preserves_basic:
  "preserves P (okT x)" "preserves P (failT e)" "preserves P (getsT f)" "preserves P (guardT b e')"
  "preserves P (liftT r)"
  by (simp_all add: preserves_def okT_def failT_def getsT_def guardT_def liftT_def)

lemma preserves_bind:
  assumes "preserves P m" "\<And>x. preserves P (f x)"
  shows "preserves P (bindT m f)"
proof (rule preservesI)
  fix s r s'
  assume "P s" and run: "bindT m f s = (r, s')"
  obtain r1 s1 where m: "m s = (r1, s1)" by fastforce
  with assms(1) \<open>P s\<close> have "P s1" by (blast dest: preservesD)
  with m run assms(2) show "P s'"
    by (cases r1) (auto simp: bindT_def dest: preservesD)
qed

lemma preserves_then: "preserves P m \<Longrightarrow> preserves P n \<Longrightarrow> preserves P (thenT m n)"
  unfolding thenT_def by (rule preserves_bind)

lemma preserves_when: "preserves P m \<Longrightarrow> preserves P (whenT b m)"
  by (simp add: whenT_def preserves_basic)

lemma preserves_if: "preserves P m \<Longrightarrow> preserves P n \<Longrightarrow> preserves P (if b then m else n)"
  by simp

lemma preserves_for: "(\<And>x. preserves P (f x)) \<Longrightarrow> preserves P (forT xs f)"
  by (induction xs) (simp_all add: preserves_basic preserves_then)

text \<open>A transaction only has to keep the invariant when it commits.\<close>

lemma preserves_atomic:
  assumes "\<And>s x s'. P s \<Longrightarrow> m s = (Inr x, s') \<Longrightarrow> P s'"
  shows "preserves P (atomic m)"
proof (rule preservesI)
  fix s r s'
  assume "P s" "atomic m s = (r, s')"
  then show "P s'"
    using assms by (cases r) (auto simp: atomic_Inr_iff atomic_Inl_iff)
qed

lemma preserves_transaction: "preserves P m \<Longrightarrow> preserves P (atomic m)"
  by (rule preserves_atomic) (blast dest: preservesD)

text \<open>Statements that only read.\<close>

definition readonly :: "('s, 'e, 'a) txn \<Rightarrow> bool" where
  "readonly m \<longleftrightarrow> (\<forall>s. snd (m s) = s)"

lemma readonlyD: "readonly m \<Longrightarrow> m s = (r, s') \<Longrightarrow> s' = s"
  unfolding readonly_def by (metis snd_conv)

text \<open>An invariant kept from one store, so that what was read there can be used.\<close>

definition keeps_at :: "('s \<Rightarrow> bool) \<Rightarrow> 's \<Rightarrow> ('s, 'e, 'a) txn \<Rightarrow> bool" where
  "keeps_at P s m \<longleftrightarrow> P (snd (m s))"

lemma transaction_cases:
  assumes "thenT (atomic m) n s = (r, s')" "readonly n"
  obtains (refused) e v where "r = Inl e" "s' = s" "m s = (Inl e, v)"
    | (committed) x where "m s = (Inr x, s')" "n s' = (r, s')"
proof (cases "m s")
  case (Pair q v)
  with assms(1) readonlyD [OF assms(2)] show thesis
    by (cases q) (auto simp: thenT_def bindT_def atomic_def intro: that)
qed

lemma committed_cases:
  assumes "thenT m n s = (r, s')" "readonly n" "\<And>e v. m s = (Inl e, v) \<Longrightarrow> v = s"
  obtains (refused) e where "r = Inl e" "s' = s" "m s = (Inl e, s)"
    | (committed) x where "m s = (Inr x, s')" "n s' = (r, s')"
proof (cases "m s")
  case (Pair q v)
  with assms(1,3) readonlyD [OF assms(2)] show thesis
    by (cases q) (auto simp: thenT_def bindT_def intro: that)
qed

lemma preserves_at: "(\<And>s. P s \<Longrightarrow> keeps_at P s m) \<Longrightarrow> preserves P m"
  by (simp add: preserves_def keeps_at_def)

lemma keeps_at_preserves: "preserves P m \<Longrightarrow> P s \<Longrightarrow> keeps_at P s m"
  by (simp add: preserves_def keeps_at_def)

lemma keeps_at_D: "keeps_at P s m \<Longrightarrow> m s = (r, s') \<Longrightarrow> P s'"
  unfolding keeps_at_def by (metis snd_conv)

lemma keeps_at_read:
  assumes "P s" "readonly m" "\<And>x. m s = (Inr x, s) \<Longrightarrow> keeps_at P s (f x)"
  shows "keeps_at P s (bindT m f)"
  using assms(1,3) readonlyD [OF assms(2), of s]
  by (auto simp: keeps_at_def bindT_def split: prod.splits sum.splits)

lemma keeps_at_guard: "P s \<Longrightarrow> (b \<Longrightarrow> keeps_at P s m) \<Longrightarrow> keeps_at P s (thenT (guardT b e) m)"
  by (simp add: keeps_at_def thenT_def bindT_def guardT_def)

lemma keeps_at_committed:
  assumes "P s" "readonly n" "\<And>x s'. m s = (Inr x, s') \<Longrightarrow> P s'" "\<And>e s'. m s = (Inl e, s') \<Longrightarrow> s' = s"
  shows "keeps_at P s (thenT m n)"
  using assms unfolding readonly_def keeps_at_def thenT_def bindT_def by (auto split: prod.splits sum.splits)

lemma keeps_at_commit:
  assumes "P s" "readonly n" "\<And>x s'. m s = (Inr x, s') \<Longrightarrow> P s'"
  shows "keeps_at P s (thenT (atomic m) n)"
  by (rule keeps_at_committed) (use assms in \<open>auto simp: atomic_Inr_iff atomic_Inl_iff\<close>)

lemma keeps_at_if: "(b \<Longrightarrow> keeps_at P s m) \<Longrightarrow> (\<not> b \<Longrightarrow> keeps_at P s n) \<Longrightarrow> keeps_at P s (if b then m else n)"
  by simp

lemmas preserves_intros = preserves_basic preserves_bind preserves_then preserves_when preserves_if preserves_for

section \<open>Relations kept by statements\<close>

definition obeys :: "('s \<Rightarrow> 's \<Rightarrow> bool) \<Rightarrow> ('s, 'e, 'a) txn \<Rightarrow> bool" where
  "obeys R m \<longleftrightarrow> (\<forall>s. R s (snd (m s)))"

lemma obeysI: "(\<And>s. R s (snd (m s))) \<Longrightarrow> obeys R m"
  by (simp add: obeys_def)

lemma obeysD: "obeys R m \<Longrightarrow> m s = (r, s') \<Longrightarrow> R s s'"
  unfolding obeys_def by (metis snd_conv)

locale txn_preorder =
  fixes R :: "'s \<Rightarrow> 's \<Rightarrow> bool"
  assumes R_refl: "R s s"
    and R_trans: "R s s' \<Longrightarrow> R s' s'' \<Longrightarrow> R s s''"
begin

lemma holds_basic:
  "obeys R (okT x)" "obeys R (failT e)" "obeys R (getsT f)" "obeys R (guardT b e')" "obeys R (liftT r)"
  by (simp_all add: obeys_def okT_def failT_def getsT_def guardT_def liftT_def R_refl)

lemma holds_modify: "(\<And>s. R s (g s)) \<Longrightarrow> obeys R (modifyT g)"
  by (simp add: obeys_def modifyT_def)

lemma holds_bind:
  assumes "obeys R m" "\<And>x. obeys R (f x)"
  shows "obeys R (bindT m f)"
proof (rule obeysI)
  fix s
  obtain r s' where "m s = (r, s')" by fastforce
  with assms show "R s (snd (bindT m f s))"
    unfolding obeys_def bindT_def by (cases r) (auto, metis snd_conv, metis R_trans snd_conv)
qed

lemma holds_then: "obeys R m \<Longrightarrow> obeys R n \<Longrightarrow> obeys R (thenT m n)"
  unfolding thenT_def by (rule holds_bind)

lemma holds_when: "obeys R m \<Longrightarrow> obeys R (whenT b m)"
  by (simp add: whenT_def holds_basic)

lemma holds_for: "(\<And>x. x \<in> set xs \<Longrightarrow> obeys R (f x)) \<Longrightarrow> obeys R (forT xs f)"
  by (induction xs) (simp_all add: holds_basic holds_then)

lemma holds_atomic: "obeys R m \<Longrightarrow> obeys R (atomic m)"
  unfolding obeys_def atomic_def
  by (auto split: prod.splits sum.splits simp: R_refl) (metis snd_conv)

lemmas holds_intros = holds_basic holds_bind holds_then holds_when holds_for holds_atomic

end

end
