(* ===== verification/Orchestration_Models.thy ===== *)
theory Orchestration_Models
  imports Prelude
begin

text \<open>
  The rows and enumerations of the orchestration store
  (\<open>alera-core/src/runtime/orchestration_models.rs\<close> and \<open>run_event_store.rs\<close>).  Each enumeration comes
  with the column text it is stored as (\<open>as_str\<close>) and the reader of that text (\<open>parse\<close>); the locale
  \<open>text_enum\<close> states what the store relies on, and every enumeration is an instance.  Strings are
  the UTF-8 bytes of the source's strings (a HOL \<open>char\<close> is a byte), time stamps are seconds.
\<close>

section \<open>Enumerations stored as text\<close>

locale text_enum =
  fixes as_str :: "'a \<Rightarrow> string" and parse :: "string \<Rightarrow> 'a option"
  assumes parse_as_str: "parse (as_str x) = Some x"
begin

lemma as_str_inject: "as_str x = as_str y \<longleftrightarrow> x = y"
  by (metis option.inject parse_as_str)

lemma column_test: "parse s = Some x \<Longrightarrow> (as_str y = as_str x) = (parse s = Some y)"
  by (auto simp: as_str_inject)

lemma parse_onto: "\<exists>s. parse s = Some x"
  using parse_as_str by blast

end

text \<open>An enumeration with exactly one text per value, so a column that parses is the value's text.\<close>

locale exact_text_enum = text_enum +
  assumes parse_exact: "parse s = Some x \<Longrightarrow> s = as_str x"
begin

lemma parse_iff: "parse s = Some x \<longleftrightarrow> s = as_str x"
  using parse_exact parse_as_str by blast

lemma rejected_iff: "parse s = None \<longleftrightarrow> s \<notin> range as_str"
  using parse_iff by (metis (no_types) not_None_eq rangeE rangeI option.distinct(1))

end

datatype message_type = MStatus | MDispatch | MMergeReady | MEscalation | MHandoff | MDecisionGate
  | MQuestion

primrec message_type_as_str :: "message_type \<Rightarrow> string" where
  "message_type_as_str MStatus = ''status''"
| "message_type_as_str MDispatch = ''dispatch''"
| "message_type_as_str MMergeReady = ''merge_ready''"
| "message_type_as_str MEscalation = ''escalation''"
| "message_type_as_str MHandoff = ''handoff''"
| "message_type_as_str MDecisionGate = ''decision_gate''"
| "message_type_as_str MQuestion = ''question''"

definition message_type_parse :: "string \<Rightarrow> message_type option" where
  "message_type_parse = map_of
    [(''status'', MStatus), (''dispatch'', MDispatch), (''merge_ready'', MMergeReady),
     (''escalation'', MEscalation), (''handoff'', MHandoff), (''decision_gate'', MDecisionGate),
     (''question'', MQuestion)]"

datatype message_delivery = DeliverNow | DeliverTurnEnd

primrec message_delivery_as_str :: "message_delivery \<Rightarrow> string" where
  "message_delivery_as_str DeliverNow = ''now''"
| "message_delivery_as_str DeliverTurnEnd = ''turn_end''"

definition message_delivery_parse :: "string \<Rightarrow> message_delivery option" where
  "message_delivery_parse = map_of
    [(''now'', DeliverNow), (''turn_end'', DeliverTurnEnd), (''turnEnd'', DeliverTurnEnd)]"

datatype activity_outcome = Ignored | Recorded | Revived

datatype message_priority = PNormal | PHigh | PUrgent

primrec message_priority_as_str :: "message_priority \<Rightarrow> string" where
  "message_priority_as_str PNormal = ''normal''"
| "message_priority_as_str PHigh = ''high''"
| "message_priority_as_str PUrgent = ''urgent''"

definition message_priority_parse :: "string \<Rightarrow> message_priority option" where
  "message_priority_parse = map_of [(''normal'', PNormal), (''high'', PHigh), (''urgent'', PUrgent)]"

datatype task_status = TPending | TReady | TDispatched | TCompleted | TFailed | TBlocked | TStalled
  | TCancelled

primrec task_status_as_str :: "task_status \<Rightarrow> string" where
  "task_status_as_str TPending = ''pending''"
| "task_status_as_str TReady = ''ready''"
| "task_status_as_str TDispatched = ''dispatched''"
| "task_status_as_str TCompleted = ''completed''"
| "task_status_as_str TFailed = ''failed''"
| "task_status_as_str TBlocked = ''blocked''"
| "task_status_as_str TStalled = ''stalled''"
| "task_status_as_str TCancelled = ''cancelled''"

definition task_status_parse :: "string \<Rightarrow> task_status option" where
  "task_status_parse = map_of
    [(''pending'', TPending), (''ready'', TReady), (''dispatched'', TDispatched),
     (''completed'', TCompleted), (''failed'', TFailed), (''blocked'', TBlocked),
     (''stalled'', TStalled), (''cancelled'', TCancelled)]"

datatype dispatch_status = DPending | DDispatched | DCompleted | DFailed | DCircuitBroken
  | DAwaitingAcceptance | DStartupFailed | DStalled | DCancelled | DSuperseded

primrec dispatch_status_as_str :: "dispatch_status \<Rightarrow> string" where
  "dispatch_status_as_str DPending = ''pending''"
| "dispatch_status_as_str DDispatched = ''dispatched''"
| "dispatch_status_as_str DCompleted = ''completed''"
| "dispatch_status_as_str DFailed = ''failed''"
| "dispatch_status_as_str DCircuitBroken = ''circuit_broken''"
| "dispatch_status_as_str DAwaitingAcceptance = ''awaiting_acceptance''"
| "dispatch_status_as_str DStartupFailed = ''startup_failed''"
| "dispatch_status_as_str DStalled = ''stalled''"
| "dispatch_status_as_str DCancelled = ''cancelled''"
| "dispatch_status_as_str DSuperseded = ''superseded''"

definition dispatch_status_parse :: "string \<Rightarrow> dispatch_status option" where
  "dispatch_status_parse = map_of
    [(''pending'', DPending), (''dispatched'', DDispatched), (''completed'', DCompleted),
     (''failed'', DFailed), (''circuit_broken'', DCircuitBroken),
     (''awaiting_acceptance'', DAwaitingAcceptance), (''startup_failed'', DStartupFailed),
     (''stalled'', DStalled), (''cancelled'', DCancelled), (''superseded'', DSuperseded)]"

datatype gate_status = GPending | GResolved | GTimeout | GInvalidated

primrec gate_status_as_str :: "gate_status \<Rightarrow> string" where
  "gate_status_as_str GPending = ''pending''"
| "gate_status_as_str GResolved = ''resolved''"
| "gate_status_as_str GTimeout = ''timeout''"
| "gate_status_as_str GInvalidated = ''invalidated''"

definition gate_status_parse :: "string \<Rightarrow> gate_status option" where
  "gate_status_parse = map_of
    [(''pending'', GPending), (''resolved'', GResolved), (''timeout'', GTimeout),
     (''invalidated'', GInvalidated)]"

datatype run_status = RPlanning | RAwaitingApproval | RRunning | RPaused | RCompleted | RFailed
  | RCancelled

primrec run_status_as_str :: "run_status \<Rightarrow> string" where
  "run_status_as_str RPlanning = ''planning''"
| "run_status_as_str RAwaitingApproval = ''awaitingApproval''"
| "run_status_as_str RRunning = ''running''"
| "run_status_as_str RPaused = ''paused''"
| "run_status_as_str RCompleted = ''completed''"
| "run_status_as_str RFailed = ''failed''"
| "run_status_as_str RCancelled = ''cancelled''"

definition run_status_parse :: "string \<Rightarrow> run_status option" where
  "run_status_parse = map_of
    [(''planning'', RPlanning), (''awaitingApproval'', RAwaitingApproval), (''running'', RRunning),
     (''paused'', RPaused), (''completed'', RCompleted), (''failed'', RFailed),
     (''cancelled'', RCancelled)]"

datatype gate_kind = KDecision | KStall | KPlan | KStage

primrec gate_kind_as_str :: "gate_kind \<Rightarrow> string" where
  "gate_kind_as_str KDecision = ''decision''"
| "gate_kind_as_str KStall = ''stall''"
| "gate_kind_as_str KPlan = ''plan''"
| "gate_kind_as_str KStage = ''stage''"

definition gate_kind_parse :: "string \<Rightarrow> gate_kind option" where
  "gate_kind_parse = map_of
    [(''decision'', KDecision), (''stall'', KStall), (''plan'', KPlan), (''stage'', KStage)]"

interpretation message_type_text: exact_text_enum message_type_as_str message_type_parse
proof
  show "message_type_parse (message_type_as_str x) = Some x" for x
    by (cases x) (simp_all add: message_type_parse_def)
  show "message_type_parse s = Some x \<Longrightarrow> s = message_type_as_str x" for s x
    by (auto simp: message_type_parse_def split: if_splits)
qed

interpretation message_delivery_text: text_enum message_delivery_as_str message_delivery_parse
proof
  show "message_delivery_parse (message_delivery_as_str x) = Some x" for x
    by (cases x) (simp_all add: message_delivery_parse_def)
qed

interpretation message_priority_text: exact_text_enum message_priority_as_str message_priority_parse
proof
  show "message_priority_parse (message_priority_as_str x) = Some x" for x
    by (cases x) (simp_all add: message_priority_parse_def)
  show "message_priority_parse s = Some x \<Longrightarrow> s = message_priority_as_str x" for s x
    by (auto simp: message_priority_parse_def split: if_splits)
qed

interpretation task_status_text: exact_text_enum task_status_as_str task_status_parse
proof
  show "task_status_parse (task_status_as_str x) = Some x" for x
    by (cases x) (simp_all add: task_status_parse_def)
  show "task_status_parse s = Some x \<Longrightarrow> s = task_status_as_str x" for s x
    by (auto simp: task_status_parse_def split: if_splits)
qed

interpretation dispatch_status_text: exact_text_enum dispatch_status_as_str dispatch_status_parse
proof
  show "dispatch_status_parse (dispatch_status_as_str x) = Some x" for x
    by (cases x) (simp_all add: dispatch_status_parse_def)
  show "dispatch_status_parse s = Some x \<Longrightarrow> s = dispatch_status_as_str x" for s x
    by (auto simp: dispatch_status_parse_def split: if_splits)
qed

interpretation gate_status_text: exact_text_enum gate_status_as_str gate_status_parse
proof
  show "gate_status_parse (gate_status_as_str x) = Some x" for x
    by (cases x) (simp_all add: gate_status_parse_def)
  show "gate_status_parse s = Some x \<Longrightarrow> s = gate_status_as_str x" for s x
    by (auto simp: gate_status_parse_def split: if_splits)
qed

interpretation run_status_text: exact_text_enum run_status_as_str run_status_parse
proof
  show "run_status_parse (run_status_as_str x) = Some x" for x
    by (cases x) (simp_all add: run_status_parse_def)
  show "run_status_parse s = Some x \<Longrightarrow> s = run_status_as_str x" for s x
    by (auto simp: run_status_parse_def split: if_splits)
qed

interpretation gate_kind_text: exact_text_enum gate_kind_as_str gate_kind_parse
proof
  show "gate_kind_parse (gate_kind_as_str x) = Some x" for x
    by (cases x) (simp_all add: gate_kind_parse_def)
  show "gate_kind_parse s = Some x \<Longrightarrow> s = gate_kind_as_str x" for s x
    by (auto simp: gate_kind_parse_def split: if_splits)
qed

section \<open>Rows\<close>

type_synonym timestamp = nat

datatype message_state = SQueued | SDelivered | SRead | SExpired | SObsolete

record message =
  m_id :: string
  m_from_handle :: string
  m_to_handle :: string
  m_subject :: string
  m_body :: string
  m_type :: message_type
  m_priority :: message_priority
  m_thread_id :: "string option"
  m_payload :: "string option"
  m_read :: bool
  m_sequence :: nat
  m_created_at :: timestamp
  m_delivered_at :: "timestamp option"
  m_run_id :: "string option"
  m_workspace_id :: "string option"
  m_task_id :: "string option"
  m_dispatch_id :: "string option"
  m_state :: message_state
  m_expires_at :: "timestamp option"
  m_obsolete_at :: "timestamp option"
  m_reply_to_id :: "string option"
  m_external_meta :: "string option"
  m_delivery :: message_delivery

record task =
  t_id :: string
  t_parent_id :: "string option"
  t_created_by_terminal_handle :: "string option"
  t_task_title :: "string option"
  t_display_name :: "string option"
  t_spec :: string
  t_status :: task_status
  t_deps :: "string list"
  t_result :: "string option"
  t_created_at :: timestamp
  t_completed_at :: "timestamp option"
  t_run_id :: "string option"
  t_workspace_id :: string
  t_coordinator_handle :: string
  t_result_schema :: "string option"
  t_startup_failure_count :: int
  t_cancelled_at :: "timestamp option"
  t_stalled_at :: "timestamp option"
  t_stage_id :: "string option"
  t_role_contract :: "string option"
  t_plan_revision :: "int option"
  t_logical_id :: "string option"

record dispatch =
  d_id :: string
  d_task_id :: string
  d_assignee_handle :: "string option"
  d_status :: dispatch_status
  d_failure_count :: int
  d_last_failure :: "string option"
  d_dispatched_at :: "timestamp option"
  d_completed_at :: "timestamp option"
  d_created_at :: timestamp
  d_run_id :: "string option"
  d_workspace_id :: string
  d_coordinator_handle :: string
  d_accepted_at :: "timestamp option"
  d_last_activity_at :: "timestamp option"
  d_context_token_hash :: "string option"
  d_terminal_policy :: string
  d_startup_error :: "string option"
  d_completion_sha :: "string option"
  d_agent_profile :: "string option"
  d_agent_quota_group :: "string option"

datatype run_actor_kind = ADesktop | AMobile | ACli | AMcp | AAgent | ARuntime

primrec run_actor_kind_as_str :: "run_actor_kind \<Rightarrow> string" where
  "run_actor_kind_as_str ADesktop = ''desktop''"
| "run_actor_kind_as_str AMobile = ''mobile''"
| "run_actor_kind_as_str ACli = ''cli''"
| "run_actor_kind_as_str AMcp = ''mcp''"
| "run_actor_kind_as_str AAgent = ''agent''"
| "run_actor_kind_as_str ARuntime = ''runtime''"

text \<open>A row of \<open>runGates\<close>; \<open>OrchestrationDecisionGate\<close> is the part of it that clients read.\<close>

record gate =
  g_id :: string
  g_run_id :: "string option"
  g_task_id :: "string option"
  g_kind :: gate_kind
  g_scope :: string
  g_question :: string
  g_options :: "string list"
  g_status :: gate_status
  g_resolution :: "string option"
  g_reason :: "string option"
  g_plan_revision :: "int option"
  g_evidence_digest :: "string option"
  g_integration_sha :: "string option"
  g_actor_kind :: "run_actor_kind option"
  g_actor_id :: "string option"
  g_audit_id :: "string option"
  g_created_at :: timestamp
  g_resolved_at :: "timestamp option"

datatype isolation = Shared | Isolated
datatype paused_by = PausedByUser | PausedByRuntime

record coordinator_run =
  r_id :: string
  r_spec :: string
  r_status :: run_status
  r_coordinator_handle :: "string option"
  r_poll_interval_ms :: int
  r_created_at :: timestamp
  r_completed_at :: "timestamp option"
  r_workspace_id :: string
  r_max_concurrent :: int
  r_last_activity_at :: timestamp
  r_stop_reason :: "string option"
  r_execution_policy :: "string option"
  r_isolation :: isolation
  r_approval_required :: bool
  r_paused_by :: "paused_by option"
  r_plan_revision :: "int option"
  r_coordinator_tab_id :: "string option"
  r_control_sequence :: int
  r_attention_reason :: "string option"
  r_stall_policy :: string

definition holds_workspace :: "coordinator_run \<Rightarrow> bool" where
  "holds_workspace r \<longleftrightarrow>
    r_status r \<in> {RPlanning, RAwaitingApproval, RRunning, RPaused}
    \<or> (r_status r = RCancelled \<and> r_completed_at r = None)"

datatype run_event_kind = ECreated | ECoordinatorStarted | EPlanProposed | EPlanApproved
  | EPlanRejected | EChangesRequested | ETaskCreated | EAttemptPrepared | EDispatched | EAccepted
  | EEscalation | ETaskCompleted | ETaskFailed | ETaskStalled | ETaskCancelled | EGateOpened
  | EGateResolved | EIntegrationStarted | EIntegrated | EConflict | EAttention | ERetried | EPaused
  | EResumed | ECancelled | ECompleted | EFailed | ECleanupPrepared | ECleanupApplied
  | ECleanupAbandoned

primrec run_event_kind_as_str :: "run_event_kind \<Rightarrow> string" where
  "run_event_kind_as_str ECreated = ''created''"
| "run_event_kind_as_str ECoordinatorStarted = ''coordinatorStarted''"
| "run_event_kind_as_str EPlanProposed = ''planProposed''"
| "run_event_kind_as_str EPlanApproved = ''planApproved''"
| "run_event_kind_as_str EPlanRejected = ''planRejected''"
| "run_event_kind_as_str EChangesRequested = ''changesRequested''"
| "run_event_kind_as_str ETaskCreated = ''taskCreated''"
| "run_event_kind_as_str EAttemptPrepared = ''attemptPrepared''"
| "run_event_kind_as_str EDispatched = ''dispatched''"
| "run_event_kind_as_str EAccepted = ''accepted''"
| "run_event_kind_as_str EEscalation = ''escalation''"
| "run_event_kind_as_str ETaskCompleted = ''taskCompleted''"
| "run_event_kind_as_str ETaskFailed = ''taskFailed''"
| "run_event_kind_as_str ETaskStalled = ''taskStalled''"
| "run_event_kind_as_str ETaskCancelled = ''taskCancelled''"
| "run_event_kind_as_str EGateOpened = ''gateOpened''"
| "run_event_kind_as_str EGateResolved = ''gateResolved''"
| "run_event_kind_as_str EIntegrationStarted = ''integrationStarted''"
| "run_event_kind_as_str EIntegrated = ''integrated''"
| "run_event_kind_as_str EConflict = ''conflict''"
| "run_event_kind_as_str EAttention = ''attention''"
| "run_event_kind_as_str ERetried = ''retried''"
| "run_event_kind_as_str EPaused = ''paused''"
| "run_event_kind_as_str EResumed = ''resumed''"
| "run_event_kind_as_str ECancelled = ''cancelled''"
| "run_event_kind_as_str ECompleted = ''completed''"
| "run_event_kind_as_str EFailed = ''failed''"
| "run_event_kind_as_str ECleanupPrepared = ''cleanupPrepared''"
| "run_event_kind_as_str ECleanupApplied = ''cleanupApplied''"
| "run_event_kind_as_str ECleanupAbandoned = ''cleanupAbandoned''"

text \<open>The stored row; \<open>kind\<close> and \<open>actor_kind\<close> keep the enumeration whose text is in the column.\<close>

record run_event =
  e_sequence :: nat
  e_id :: string
  e_run_id :: string
  e_task_id :: "string option"
  e_dispatch_id :: "string option"
  e_gate_id :: "string option"
  e_kind :: run_event_kind
  e_actor_kind :: "run_actor_kind option"
  e_actor_id :: "string option"
  e_summary :: string
  e_payload :: "string option"
  e_created_at :: timestamp

end
