(* ===== verification/Store_Tables.thy ===== *)
theory Store_Tables
  imports Store_Monad Orchestration_Models
begin

text \<open>
  The orchestration tables of the runtime database and the statements that write them.  A table is the
  list of its rows in insertion order.  An \<open>INSERT\<close> or \<open>UPDATE\<close> statement checks the constraints and
  the \<open>BEFORE\<close> triggers of the schema (\<open>runs_v3_schema.rs\<close>, \<open>run_launch_schema.rs\<close>, \<open>run_plan_schema.rs\<close>,
  \<open>run_execution.rs\<close>) on every row it touches, writes the rows, and runs the \<open>AFTER\<close> triggers: the board
  revision (\<open>orchestration_board_schema.rs\<close>), the event journal (\<open>runtime_event_store.rs\<close>), the inbox and
  conversation revisions and the invalidation of stage gates.  A failed statement changes nothing.
\<close>

section \<open>The database\<close>

datatype launch_status = LReserved | LStarting | LStarted | LAttention

record launch =
  l_id :: string
  l_run_id :: string
  l_revision :: int
  l_task_id :: string
  l_workspace_id :: string
  l_terminal_handle :: string
  l_dispatch_id :: string
  l_base_sha :: string
  l_context_hash :: string
  l_status :: launch_status
  l_error :: "string option"
  l_updated_at :: timestamp

datatype workspace_phase = WReserved | WCreating | WCreated | WSetupRunning | WReady | WAttention

record run_workspace =
  w_id :: string
  w_run_id :: string
  w_revision :: int
  w_task_id :: "string option"
  w_attempt :: int
  w_phase :: workspace_phase
  w_dispatch_id :: "string option"

record task_evidence =
  ev_task_id :: string
  ev_result_digest :: string
  ev_artifact_digest :: string
  ev_integration_sha :: string

record audit_event =
  au_id :: string
  au_actor_handle :: "string option"
  au_action :: string
  au_target_id :: "string option"
  au_reason :: string
  au_created_at :: timestamp

record runtime_event =
  x_seq :: nat
  x_id :: string
  x_kind :: string
  x_workspace_id :: "string option"
  x_project_id :: "string option"
  x_data :: string
  x_occurred_at :: timestamp
  x_forwarded_at :: "timestamp option"

record db =
  db_tasks :: "task list"
  db_dispatches :: "dispatch list"
  db_gates :: "gate list"
  db_messages :: "message list"
  db_runs :: "coordinator_run list"
  db_launches :: "launch list"
  db_run_workspaces :: "run_workspace list"
  db_task_evidence :: "task_evidence list"
  db_run_events :: "run_event list"
  db_audit_events :: "audit_event list"
  db_runtime_events :: "runtime_event list"
  db_message_sequence :: nat
  db_run_event_sequence :: nat
  db_runtime_event_sequence :: nat
  db_board_revision :: nat
  db_inbox_revision :: nat
  db_conversation_revision :: nat
  db_draws :: nat

text \<open>
  What an operation takes from outside the database: the clock, the texts of the random generator
  (the \<open>n\<close>-th draw, in lower-case hexadecimal), the JSON serialiser, and the role contract checks of
  \<open>orchestration_role_contract.rs\<close> (whether a contract is well formed, whether it admits a result).
  \<open>db_draws\<close> counts the draws.
\<close>

record env =
  env_now :: timestamp
  env_random :: "nat \<Rightarrow> string"
  env_json :: "json \<Rightarrow> string"
  env_contract_valid :: "string \<Rightarrow> bool"
  env_contract_admits :: "string \<Rightarrow> string \<Rightarrow> bool"

datatype store_error = Bail string | Constraint string | TriggerAbort string | LoopBound

type_synonym 'a store = "(db, store_error, 'a) txn"

definition empty_db :: db where
  "empty_db = \<lparr>db_tasks = [], db_dispatches = [], db_gates = [], db_messages = [], db_runs = [],
    db_launches = [], db_run_workspaces = [], db_task_evidence = [], db_run_events = [],
    db_audit_events = [], db_runtime_events = [], db_message_sequence = 0, db_run_event_sequence = 0,
    db_runtime_event_sequence = 0, db_board_revision = 0, db_inbox_revision = 0,
    db_conversation_revision = 0, db_draws = 0\<rparr>"

definition random_text :: "env \<Rightarrow> string store" where
  "random_text env = bindT (getsT db_draws) (\<lambda>n.
     thenT (modifyT (\<lambda>s. s\<lparr>db_draws := n + 1\<rparr>)) (okT (env_random env n)))"

definition orchestration_id :: "env \<Rightarrow> string \<Rightarrow> string store" where
  "orchestration_id env pre = bindT (random_text env) (\<lambda>hex. okT (pre @ ''_'' @ take 16 hex))"

section \<open>Rows and statements\<close>

definition find_row :: "('r \<Rightarrow> string) \<Rightarrow> string \<Rightarrow> 'r list \<Rightarrow> 'r option" where
  "find_row key k = List.find (\<lambda>r. key r = k)"

definition update_rows :: "('r \<Rightarrow> bool) \<Rightarrow> ('r \<Rightarrow> 'r) \<Rightarrow> 'r list \<Rightarrow> 'r list" where
  "update_rows p f = map (\<lambda>r. if p r then f r else r)"

abbreviation task_by_id :: "string \<Rightarrow> db \<Rightarrow> task option" where
  "task_by_id i s \<equiv> find_row t_id i (db_tasks s)"

abbreviation dispatch_by_id :: "string \<Rightarrow> db \<Rightarrow> dispatch option" where
  "dispatch_by_id i s \<equiv> find_row d_id i (db_dispatches s)"

abbreviation run_by_id :: "string \<Rightarrow> db \<Rightarrow> coordinator_run option" where
  "run_by_id i s \<equiv> find_row r_id i (db_runs s)"

definition run_isolated :: "coordinator_run list \<Rightarrow> string option \<Rightarrow> bool" where
  "run_isolated runs run \<longleftrightarrow> (\<exists>r \<in> set runs. Some (r_id r) = run \<and> r_isolation r = Isolated)"

subsection \<open>Event journal\<close>

definition insert_runtime_event :: "env \<Rightarrow> string \<Rightarrow> string option \<Rightarrow> json \<Rightarrow> unit store" where
  "insert_runtime_event env kind workspace data = bindT (random_text env) (\<lambda>uuid.
     bindT (getsT db_runtime_events) (\<lambda>xs.
     thenT (guardT (uuid \<notin> x_id ` set xs) (Constraint ''runtimeEvents.id''))
       (modifyT (\<lambda>s. s\<lparr>db_runtime_events := db_runtime_events s @
          [\<lparr>x_seq = db_runtime_event_sequence s + 1, x_id = uuid, x_kind = kind,
            x_workspace_id = workspace, x_project_id = None, x_data = env_json env data,
            x_occurred_at = env_now env, x_forwarded_at = None\<rparr>],
          db_runtime_event_sequence := db_runtime_event_sequence s + 1\<rparr>))))"

definition opt_json :: "string option \<Rightarrow> json" where
  "opt_json v = (case v of None \<Rightarrow> JNull | Some x \<Rightarrow> JStr x)"

definition task_state_event :: "env \<Rightarrow> task \<Rightarrow> unit store" where
  "task_state_event env t = insert_runtime_event env ''orchestration.task.state'' (Some (t_workspace_id t))
     (JObj [(''taskId'', JStr (t_id t)), (''runId'', opt_json (t_run_id t)),
            (''state'', JStr (task_status_as_str (t_status t)))])"

subsection \<open>Gates\<close>

definition gate_checks :: "gate \<Rightarrow> bool" where
  "gate_checks g \<longleftrightarrow>
    (g_kind g \<in> {KDecision, KStall} \<or> (g_run_id g \<noteq> None \<and> g_task_id g = None))
    \<and> (g_kind g \<in> {KPlan, KStage} \<or> g_task_id g \<noteq> None)"

definition insert_gate :: "gate \<Rightarrow> unit store" where
  "insert_gate g = bindT (getsT db_gates) (\<lambda>gs.
     thenT (guardT (g_id g \<notin> g_id ` set gs) (Constraint ''runGates.id''))
    (thenT (guardT (gate_checks g) (Constraint ''runGates check''))
       (modifyT (\<lambda>s. s\<lparr>db_gates := db_gates s @ [g], db_board_revision := db_board_revision s + 1\<rparr>))))"

definition update_gates :: "(gate \<Rightarrow> bool) \<Rightarrow> (gate \<Rightarrow> gate) \<Rightarrow> nat store" where
  "update_gates p f = bindT (getsT (\<lambda>s. length (filter p (db_gates s)))) (\<lambda>n.
     thenT (modifyT (\<lambda>s. s\<lparr>db_gates := update_rows p f (db_gates s),
              db_board_revision := db_board_revision s + length (filter p (db_gates s))\<rparr>))
       (okT n))"

definition new_gate :: "env \<Rightarrow> string \<Rightarrow> string option \<Rightarrow> string option \<Rightarrow> gate_kind \<Rightarrow> string \<Rightarrow>
    string \<Rightarrow> string list \<Rightarrow> int option \<Rightarrow> gate" where
  "new_gate env i run tsk kind scope question options plan =
    \<lparr>g_id = i, g_run_id = run, g_task_id = tsk, g_kind = kind, g_scope = scope, g_question = question,
     g_options = options, g_status = GPending, g_resolution = None, g_reason = None,
     g_plan_revision = plan, g_evidence_digest = None, g_integration_sha = None, g_actor_kind = None,
     g_actor_id = None, g_audit_id = None, g_created_at = env_now env, g_resolved_at = None\<rparr>"

text \<open>\<open>STAGE_GATE_INVALIDATION\<close>: every due or approved gate of the run that was bound to evidence is
  replaced by a fresh one and invalidated.\<close>

definition bound_stage_gate :: "string option \<Rightarrow> gate \<Rightarrow> bool" where
  "bound_stage_gate run g \<longleftrightarrow>
    run \<noteq> None \<and> g_run_id g = run \<and> g_kind g = KStage \<and> g_evidence_digest g \<noteq> None
    \<and> (g_status g = GPending \<or> (g_status g = GResolved \<and> g_resolution g = Some ''approve''))"

definition replaces_stage_gate :: "coordinator_run list \<Rightarrow> string option \<Rightarrow> gate \<Rightarrow> bool" where
  "replaces_stage_gate runs run g \<longleftrightarrow>
    bound_stage_gate run g
    \<and> (\<exists>r \<in> set runs. Some (r_id r) = g_run_id g \<and> g_plan_revision g = r_plan_revision r)"

definition invalidate_stage_gates :: "env \<Rightarrow> string option \<Rightarrow> unit store" where
  "invalidate_stage_gates env run = bindT (getsT db_runs) (\<lambda>runs. bindT (getsT db_gates) (\<lambda>gs.
     thenT (forT (filter (replaces_stage_gate runs run) gs) (\<lambda>g.
              bindT (random_text env) (\<lambda>hex. insert_gate
                (new_gate env (''gate_'' @ hex) (g_run_id g) None KStage (g_scope g) (g_question g)
                   (g_options g) (g_plan_revision g)))))
    (thenT (update_gates (bound_stage_gate run) (\<lambda>g. g\<lparr>g_status := GInvalidated,
              g_resolved_at := (case g_resolved_at g of None \<Rightarrow> Some (env_now env) | x \<Rightarrow> x)\<rparr>))
       (okT ()))))"

text \<open>Deleting the evidence of a task runs \<open>runEvidenceDeleteInvalidatesGates\<close> first.\<close>

definition delete_task_evidence :: "env \<Rightarrow> string \<Rightarrow> unit store" where
  "delete_task_evidence env tid = bindT (getsT (task_by_id tid)) (\<lambda>t.
     thenT (invalidate_stage_gates env (Option.bind t t_run_id))
       (modifyT (\<lambda>s. s\<lparr>db_task_evidence := filter (\<lambda>e. ev_task_id e \<noteq> tid) (db_task_evidence s),
          db_board_revision := db_board_revision s
            + length (filter (\<lambda>e. ev_task_id e = tid) (db_task_evidence s))\<rparr>)))"

subsection \<open>Tasks\<close>

definition before_task_insert :: "task \<Rightarrow> unit store" where
  "before_task_insert t = bindT (getsT db_runs) (\<lambda>runs.
     guardT (\<not> (t_plan_revision t = None \<and> run_isolated runs (t_run_id t)))
       (TriggerAbort ''isolated run tasks require plan membership''))"

definition insert_task :: "env \<Rightarrow> task \<Rightarrow> unit store" where
  "insert_task env t = atomic (bindT (getsT db_tasks) (\<lambda>ts.
     thenT (before_task_insert t)
    (thenT (guardT (t_id t \<notin> t_id ` set ts) (Constraint ''orchestrationTasks.id''))
    (thenT (guardT (\<not> (t_plan_revision t \<noteq> None \<and> t_run_id t \<noteq> None \<and> t_logical_id t \<noteq> None
              \<and> (\<exists>u \<in> set ts. (t_run_id u, t_plan_revision u, t_logical_id u)
                   = (t_run_id t, t_plan_revision t, t_logical_id t)))) (Constraint ''runPlanTaskLogicalIdx''))
    (thenT (modifyT (\<lambda>s. s\<lparr>db_tasks := db_tasks s @ [t], db_board_revision := db_board_revision s + 1\<rparr>))
       (task_state_event env t))))))"

text \<open>
  The \<open>BEFORE UPDATE\<close> triggers of \<open>orchestrationTasks\<close>.  A column that the statement does not set is
  the same in both rows.  \<open>runTaskJoinRequiresMembership\<close> fires when \<open>run_id\<close> is set, which the sources do
  only to a task without a run, so a changed \<open>run_id\<close> is the same condition.
\<close>

definition before_task_update :: "task \<Rightarrow> task \<Rightarrow> unit store" where
  "before_task_update old new = bindT (getsT db_runs) (\<lambda>runs.
     thenT (guardT (t_role_contract old = t_role_contract new)
              (TriggerAbort ''role contract snapshot is immutable''))
    (thenT (guardT (\<not> (t_status old = TCompleted \<and> t_status new \<noteq> TCompleted
                \<and> t_plan_revision old \<noteq> None \<and> run_isolated runs (t_run_id old)))
              (TriggerAbort ''completed run tasks require a new plan revision''))
    (thenT (guardT (\<not> (t_status old = TStalled \<and> t_status new \<in> {TReady, TFailed}
                \<and> t_plan_revision old \<noteq> None \<and> run_isolated runs (t_run_id old)))
              (TriggerAbort ''stalled isolated tasks require terminal settlement and a fresh attempt''))
    (thenT (guardT (\<not> (t_plan_revision old \<noteq> None
                \<and> (t_spec old, t_deps old, t_stage_id old, t_run_id old, t_plan_revision old, t_logical_id old)
                  \<noteq> (t_spec new, t_deps new, t_stage_id new, t_run_id new, t_plan_revision new, t_logical_id new)))
              (TriggerAbort ''a planned task definition requires a new plan revision''))
       (guardT (\<not> (t_run_id old \<noteq> t_run_id new \<and> t_plan_revision new = None
                \<and> run_isolated runs (t_run_id new)))
              (TriggerAbort ''isolated run tasks require plan membership''))))))"

definition after_task_update :: "env \<Rightarrow> task \<Rightarrow> task \<Rightarrow> unit store" where
  "after_task_update env old new =
     thenT (whenT (t_status old \<noteq> t_status new) (task_state_event env new))
    (thenT (whenT (t_status old = TCompleted \<and> (t_result old \<noteq> t_result new \<or> t_status new \<noteq> TCompleted)
                \<and> t_plan_revision new \<noteq> None)
              (invalidate_stage_gates env (t_run_id new)))
       (bindT (getsT db_task_evidence) (\<lambda>es.
          whenT (t_result old \<noteq> t_result new \<and> t_id new \<in> ev_task_id ` set es)
            (delete_task_evidence env (t_id new)))))"

definition update_tasks :: "env \<Rightarrow> (task \<Rightarrow> bool) \<Rightarrow> (task \<Rightarrow> task) \<Rightarrow> nat store" where
  "update_tasks env p f = atomic (bindT (getsT (\<lambda>s. filter p (db_tasks s))) (\<lambda>hit.
     thenT (forT hit (\<lambda>t. before_task_update t (f t)))
    (thenT (modifyT (\<lambda>s. s\<lparr>db_tasks := update_rows p f (db_tasks s),
              db_board_revision := db_board_revision s + length (filter p (db_tasks s))\<rparr>))
    (thenT (forT hit (\<lambda>t. after_task_update env t (f t)))
       (okT (length hit))))))"

subsection \<open>Dispatches\<close>

definition dispatch_launched :: "launch list \<Rightarrow> string \<Rightarrow> bool" where
  "dispatch_launched ls i \<longleftrightarrow> i \<in> l_dispatch_id ` set ls"

definition reserved_launch :: "coordinator_run list \<Rightarrow> launch list \<Rightarrow> run_workspace list \<Rightarrow> dispatch \<Rightarrow> bool" where
  "reserved_launch runs ls ws d \<longleftrightarrow>
    (\<exists>l \<in> set ls. \<exists>x \<in> set ws. \<exists>r \<in> set runs.
       w_id x = l_workspace_id l \<and> r_id r = l_run_id l \<and> r_plan_revision r = Some (l_revision l)
       \<and> l_dispatch_id l = d_id d \<and> l_task_id l = d_task_id d \<and> Some (l_run_id l) = d_run_id d
       \<and> l_workspace_id l = d_workspace_id d \<and> Some (l_terminal_handle l) = d_assignee_handle d
       \<and> Some (l_context_hash l) = d_context_token_hash d \<and> l_status l = LReserved
       \<and> r_status r = RRunning \<and> w_phase x = WReady \<and> w_dispatch_id x = Some (d_id d)
       \<and> d_status d = DAwaitingAcceptance \<and> d_coordinator_handle d = []
       \<and> d_terminal_policy d = ''keep-open'')"

definition before_dispatch_insert :: "dispatch \<Rightarrow> unit store" where
  "before_dispatch_insert d = bindT (getsT (\<lambda>s. s)) (\<lambda>s.
     thenT (guardT (\<not> (\<exists>r \<in> set (db_runs s). Some (r_id r) = d_run_id d \<and> r_status r \<noteq> RRunning))
              (TriggerAbort ''run is not running; dispatch waits for its plan or a resume''))
       (guardT (\<not> (run_isolated (db_runs s) (d_run_id d)
                \<and> \<not> reserved_launch (db_runs s) (db_launches s) (db_run_workspaces s) d))
              (TriggerAbort ''isolated runs dispatch only through a reserved attempt launch'')))"

definition insert_dispatch :: "dispatch \<Rightarrow> unit store" where
  "insert_dispatch d = bindT (getsT db_dispatches) (\<lambda>ds.
     thenT (before_dispatch_insert d)
    (thenT (guardT (d_id d \<notin> d_id ` set ds) (Constraint ''orchestrationDispatchContexts.id''))
       (modifyT (\<lambda>s. s\<lparr>db_dispatches := db_dispatches s @ [d],
                      db_board_revision := db_board_revision s + 1\<rparr>))))"

definition acceptable_launch :: "coordinator_run list \<Rightarrow> launch list \<Rightarrow> dispatch \<Rightarrow> bool" where
  "acceptable_launch runs ls old \<longleftrightarrow>
    (\<exists>l \<in> set ls. \<exists>r \<in> set runs.
       r_id r = l_run_id l \<and> r_plan_revision r = Some (l_revision l) \<and> l_dispatch_id l = d_id old
       \<and> r_status r \<in> {RRunning, RPaused}
       \<and> ((d_status old = DAwaitingAcceptance \<and> l_status l \<in> {LStarting, LStarted})
          \<or> (d_status old = DStalled \<and> d_accepted_at old \<noteq> None
             \<and> l_status l \<in> {LStarting, LStarted, LAttention})))"

text \<open>
  The \<open>BEFORE UPDATE\<close> triggers of \<open>orchestrationDispatchContexts\<close>.  \<open>runCompletionShaRequired\<close> fires when
  \<open>status\<close> is set to \<open>completed\<close>, which the sources do only on active dispatches, so a status that becomes
  \<open>completed\<close> is the same condition.
\<close>

definition before_dispatch_update :: "dispatch \<Rightarrow> dispatch \<Rightarrow> unit store" where
  "before_dispatch_update old new = bindT (getsT (\<lambda>s. s)) (\<lambda>s.
     let launched = dispatch_launched (db_launches s) (d_id old) in
     thenT (guardT (\<not> (launched
                \<and> (d_id old, d_task_id old, d_run_id old, d_workspace_id old, d_assignee_handle old,
                   d_coordinator_handle old, d_context_token_hash old)
                  \<noteq> (d_id new, d_task_id new, d_run_id new, d_workspace_id new, d_assignee_handle new,
                   d_coordinator_handle new, d_context_token_hash new)))
              (TriggerAbort ''workflow dispatch identity is immutable''))
    (thenT (guardT (\<not> (d_completion_sha old \<noteq> None \<and> d_completion_sha new \<noteq> d_completion_sha old))
              (TriggerAbort ''workflow completion SHA is immutable''))
    (thenT (guardT (\<not> (d_status old \<noteq> DCompleted \<and> d_status new = DCompleted \<and> launched
                \<and> d_completion_sha new = None))
              (TriggerAbort ''workflow completion requires its exact result SHA''))
       (guardT (\<not> (d_status new = DDispatched \<and> d_status old \<noteq> DDispatched \<and> launched
                \<and> \<not> acceptable_launch (db_runs s) (db_launches s) old))
              (TriggerAbort ''workflow dispatch acceptance requires its current approved launch'')))))"

definition update_dispatches :: "(dispatch \<Rightarrow> bool) \<Rightarrow> (dispatch \<Rightarrow> dispatch) \<Rightarrow> nat store" where
  "update_dispatches p f = bindT (getsT (\<lambda>s. filter p (db_dispatches s))) (\<lambda>hit.
     thenT (forT hit (\<lambda>d. before_dispatch_update d (f d)))
    (thenT (modifyT (\<lambda>s. s\<lparr>db_dispatches := update_rows p f (db_dispatches s),
              db_board_revision := db_board_revision s + length (filter p (db_dispatches s))\<rparr>))
       (okT (length hit))))"

subsection \<open>Messages\<close>

definition external :: "string \<Rightarrow> bool" where
  "external handle \<longleftrightarrow> take 4 handle = ''ext:''"

text \<open>\<open>LIKE 'ext:%'\<close> compares ASCII letters without their case.\<close>

definition like_external :: "string \<Rightarrow> bool" where
  "like_external handle \<longleftrightarrow> length handle \<ge> 4 \<and> handle ! 0 \<in> {CHR ''e'', CHR ''E''}
    \<and> handle ! 1 \<in> {CHR ''x'', CHR ''X''} \<and> handle ! 2 \<in> {CHR ''t'', CHR ''T''} \<and> handle ! 3 = CHR '':''"

definition conversation_row :: "message \<Rightarrow> bool" where
  "conversation_row m \<longleftrightarrow> \<not> external (m_from_handle m) \<and> \<not> external (m_to_handle m)
    \<and> m_type m \<in> {MStatus, MHandoff, MMergeReady, MDecisionGate, MQuestion}"

definition inbox_row :: "message \<Rightarrow> bool" where
  "inbox_row m \<longleftrightarrow> external (m_from_handle m) \<or> external (m_to_handle m)"

definition question_status :: "message list \<Rightarrow> message \<Rightarrow> string" where
  "question_status ms q =
    (if m_state q = SObsolete then ''cancelled''
     else if \<exists>r \<in> set ms. m_reply_to_id r = Some (m_id q) \<and> m_from_handle r = m_to_handle q then ''answered''
     else if m_state q = SExpired \<and> m_delivered_at q = None then ''expired''
     else if m_delivered_at q \<noteq> None then ''delivered''
     else if m_read q then ''received''
     else ''pending'')"

definition question_event :: "env \<Rightarrow> message \<Rightarrow> string \<Rightarrow> unit store" where
  "question_event env q status = insert_runtime_event env ''inbox.question.status'' (m_workspace_id q)
     (JObj [(''inbox'', JStr (m_from_handle q)),
            (''threadId'', JStr (case m_thread_id q of None \<Rightarrow> m_id q | Some i \<Rightarrow> i)),
            (''questionId'', JStr (m_id q)), (''status'', JStr status)])"

definition answers :: "message list \<Rightarrow> message \<Rightarrow> message \<Rightarrow> bool" where
  "answers ms new q \<longleftrightarrow> m_reply_to_id new = Some (m_id q) \<and> m_from_handle q = m_to_handle new
    \<and> m_to_handle q = m_from_handle new \<and> m_state q \<noteq> SObsolete
    \<and> \<not> (\<exists>r \<in> set ms. m_reply_to_id r = Some (m_id q) \<and> m_from_handle r = m_to_handle q \<and> m_id r \<noteq> m_id new)"

definition touch_message_revisions :: "message \<Rightarrow> db \<Rightarrow> db" where
  "touch_message_revisions m s = s\<lparr>
     db_inbox_revision := db_inbox_revision s + of_bool (inbox_row m),
     db_conversation_revision := db_conversation_revision s + of_bool (conversation_row m)\<rparr>"

definition after_message_insert :: "env \<Rightarrow> message \<Rightarrow> unit store" where
  "after_message_insert env new = bindT (getsT db_messages) (\<lambda>ms.
     whenT (m_reply_to_id new \<noteq> None \<and> like_external (m_to_handle new))
       (forT (filter (answers ms new) ms) (\<lambda>q. question_event env q ''answered'')))"

definition insert_message :: "env \<Rightarrow> message \<Rightarrow> unit store" where
  "insert_message env m = atomic (bindT (getsT db_messages) (\<lambda>ms.
     thenT (guardT (m_id m \<notin> m_id ` set ms) (Constraint ''orchestrationMessages.id''))
    (bindT (getsT (\<lambda>s. m\<lparr>m_sequence := db_message_sequence s + 1\<rparr>)) (\<lambda>row.
     thenT (modifyT (\<lambda>s. touch_message_revisions row (s\<lparr>db_messages := db_messages s @ [row],
              db_message_sequence := db_message_sequence s + 1\<rparr>)))
       (after_message_insert env row)))))"

definition after_message_update :: "env \<Rightarrow> message \<Rightarrow> message \<Rightarrow> unit store" where
  "after_message_update env old new =
     thenT (modifyT (touch_message_revisions new))
       (bindT (getsT db_messages) (\<lambda>ms.
          whenT (like_external (m_from_handle new)
              \<and> (m_state old, m_delivered_at old, m_read old) \<noteq> (m_state new, m_delivered_at new, m_read new))
            (question_event env new (question_status ms new))))"

definition update_messages :: "env \<Rightarrow> (message \<Rightarrow> bool) \<Rightarrow> (message \<Rightarrow> message) \<Rightarrow> nat store" where
  "update_messages env p f = atomic (bindT (getsT (\<lambda>s. filter p (db_messages s))) (\<lambda>hit.
     thenT (modifyT (\<lambda>s. s\<lparr>db_messages := update_rows p f (db_messages s)\<rparr>))
    (thenT (forT hit (\<lambda>m. after_message_update env m (f m)))
       (okT (length hit)))))"

subsection \<open>Runs, launches and journals\<close>

text \<open>
  The unique index over the runs that hold their workspace, and the one over coordinator tabs.
\<close>

definition run_indexes :: "coordinator_run list \<Rightarrow> bool" where
  "run_indexes rs \<longleftrightarrow>
    distinct (map r_workspace_id (filter holds_workspace rs))
    \<and> distinct (map r_coordinator_tab_id (filter (\<lambda>r. r_coordinator_tab_id r \<noteq> None) rs))"

definition insert_run :: "coordinator_run \<Rightarrow> unit store" where
  "insert_run r = bindT (getsT db_runs) (\<lambda>rs.
     thenT (guardT (r_id r \<notin> r_id ` set rs) (Constraint ''orchestrationCoordinatorRuns.id''))
    (thenT (guardT (run_indexes (rs @ [r])) (Constraint ''orchestrationCoordinatorRunsActiveWorkspaceIdx''))
       (modifyT (\<lambda>s. s\<lparr>db_runs := db_runs s @ [r], db_board_revision := db_board_revision s + 1\<rparr>))))"

text \<open>
  \<open>policy_ok\<close> stands for the \<open>EXISTS\<close> of \<open>orchestrationPolicyProfileUpdateGuard\<close>: that every profile the
  policy text names is in \<open>agentProfiles\<close>.  The guard fires when the statement sets \<open>status\<close> or
  \<open>execution_policy\<close>, which \<open>sets\<close> tells.
\<close>

definition plan_rejected :: "gate list \<Rightarrow> string \<Rightarrow> bool" where
  "plan_rejected gs run \<longleftrightarrow>
    (case rev (filter (\<lambda>g. g_run_id g = Some run \<and> g_kind g = KPlan \<and> g_status g \<noteq> GInvalidated) gs) of
       [] \<Rightarrow> False | g # _ \<Rightarrow> g_resolution g = Some ''reject'')"

definition before_run_update :: "(string \<Rightarrow> bool) \<Rightarrow> bool \<Rightarrow> coordinator_run \<Rightarrow> unit store" where
  "before_run_update policy_ok sets new = bindT (getsT db_gates) (\<lambda>gs.
     guardT (\<not> (sets
        \<and> (case r_execution_policy new of None \<Rightarrow> False | Some policy \<Rightarrow> \<not> policy_ok policy)
        \<and> r_status new \<notin> {RCompleted, RFailed, RCancelled} \<and> \<not> plan_rejected gs (r_id new)))
       (TriggerAbort ''agent profile reference does not exist''))"

definition update_runs :: "(string \<Rightarrow> bool) \<Rightarrow> bool \<Rightarrow> (coordinator_run \<Rightarrow> bool) \<Rightarrow> (coordinator_run \<Rightarrow> coordinator_run) \<Rightarrow> nat store" where
  "update_runs policy_ok sets p f = bindT (getsT (\<lambda>s. filter p (db_runs s))) (\<lambda>hit.
     thenT (forT hit (\<lambda>r. before_run_update policy_ok sets (f r)))
    (bindT (getsT (\<lambda>s. update_rows p f (db_runs s))) (\<lambda>rs.
     thenT (guardT (run_indexes rs) (Constraint ''orchestrationCoordinatorRunsActiveWorkspaceIdx''))
    (thenT (modifyT (\<lambda>s. s\<lparr>db_runs := update_rows p f (db_runs s),
              db_board_revision := db_board_revision s + length (filter p (db_runs s))\<rparr>))
       (okT (length hit))))))"

definition update_launches :: "(launch \<Rightarrow> bool) \<Rightarrow> (launch \<Rightarrow> launch) \<Rightarrow> nat store" where
  "update_launches p f = bindT (getsT (\<lambda>s. length (filter p (db_launches s)))) (\<lambda>n.
     thenT (modifyT (\<lambda>s. s\<lparr>db_launches := update_rows p f (db_launches s),
              db_board_revision := db_board_revision s + length (filter p (db_launches s))\<rparr>))
       (okT n))"

definition insert_audit_event :: "audit_event \<Rightarrow> unit store" where
  "insert_audit_event a = bindT (getsT db_audit_events) (\<lambda>as.
     thenT (guardT (au_id a \<notin> au_id ` set as) (Constraint ''orchestrationAuditEvents.id''))
       (modifyT (\<lambda>s. s\<lparr>db_audit_events := db_audit_events s @ [a],
                      db_board_revision := db_board_revision s + 1\<rparr>)))"

section \<open>The table interface\<close>

lemma find_row_simps [simp]:
  "find_row key k [] = None"
  "find_row key k (r # rows) = (if key r = k then Some r else find_row key k rows)"
  by (simp_all add: find_row_def)

lemma find_row_Some: "find_row key k rows = Some r \<Longrightarrow> r \<in> set rows \<and> key r = k"
  by (auto simp: find_row_def find_Some_iff)

lemma find_row_None: "find_row key k rows = None \<longleftrightarrow> k \<notin> key ` set rows"
  by (auto simp: find_row_def find_None_iff)

lemma find_row_append: "find_row key k (rows @ rows') =
    (case find_row key k rows of None \<Rightarrow> find_row key k rows' | Some r \<Rightarrow> Some r)"
  by (induction rows) (auto simp: find_row_def)

lemma find_row_unique:
  assumes "distinct (map key rows)" "r \<in> set rows"
  shows "find_row key (key r) rows = Some r"
  using assms by (induction rows) (auto simp: find_row_def image_iff)

lemma update_rows_simps [simp]:
  "update_rows p f [] = []"
  "update_rows p f (r # rows) = (if p r then f r else r) # update_rows p f rows"
  "update_rows p f (rows @ rows') = update_rows p f rows @ update_rows p f rows'"
  "length (update_rows p f rows) = length rows"
  by (simp_all add: update_rows_def)

lemma set_update_rows: "set (update_rows p f rows) = {f r | r. r \<in> set rows \<and> p r} \<union> {r \<in> set rows. \<not> p r}"
  by (auto simp: update_rows_def)

lemma update_rows_all:
  assumes "\<And>r. r \<in> set rows \<Longrightarrow> p r \<Longrightarrow> Q (f r)" "\<And>r. r \<in> set rows \<Longrightarrow> \<not> p r \<Longrightarrow> Q r"
  shows "\<forall>r \<in> set (update_rows p f rows). Q r"
  using assms by (induction rows) auto

lemma update_rows_none: "\<not> (\<exists>r \<in> set rows. p r) \<Longrightarrow> update_rows p f rows = rows"
  by (induction rows) auto

lemma map_update_rows: "(\<And>r. r \<in> set rows \<Longrightarrow> p r \<Longrightarrow> key (f r) = key r) \<Longrightarrow> map key (update_rows p f rows) = map key rows"
  by (induction rows) auto

lemma find_update_rows:
  assumes "\<And>r. r \<in> set rows \<Longrightarrow> p r \<Longrightarrow> key (f r) = key r"
  shows "find_row key k (update_rows p f rows) = map_option (\<lambda>r. if p r then f r else r) (find_row key k rows)"
  using assms by (induction rows) (auto simp: find_row_def)

locale table =
  fixes rows :: "'s \<Rightarrow> 'r list" and key :: "'r \<Rightarrow> string"
    and insert :: "'r \<Rightarrow> ('s, 'e, unit) txn"
    and update :: "('r \<Rightarrow> bool) \<Rightarrow> ('r \<Rightarrow> 'r) \<Rightarrow> ('s, 'e, nat) txn"
  assumes insert_ok: "insert r s = (Inr u, s') \<Longrightarrow> rows s' = rows s @ [r] \<and> key r \<notin> key ` set (rows s)"
    and insert_error: "insert r s = (Inl e, s') \<Longrightarrow> s' = s"
    and update_ok: "update p f s = (Inr n, s') \<Longrightarrow>
      rows s' = update_rows p f (rows s) \<and> n = length (filter p (rows s))"
    and update_error: "update p f s = (Inl e, s') \<Longrightarrow> s' = s"
begin

abbreviation keyed :: "'s \<Rightarrow> bool" where
  "keyed s \<equiv> distinct (map key (rows s))"

lemma insert_keyed: "keyed s \<Longrightarrow> insert r s = (res, s') \<Longrightarrow> keyed s'"
  by (cases res) (auto dest: insert_ok insert_error)

lemma update_keyed:
  assumes "keyed s" "update p f s = (res, s')" "\<And>r. key (f r) = key r"
  shows "keyed s'"
  using assms by (cases res) (auto dest!: update_ok update_error simp: map_update_rows)

lemma lookup_insert:
  assumes "insert r s = (Inr u, s')"
  shows "find_row key k (rows s') = (if k = key r then Some r else find_row key k (rows s))"
proof -
  have "rows s' = rows s @ [r]" "find_row key (key r) (rows s) = None"
    using insert_ok [OF assms] by (auto simp: find_row_None)
  then show ?thesis
    by (auto simp: find_row_append split: option.splits)
qed

lemma lookup_update:
  assumes "update p f s = (Inr n, s')" "\<And>r. key (f r) = key r"
  shows "find_row key k (rows s') = map_option (\<lambda>r. if p r then f r else r) (find_row key k (rows s))"
  using update_ok [OF assms(1)] by (simp add: find_update_rows assms(2))

lemma update_by_key:
  assumes "keyed s" "update p f s = (Inr n, s')" "\<And>r. p r \<Longrightarrow> key r = k"
  shows "n \<le> 1 \<and> (n = 1 \<longleftrightarrow> (\<exists>r. find_row key k (rows s) = Some r \<and> p r))"
proof -
  have n: "n = length (filter p (rows s))"
    using update_ok [OF assms(2)] by simp
  have "length (filter p xs) \<le> 1 \<and> (length (filter p xs) = 1 \<longleftrightarrow> (\<exists>r. find_row key k xs = Some r \<and> p r))"
    if "distinct (map key xs)" for xs
    using that
  proof (induction xs)
    case Nil
    then show ?case by simp
  next
    case (Cons x xs)
    show ?case
    proof (cases "key x = k")
      case True
      have "\<not> p r" if "r \<in> set xs" for r
        using Cons(2) that True assms(3) [of r] by (auto simp: image_iff)
      then have "filter p xs = []" by (simp add: filter_empty_conv)
      with True show ?thesis by simp
    next
      case False
      then have "\<not> p x" using assms(3) by blast
      with Cons False show ?thesis by simp
    qed
  qed
  from this [OF assms(1)] show ?thesis by (simp add: n)
qed

end

section \<open>Frames\<close>

text \<open>Statements keep every projection of the database they do not write.\<close>

definition same :: "('s \<Rightarrow> 'p) \<Rightarrow> 's \<Rightarrow> 's \<Rightarrow> bool" where
  "same \<phi> s s' \<longleftrightarrow> \<phi> s' = \<phi> s"

interpretation keeps: txn_preorder "same \<phi>" for \<phi>
  by unfold_locales (simp_all add: same_def)

text \<open>
  The triggers of a task statement write only the journal, the stage gates, the evidence and the
  counters; \<open>aside\<close> is everything else, with the gates that belong to tasks.
\<close>

definition task_gates :: "db \<Rightarrow> gate list" where
  "task_gates s = filter (\<lambda>g. g_kind g \<noteq> KStage) (db_gates s)"

definition aside :: "db \<Rightarrow> task list \<times> dispatch list \<times> gate list \<times> message list \<times> coordinator_run list
    \<times> launch list \<times> run_workspace list \<times> run_event list \<times> audit_event list \<times> nat \<times> nat" where
  "aside s = (db_tasks s, db_dispatches s, task_gates s, db_messages s, db_runs s, db_launches s,
     db_run_workspaces s, db_run_events s, db_audit_events s, db_message_sequence s, db_run_event_sequence s)"

lemma random_text_run: "random_text env s = (Inr (env_random env (db_draws s)), s\<lparr>db_draws := db_draws s + 1\<rparr>)"
  by (simp add: random_text_def txn_run)

lemma random_text_keeps: "(\<And>s n. \<phi> (s\<lparr>db_draws := n\<rparr>) = \<phi> s) \<Longrightarrow> obeys (same \<phi>) (random_text env)"
  by (simp add: obeys_def random_text_run same_def)

lemma orchestration_id_run: "orchestration_id env pre s =
    (Inr (pre @ ''_'' @ take 16 (env_random env (db_draws s))), s\<lparr>db_draws := db_draws s + 1\<rparr>)"
  by (simp add: orchestration_id_def random_text_run txn_run)

lemma aside_draws [simp]: "aside (s\<lparr>db_draws := n\<rparr>) = aside s"
  by (simp add: aside_def task_gates_def)

lemma insert_runtime_event_aside: "obeys (same aside) (insert_runtime_event env k w d)"
  unfolding insert_runtime_event_def
  by (intro keeps.holds_intros random_text_keeps keeps.holds_modify)
    (simp_all add: same_def aside_def task_gates_def)

lemma insert_stage_gate_aside: "g_kind g = KStage \<Longrightarrow> obeys (same aside) (insert_gate g)"
  unfolding insert_gate_def
  by (intro keeps.holds_intros keeps.holds_modify) (simp_all add: same_def aside_def task_gates_def)

lemma filter_update_rows:
  assumes "\<And>r. p r \<Longrightarrow> \<not> q r" "\<And>r. p r \<Longrightarrow> \<not> q (f r)"
  shows "filter q (update_rows p f rows) = filter q rows"
  using assms by (induction rows) auto

lemma update_stage_gates_aside:
  assumes "\<And>g. p g \<Longrightarrow> g_kind g = KStage" "\<And>g. p g \<Longrightarrow> g_kind (f g) = KStage"
  shows "obeys (same aside) (update_gates p f)"
  unfolding update_gates_def
  by (intro keeps.holds_intros keeps.holds_modify)
    (simp add: same_def aside_def task_gates_def filter_update_rows assms)

lemma invalidate_stage_gates_aside: "obeys (same aside) (invalidate_stage_gates env run)"
  unfolding invalidate_stage_gates_def
  by (intro keeps.holds_intros random_text_keeps insert_stage_gate_aside update_stage_gates_aside)
    (auto simp: bound_stage_gate_def new_gate_def)

lemma delete_task_evidence_aside: "obeys (same aside) (delete_task_evidence env i)"
  unfolding delete_task_evidence_def
  by (intro keeps.holds_intros invalidate_stage_gates_aside keeps.holds_modify)
    (simp add: same_def aside_def task_gates_def)

lemma after_task_update_aside: "obeys (same aside) (after_task_update env old new)"
  unfolding after_task_update_def task_state_event_def
  by (intro keeps.holds_intros insert_runtime_event_aside invalidate_stage_gates_aside
      delete_task_evidence_aside)

lemma before_task_update_run: "before_task_update old new s = (r, s') \<Longrightarrow> s' = s"
  by (auto simp: before_task_update_def txn_run split: if_splits)

lemma forT_readonly:
  assumes "\<And>x s r s'. f x s = (r, s') \<Longrightarrow> s' = s"
  shows "forT xs f s = (r, s') \<Longrightarrow> s' = s"
  by (induction xs) (auto simp: thenT_def bindT_def okT_def dest: assms split: prod.splits sum.splits)

lemma before_task_updates_run:
  "forT xs (\<lambda>t. before_task_update t (f t)) s = (r, s') \<Longrightarrow> s' = s"
  by (rule forT_readonly) (auto dest: before_task_update_run)

text \<open>What a successful task statement does.\<close>

lemma update_tasks_ok:
  assumes "update_tasks env p f s = (Inr n, s')"
  shows "n = length (filter p (db_tasks s))"
    and "aside s' = aside (s\<lparr>db_tasks := update_rows p f (db_tasks s)\<rparr>)"
    and "forT (filter p (db_tasks s)) (\<lambda>t. before_task_update t (f t)) s = (Inr (), s)"
proof -
  let ?hit = "filter p (db_tasks s)"
  obtain s1 where 1: "forT ?hit (\<lambda>t. before_task_update t (f t)) s = (Inr (), s1)"
    and 2: "forT ?hit (\<lambda>t. after_task_update env t (f t))
      (s1\<lparr>db_tasks := update_rows p f (db_tasks s1),
          db_board_revision := db_board_revision s1 + length (filter p (db_tasks s1))\<rparr>) = (Inr (), s')"
    and n: "n = length ?hit"
    using assms unfolding update_tasks_def by (auto simp: txn_simps)
  have s1: "s1 = s" using before_task_updates_run [OF 1] .
  show "n = length (filter p (db_tasks s))" by (rule n)
  show "forT ?hit (\<lambda>t. before_task_update t (f t)) s = (Inr (), s)" using 1 s1 by simp
  have "obeys (same aside) (forT ?hit (\<lambda>t. after_task_update env t (f t)))"
    by (intro keeps.holds_for after_task_update_aside)
  from obeysD [OF this 2] s1 show "aside s' = aside (s\<lparr>db_tasks := update_rows p f (db_tasks s)\<rparr>)"
    by (simp add: same_def aside_def task_gates_def)
qed

lemma insert_task_ok:
  assumes "insert_task env t s = (Inr u, s')"
  shows "t_id t \<notin> t_id ` set (db_tasks s)"
    and "aside s' = aside (s\<lparr>db_tasks := db_tasks s @ [t]\<rparr>)"
proof -
  let ?s1 = "s\<lparr>db_tasks := db_tasks s @ [t], db_board_revision := db_board_revision s + 1\<rparr>"
  have id: "t_id t \<notin> t_id ` set (db_tasks s)" and 1: "task_state_event env t ?s1 = (Inr (), s')"
    using assms by (auto simp: insert_task_def before_task_insert_def txn_simps)
  show "t_id t \<notin> t_id ` set (db_tasks s)" by (rule id)
  have "aside s' = aside ?s1"
    using obeysD [OF insert_runtime_event_aside 1 [unfolded task_state_event_def]] by (simp add: same_def)
  then show "aside s' = aside (s\<lparr>db_tasks := db_tasks s @ [t]\<rparr>)"
    by (simp add: aside_def task_gates_def)
qed

lemma before_dispatch_update_run: "before_dispatch_update old new s = (r, s') \<Longrightarrow> s' = s"
  by (auto simp: before_dispatch_update_def txn_run Let_def split: if_splits)

lemma before_dispatch_updates_run:
  "forT xs (\<lambda>d. before_dispatch_update d (f d)) s = (r, s') \<Longrightarrow> s' = s"
  by (rule forT_readonly) (auto dest: before_dispatch_update_run)

lemma update_dispatches_ok:
  assumes "update_dispatches p f s = (Inr n, s')"
  shows "n = length (filter p (db_dispatches s))"
    and "s' = s\<lparr>db_dispatches := update_rows p f (db_dispatches s), db_board_revision := db_board_revision s + n\<rparr>"
    and "forT (filter p (db_dispatches s)) (\<lambda>d. before_dispatch_update d (f d)) s = (Inr (), s)"
  using assms by (auto simp: update_dispatches_def txn_simps dest: before_dispatch_updates_run)

lemma update_dispatches_error: "update_dispatches p f s = (Inl e, s') \<Longrightarrow> s' = s"
  by (auto simp: update_dispatches_def bindT_Inl_iff thenT_def txn_simps
      dest: before_dispatch_updates_run) (auto simp: txn_run)

lemma insert_dispatch_ok:
  assumes "insert_dispatch d s = (Inr u, s')"
  shows "d_id d \<notin> d_id ` set (db_dispatches s)"
    and "s' = s\<lparr>db_dispatches := db_dispatches s @ [d], db_board_revision := db_board_revision s + 1\<rparr>"
    and "before_dispatch_insert d s = (Inr (), s)"
  using assms by (auto simp: insert_dispatch_def before_dispatch_insert_def txn_simps)

lemma insert_gate_ok:
  assumes "insert_gate g s = (Inr u, s')"
  shows "g_id g \<notin> g_id ` set (db_gates s)" "gate_checks g"
    and "s' = s\<lparr>db_gates := db_gates s @ [g], db_board_revision := db_board_revision s + 1\<rparr>"
  using assms by (auto simp: insert_gate_def txn_simps)

lemma update_gates_run: "update_gates p f s = (Inr (length (filter p (db_gates s))),
    s\<lparr>db_gates := update_rows p f (db_gates s),
      db_board_revision := db_board_revision s + length (filter p (db_gates s))\<rparr>)"
  by (simp add: update_gates_def txn_run)

lemma atomic_unchanged:
  "insert_task env t s = (Inl e, s') \<Longrightarrow> s' = s"
  "update_tasks env p f s = (Inl e, s') \<Longrightarrow> s' = s"
  "insert_message env m s = (Inl e, s') \<Longrightarrow> s' = s"
  "update_messages env q h s = (Inl e, s') \<Longrightarrow> s' = s"
  by (simp_all add: insert_task_def update_tasks_def insert_message_def update_messages_def atomic_Inl_iff)

lemma guarded_unchanged:
  "insert_gate g s = (Inl e, s') \<Longrightarrow> s' = s"
  "insert_dispatch d s = (Inl e, s') \<Longrightarrow> s' = s"
  by (auto simp: insert_gate_def insert_dispatch_def before_dispatch_insert_def txn_run split: if_splits)

subsection \<open>Messages\<close>

definition message_aside :: "db \<Rightarrow> task list \<times> dispatch list \<times> gate list \<times> message list \<times> coordinator_run list
    \<times> launch list \<times> run_workspace list \<times> task_evidence list \<times> run_event list \<times> audit_event list \<times> nat \<times> nat" where
  "message_aside s = (db_tasks s, db_dispatches s, db_gates s, db_messages s, db_runs s, db_launches s,
     db_run_workspaces s, db_task_evidence s, db_run_events s, db_audit_events s, db_message_sequence s,
     db_board_revision s)"

lemma insert_runtime_event_message_aside: "obeys (same message_aside) (insert_runtime_event env k w d)"
  unfolding insert_runtime_event_def
  by (intro keeps.holds_intros random_text_keeps keeps.holds_modify)
    (simp_all add: same_def message_aside_def)

lemma after_message_update_aside: "obeys (same message_aside) (after_message_update env old new)"
  unfolding after_message_update_def question_event_def
  by (intro keeps.holds_intros insert_runtime_event_message_aside keeps.holds_modify)
    (simp add: same_def message_aside_def touch_message_revisions_def)

lemma update_messages_ok:
  assumes "update_messages env p f s = (Inr n, s')"
  shows "n = length (filter p (db_messages s))"
    and "message_aside s' = message_aside (s\<lparr>db_messages := update_rows p f (db_messages s)\<rparr>)"
proof -
  let ?hit = "filter p (db_messages s)"
  have 1: "forT ?hit (\<lambda>m. after_message_update env m (f m)) (s\<lparr>db_messages := update_rows p f (db_messages s)\<rparr>) = (Inr (), s')"
    and n: "n = length ?hit"
    using assms unfolding update_messages_def by (auto simp: txn_simps)
  show "n = length (filter p (db_messages s))" by (rule n)
  have "obeys (same message_aside) (forT ?hit (\<lambda>m. after_message_update env m (f m)))"
    by (intro keeps.holds_for after_message_update_aside)
  from obeysD [OF this 1] show "message_aside s' = message_aside (s\<lparr>db_messages := update_rows p f (db_messages s)\<rparr>)"
    by (simp add: same_def)
qed

lemma after_message_insert_aside: "obeys (same message_aside) (after_message_insert env new)"
  unfolding after_message_insert_def question_event_def
  by (intro keeps.holds_intros insert_runtime_event_message_aside)

lemma insert_message_ok:
  assumes "insert_message env m s = (Inr u, s')"
  shows "m_id m \<notin> m_id ` set (db_messages s)"
    and "message_aside s' = message_aside (s\<lparr>db_messages := db_messages s @ [m\<lparr>m_sequence := db_message_sequence s + 1\<rparr>],
           db_message_sequence := db_message_sequence s + 1\<rparr>)"
proof -
  let ?row = "m\<lparr>m_sequence := db_message_sequence s + 1\<rparr>"
  let ?s1 = "touch_message_revisions ?row (s\<lparr>db_messages := db_messages s @ [?row],
              db_message_sequence := db_message_sequence s + 1\<rparr>)"
  have id: "m_id m \<notin> m_id ` set (db_messages s)"
    and 1: "after_message_insert env ?row ?s1 = (Inr (), s')"
    using assms unfolding insert_message_def by (auto simp: txn_simps)
  show "m_id m \<notin> m_id ` set (db_messages s)" by (rule id)
  have "message_aside s' = message_aside ?s1"
    using obeysD [OF after_message_insert_aside 1] by (simp add: same_def)
  then show "message_aside s' = message_aside (s\<lparr>db_messages := db_messages s @ [?row],
           db_message_sequence := db_message_sequence s + 1\<rparr>)"
    by (simp add: message_aside_def touch_message_revisions_def)
qed

subsection \<open>Frames as equations\<close>

text \<open>The tables after a successful statement, each as a conditional equation.\<close>

lemma update_tasks_rows: "update_tasks env p f s = (Inr n, s') \<Longrightarrow> db_tasks s' = update_rows p f (db_tasks s)"
  using update_tasks_ok(2) by (fastforce simp: aside_def)

lemma update_tasks_frame:
  assumes "update_tasks env p f s = (r, s')"
  shows "db_dispatches s' = db_dispatches s" "task_gates s' = task_gates s" "db_messages s' = db_messages s"
    "db_runs s' = db_runs s" "db_launches s' = db_launches s" "db_run_workspaces s' = db_run_workspaces s"
    "db_run_events s' = db_run_events s" "db_message_sequence s' = db_message_sequence s"
  using assms by (cases r; auto simp: aside_def task_gates_def dest!: update_tasks_ok(2) atomic_unchanged(2))+

lemma insert_task_rows: "insert_task env t s = (Inr u, s') \<Longrightarrow> db_tasks s' = db_tasks s @ [t]"
  using insert_task_ok(2) by (fastforce simp: aside_def)

lemma insert_task_frame:
  assumes "insert_task env t s = (r, s')"
  shows "db_dispatches s' = db_dispatches s" "task_gates s' = task_gates s" "db_messages s' = db_messages s"
    "db_runs s' = db_runs s" "db_launches s' = db_launches s" "db_run_workspaces s' = db_run_workspaces s"
    "db_run_events s' = db_run_events s" "db_message_sequence s' = db_message_sequence s"
  using assms by (cases r; auto simp: aside_def task_gates_def dest!: insert_task_ok(2) atomic_unchanged(1))+

lemma update_dispatches_rows:
  "update_dispatches p f s = (Inr n, s') \<Longrightarrow> db_dispatches s' = update_rows p f (db_dispatches s)"
  by (drule update_dispatches_ok(2)) simp

lemma update_dispatches_frame:
  assumes "update_dispatches p f s = (r, s')"
  shows "db_tasks s' = db_tasks s" "db_gates s' = db_gates s" "db_messages s' = db_messages s"
    "db_runs s' = db_runs s" "db_launches s' = db_launches s" "db_run_workspaces s' = db_run_workspaces s"
    "db_run_events s' = db_run_events s" "db_message_sequence s' = db_message_sequence s"
  using assms by (cases r; auto dest: update_dispatches_ok(2) update_dispatches_error)+

lemma insert_dispatch_rows: "insert_dispatch d s = (Inr u, s') \<Longrightarrow> db_dispatches s' = db_dispatches s @ [d]"
  by (drule insert_dispatch_ok(2)) simp

lemma insert_dispatch_frame:
  assumes "insert_dispatch d s = (r, s')"
  shows "db_tasks s' = db_tasks s" "db_gates s' = db_gates s" "db_messages s' = db_messages s"
    "db_runs s' = db_runs s" "db_launches s' = db_launches s" "db_run_workspaces s' = db_run_workspaces s"
    "db_run_events s' = db_run_events s" "db_message_sequence s' = db_message_sequence s"
  using assms by (cases r; auto dest: insert_dispatch_ok(2) guarded_unchanged)+

lemma insert_gate_rows: "insert_gate g s = (Inr u, s') \<Longrightarrow> db_gates s' = db_gates s @ [g]"
  by (drule insert_gate_ok(3)) simp

lemma insert_gate_frame:
  assumes "insert_gate g s = (r, s')"
  shows "db_tasks s' = db_tasks s" "db_dispatches s' = db_dispatches s" "db_messages s' = db_messages s"
    "db_runs s' = db_runs s" "db_launches s' = db_launches s" "db_run_workspaces s' = db_run_workspaces s"
    "db_run_events s' = db_run_events s" "db_message_sequence s' = db_message_sequence s"
  using assms by (cases r; auto dest: insert_gate_ok(3) guarded_unchanged)+

lemma update_gates_rows: "update_gates p f s = (Inr n, s') \<Longrightarrow> db_gates s' = update_rows p f (db_gates s)"
  by (auto simp: update_gates_run)

lemma update_gates_frame:
  assumes "update_gates p f s = (r, s')"
  shows "db_tasks s' = db_tasks s" "db_dispatches s' = db_dispatches s" "db_messages s' = db_messages s"
    "db_runs s' = db_runs s" "db_launches s' = db_launches s" "db_run_workspaces s' = db_run_workspaces s"
    "db_run_events s' = db_run_events s" "db_message_sequence s' = db_message_sequence s"
  using assms by (auto simp: update_gates_run)

lemma update_messages_rows:
  "update_messages env p f s = (Inr n, s') \<Longrightarrow> db_messages s' = update_rows p f (db_messages s)"
  using update_messages_ok(2) by (fastforce simp: message_aside_def)

lemma update_messages_frame:
  assumes "update_messages env p f s = (r, s')"
  shows "db_tasks s' = db_tasks s" "db_dispatches s' = db_dispatches s" "db_gates s' = db_gates s"
    "db_runs s' = db_runs s" "db_launches s' = db_launches s" "db_run_workspaces s' = db_run_workspaces s"
    "db_run_events s' = db_run_events s" "db_message_sequence s' = db_message_sequence s"
  using assms by (cases r; auto simp: message_aside_def dest!: update_messages_ok(2) atomic_unchanged(4))+

lemma update_launches_run: "update_launches p f s = (Inr (length (filter p (db_launches s))),
    s\<lparr>db_launches := update_rows p f (db_launches s),
      db_board_revision := db_board_revision s + length (filter p (db_launches s))\<rparr>)"
  by (simp add: update_launches_def txn_run)

lemma update_runs_ok:
  assumes "update_runs ok sets p f s = (Inr n, s')"
  shows "n = length (filter p (db_runs s))"
    and "s' = s\<lparr>db_runs := update_rows p f (db_runs s), db_board_revision := db_board_revision s + n\<rparr>"
    and "run_indexes (update_rows p f (db_runs s))"
proof -
  have ro: "before_run_update ok sets r s = (x, s'') \<Longrightarrow> s'' = s" for r s x s''
    by (auto simp: before_run_update_def txn_run)
  obtain s1 where "forT (filter p (db_runs s)) (\<lambda>r. before_run_update ok sets (f r)) s = (Inr (), s1)"
    "run_indexes (update_rows p f (db_runs s1))" "n = length (filter p (db_runs s))"
    "s' = s1\<lparr>db_runs := update_rows p f (db_runs s1), db_board_revision := db_board_revision s1 + length (filter p (db_runs s1))\<rparr>"
    using assms unfolding update_runs_def by (auto simp: txn_simps)
  moreover from this(1) have "s1 = s" by (rule forT_readonly [rotated]) (auto dest: ro)
  ultimately show "n = length (filter p (db_runs s))" "run_indexes (update_rows p f (db_runs s))"
    "s' = s\<lparr>db_runs := update_rows p f (db_runs s), db_board_revision := db_board_revision s + n\<rparr>"
    by simp_all
qed

lemmas statement_rows = update_tasks_rows insert_task_rows update_dispatches_rows insert_dispatch_rows
  update_gates_rows insert_gate_rows update_messages_rows

lemmas statement_frames = update_tasks_frame insert_task_frame update_dispatches_frame
  insert_dispatch_frame update_gates_frame insert_gate_frame update_messages_frame

lemma task_gates_cong: "db_gates s' = db_gates s \<Longrightarrow> task_gates s' = task_gates s"
  by (simp add: task_gates_def)

subsection \<open>Errors\<close>

text \<open>Statements fail on a constraint or a trigger, never for want of loop fuel.\<close>

lemma update_tasks_errors: "fails_within (- {LoopBound}) (update_tasks env p f)"
  unfolding update_tasks_def before_task_update_def after_task_update_def task_state_event_def
    insert_runtime_event_def random_text_def invalidate_stage_gates_def delete_task_evidence_def
    insert_gate_def update_gates_def
  by (intro fails_within_intros) simp_all

lemma statement_errors:
  "fails_within (- {LoopBound}) (update_dispatches q g)" "fails_within (- {LoopBound}) (update_gates v h)"
  "fails_within (- {LoopBound}) (update_messages env p f)"
  unfolding update_dispatches_def before_dispatch_update_def Let_def update_gates_def update_messages_def
    after_message_update_def question_event_def insert_runtime_event_def random_text_def
  by (intro fails_within_intros; simp)+

subsection \<open>The tables\<close>

interpretation tasks_table: table db_tasks t_id "insert_task env" "update_tasks env" for env
  by unfold_locales
    (auto simp: aside_def dest: insert_task_ok update_tasks_ok(1) update_tasks_ok(2) atomic_unchanged)

interpretation dispatches_table: table db_dispatches d_id insert_dispatch update_dispatches
  by unfold_locales
    (auto dest: insert_dispatch_ok update_dispatches_ok guarded_unchanged update_dispatches_error)

interpretation gates_table: table db_gates g_id insert_gate update_gates
  by unfold_locales (auto simp: update_gates_run dest: insert_gate_ok guarded_unchanged)

end
