(* ===== verification/Run_Events.thy ===== *)
theory Run_Events
  imports Store_Tables
begin

text \<open>
  The run timeline (\<open>run_event_store.rs\<close>) and the audit journal (\<open>orchestration_audit_store.rs\<close>), and the two
  relations every operation of the store respects: the journals only grow, and the board revision moves
  whenever a row the board projects changes.
\<close>

section \<open>Timeline events\<close>

definition run_event_summary_max_bytes :: nat where
  "run_event_summary_max_bytes = 512"

definition run_event_payload_max_bytes :: nat where
  "run_event_payload_max_bytes = 8 * 1024"

text \<open>\<open>str::is_char_boundary\<close> on the bytes of a string.\<close>

definition continuation_char :: "char \<Rightarrow> bool" where
  "continuation_char c \<longleftrightarrow> 128 \<le> (of_char c :: nat) \<and> (of_char c :: nat) < 192"

definition is_char_boundary :: "string \<Rightarrow> nat \<Rightarrow> bool" where
  "is_char_boundary v i \<longleftrightarrow> i = 0 \<or> i = length v \<or> (i < length v \<and> \<not> continuation_char (v ! i))"

fun boundary_loop :: "string \<Rightarrow> nat \<Rightarrow> nat" where
  "boundary_loop v 0 = 0"
| "boundary_loop v (Suc n) = (if is_char_boundary v (Suc n) then Suc n else boundary_loop v n)"

definition truncate_to_boundary :: "string \<Rightarrow> nat \<Rightarrow> string" where
  "truncate_to_boundary v max_bytes =
    (if length v \<le> max_bytes then v else take (boundary_loop v max_bytes) v)"

record new_run_event =
  ne_run_id :: string
  ne_kind :: run_event_kind
  ne_task_id :: "string option"
  ne_dispatch_id :: "string option"
  ne_gate_id :: "string option"
  ne_actor_kind :: "run_actor_kind option"
  ne_actor_id :: "string option"
  ne_summary :: string
  ne_payload :: "json option"

definition new_run_event :: "string \<Rightarrow> run_event_kind \<Rightarrow> new_run_event" where
  "new_run_event run kind = \<lparr>ne_run_id = run, ne_kind = kind, ne_task_id = None, ne_dispatch_id = None,
     ne_gate_id = None, ne_actor_kind = None, ne_actor_id = None, ne_summary = [], ne_payload = None\<rparr>"

definition encode_event_payload :: "env \<Rightarrow> json \<Rightarrow> string" where
  "encode_event_payload env payload = (let encoded = env_json env payload in
     if length encoded > run_event_payload_max_bytes then env_json env (JObj [(''truncated'', JBool True)])
     else encoded)"

definition insert_run_event :: "run_event \<Rightarrow> unit store" where
  "insert_run_event e = bindT (getsT db_run_events) (\<lambda>es.
     thenT (guardT (e_id e \<notin> e_id ` set es) (Constraint ''runEvents.id''))
    (thenT (guardT (length (e_summary e) \<le> run_event_summary_max_bytes) (Constraint ''runEvents.summary''))
    (thenT (guardT (case e_payload e of None \<Rightarrow> True | Some x \<Rightarrow> length x \<le> run_event_payload_max_bytes)
              (Constraint ''runEvents.payload''))
       (modifyT (\<lambda>s. s\<lparr>db_run_events := db_run_events s @ [e\<lparr>e_sequence := db_run_event_sequence s + 1\<rparr>],
          db_run_event_sequence := db_run_event_sequence s + 1,
          db_board_revision := db_board_revision s + 1\<rparr>)))))"

definition record_run_event :: "env \<Rightarrow> new_run_event \<Rightarrow> string store" where
  "record_run_event env event = bindT (orchestration_id env ''evt'') (\<lambda>i.
     thenT (insert_run_event
       \<lparr>e_sequence = 0, e_id = i, e_run_id = ne_run_id event, e_task_id = ne_task_id event,
        e_dispatch_id = ne_dispatch_id event, e_gate_id = ne_gate_id event, e_kind = ne_kind event,
        e_actor_kind = ne_actor_kind event, e_actor_id = ne_actor_id event,
        e_summary = truncate_to_boundary (ne_summary event) run_event_summary_max_bytes,
        e_payload = map_option (encode_event_payload env) (ne_payload event),
        e_created_at = env_now env\<rparr>)
       (okT i))"

definition record_dispatch_run_event ::
  "env \<Rightarrow> string \<Rightarrow> run_event_kind \<Rightarrow> string \<Rightarrow> json option \<Rightarrow> unit store" where
  "record_dispatch_run_event env dispatch_id kind summary payload =
     bindT (getsT (dispatch_by_id dispatch_id)) (\<lambda>owner.
       case owner of
         None \<Rightarrow> okT ()
       | Some d \<Rightarrow> (case d_run_id d of
           None \<Rightarrow> okT ()
         | Some run \<Rightarrow> thenT (record_run_event env ((new_run_event run kind)\<lparr>
               ne_task_id := Some (d_task_id d), ne_dispatch_id := Some dispatch_id,
               ne_actor_kind := Some (if kind = EAccepted then AAgent else ARuntime),
               ne_actor_id := (if kind = EAccepted then d_assignee_handle d else None),
               ne_summary := summary, ne_payload := payload\<rparr>)) (okT ())))"

definition record_task_run_event ::
  "env \<Rightarrow> string \<Rightarrow> run_event_kind \<Rightarrow> string \<Rightarrow> json option \<Rightarrow> unit store" where
  "record_task_run_event env task_id kind summary payload =
     bindT (getsT (task_by_id task_id)) (\<lambda>owner.
       case Option.bind owner t_run_id of
         None \<Rightarrow> okT ()
       | Some run \<Rightarrow> thenT (record_run_event env ((new_run_event run kind)\<lparr>
             ne_task_id := Some task_id, ne_summary := summary, ne_payload := payload\<rparr>)) (okT ()))"

text \<open>A run's timeline, oldest first, at most \<open>limit\<close> events (clamped to 1..1000).\<close>

definition run_events :: "string \<Rightarrow> int \<Rightarrow> db \<Rightarrow> run_event list" where
  "run_events run limit s =
    take (nat (min 1000 (max 1 limit))) (filter (\<lambda>e. e_run_id e = run) (db_run_events s))"

definition insert_orchestration_audit_event ::
  "env \<Rightarrow> string option \<Rightarrow> string \<Rightarrow> string \<Rightarrow> string \<Rightarrow> unit store" where
  "insert_orchestration_audit_event env actor_handle action target_id reason =
     bindT (orchestration_id env ''audit'') (\<lambda>i. insert_audit_event
       \<lparr>au_id = i, au_actor_handle = actor_handle, au_action = action, au_target_id = Some target_id,
        au_reason = reason, au_created_at = env_now env\<rparr>)"

section \<open>Truncation\<close>

lemma boundary_loop_le: "boundary_loop v n \<le> n"
  by (induction v n rule: boundary_loop.induct) auto

lemma boundary_loop_boundary: "is_char_boundary v (boundary_loop v n)"
  by (induction v n rule: boundary_loop.induct) (auto simp: is_char_boundary_def)

lemma boundary_loop_greatest: "m \<le> n \<Longrightarrow> is_char_boundary v m \<Longrightarrow> m \<le> boundary_loop v n"
  by (induction v n rule: boundary_loop.induct) (auto simp: le_Suc_eq)

lemma truncate_length: "length (truncate_to_boundary v n) \<le> n"
  using boundary_loop_le [of v n] by (simp add: truncate_to_boundary_def)

section \<open>Frame of an event\<close>

definition beside_events :: "db \<Rightarrow> task list \<times> dispatch list \<times> gate list \<times> message list \<times> coordinator_run list
    \<times> launch list \<times> run_workspace list \<times> task_evidence list \<times> nat" where
  "beside_events s = (db_tasks s, db_dispatches s, db_gates s, db_messages s, db_runs s, db_launches s,
     db_run_workspaces s, db_task_evidence s, db_message_sequence s)"

lemma orchestration_id_keeps: "(\<And>s n. \<phi> (s\<lparr>db_draws := n\<rparr>) = \<phi> s) \<Longrightarrow> obeys (same \<phi>) (orchestration_id env pre)"
  unfolding orchestration_id_def by (intro keeps.holds_intros random_text_keeps)

lemma insert_run_event_beside: "obeys (same beside_events) (insert_run_event e)"
  unfolding insert_run_event_def
  by (intro keeps.holds_intros keeps.holds_modify) (simp add: same_def beside_events_def)

lemma record_events_beside:
  "obeys (same beside_events) (record_run_event env e)"
  "obeys (same beside_events) (record_dispatch_run_event env i k m p)"
  "obeys (same beside_events) (record_task_run_event env i k m p)"
  unfolding record_run_event_def record_dispatch_run_event_def record_task_run_event_def
  by (auto intro!: keeps.holds_intros insert_run_event_beside orchestration_id_keeps
      simp: beside_events_def split: option.split)

lemma audit_event_beside: "obeys (same beside_events) (insert_orchestration_audit_event env a b c d)"
  unfolding insert_orchestration_audit_event_def insert_audit_event_def
  by (intro keeps.holds_intros keeps.holds_modify orchestration_id_keeps)
    (simp_all add: same_def beside_events_def)

text \<open>The frame as equations of the stores before and after.\<close>

lemma event_frame:
  assumes "obeys (same beside_events) m" "m s = (r, s')"
  shows "db_tasks s' = db_tasks s" "db_dispatches s' = db_dispatches s" "db_gates s' = db_gates s"
    "db_messages s' = db_messages s" "db_runs s' = db_runs s" "db_launches s' = db_launches s"
    "db_run_workspaces s' = db_run_workspaces s" "db_message_sequence s' = db_message_sequence s"
  using obeysD [OF assms] by (simp_all add: same_def beside_events_def)

lemmas record_event_frame = event_frame [OF record_events_beside(1)] event_frame [OF record_events_beside(2)]
  event_frame [OF record_events_beside(3)] event_frame [OF audit_event_beside]

lemma record_event_errors:
  "fails_within (- {LoopBound}) (record_run_event env e)"
  "fails_within (- {LoopBound}) (record_task_run_event env i k m p)"
  unfolding record_task_run_event_def record_run_event_def insert_run_event_def Let_def
    orchestration_id_def random_text_def
  by (auto intro!: fails_within_intros split: option.split)

section \<open>Journals and revisions\<close>

text \<open>The rows the board projects.\<close>

definition board_view :: "db \<Rightarrow> coordinator_run list \<times> task list \<times> dispatch list \<times> audit_event list
    \<times> gate list \<times> run_event list \<times> task_evidence list \<times> run_workspace list \<times> launch list" where
  "board_view s = (db_runs s, db_tasks s, db_dispatches s, db_audit_events s, db_gates s,
     db_run_events s, db_task_evidence s, db_run_workspaces s, db_launches s)"

text \<open>
  A store moves forward: the journals are extended at the end, the revisions never decrease, and an
  unchanged board revision means that no projected row changed.
\<close>

definition advances :: "db \<Rightarrow> db \<Rightarrow> bool" where
  "advances s s' \<longleftrightarrow>
    prefix (db_run_events s) (db_run_events s') \<and> prefix (db_runtime_events s) (db_runtime_events s')
    \<and> prefix (db_audit_events s) (db_audit_events s')
    \<and> db_inbox_revision s \<le> db_inbox_revision s' \<and> db_conversation_revision s \<le> db_conversation_revision s'
    \<and> db_board_revision s \<le> db_board_revision s'
    \<and> (db_board_revision s' = db_board_revision s \<longrightarrow> board_view s' = board_view s)"

interpretation advancing: txn_preorder advances
  by unfold_locales (auto simp: advances_def intro: prefix_order.trans)

lemma advances_update_rows [simp]:
  "advances s (s\<lparr>db_tasks := update_rows p f (db_tasks s),
     db_board_revision := db_board_revision s + length (filter p (db_tasks s))\<rparr>)"
  "advances s (s\<lparr>db_dispatches := update_rows q g (db_dispatches s),
     db_board_revision := db_board_revision s + length (filter q (db_dispatches s))\<rparr>)"
  "advances s (s\<lparr>db_gates := update_rows v h (db_gates s),
     db_board_revision := db_board_revision s + length (filter v (db_gates s))\<rparr>)"
  "advances s (s\<lparr>db_runs := update_rows w k (db_runs s),
     db_board_revision := db_board_revision s + length (filter w (db_runs s))\<rparr>)"
  "advances s (s\<lparr>db_launches := update_rows x l (db_launches s),
     db_board_revision := db_board_revision s + length (filter x (db_launches s))\<rparr>)"
  by (auto simp: advances_def board_view_def filter_empty_conv update_rows_none)

lemma random_text_advances: "obeys advances (random_text env)"
  by (simp add: obeys_def random_text_run advances_def board_view_def)

lemma insert_runtime_event_advances: "obeys advances (insert_runtime_event env k w d)"
  unfolding insert_runtime_event_def
  by (intro advancing.holds_intros random_text_advances advancing.holds_modify)
    (simp add: advances_def board_view_def)

lemma gate_statements_advance:
  "obeys advances (insert_gate g)" "obeys advances (update_gates p f)"
  unfolding insert_gate_def update_gates_def
  by (intro advancing.holds_intros advancing.holds_modify; simp add: advances_def board_view_def)
    (intro advancing.holds_intros advancing.holds_modify; simp)

lemma invalidate_stage_gates_advances: "obeys advances (invalidate_stage_gates env run)"
  unfolding invalidate_stage_gates_def
  by (intro advancing.holds_intros random_text_advances gate_statements_advance)

lemma delete_task_evidence_advances: "obeys advances (delete_task_evidence env i)"
  unfolding delete_task_evidence_def
  by (intro advancing.holds_intros invalidate_stage_gates_advances advancing.holds_modify)
    (auto simp: advances_def board_view_def filter_empty_conv filter_id_conv)

lemma task_statements_advance:
  "obeys advances (insert_task env t)" "obeys advances (update_tasks env p f)"
  unfolding insert_task_def update_tasks_def before_task_insert_def before_task_update_def
    after_task_update_def task_state_event_def
  by (intro advancing.holds_intros insert_runtime_event_advances invalidate_stage_gates_advances
      delete_task_evidence_advances advancing.holds_modify; simp add: advances_def board_view_def)
    (intro advancing.holds_intros insert_runtime_event_advances invalidate_stage_gates_advances
      delete_task_evidence_advances advancing.holds_modify; simp)

lemma dispatch_statements_advance:
  "obeys advances (insert_dispatch d)" "obeys advances (update_dispatches p f)"
  unfolding insert_dispatch_def update_dispatches_def before_dispatch_insert_def
    before_dispatch_update_def Let_def
  by (intro advancing.holds_intros advancing.holds_modify; simp add: advances_def board_view_def)
    (intro advancing.holds_intros advancing.holds_modify; simp)

lemma message_statements_advance:
  "obeys advances (insert_message env m)" "obeys advances (update_messages env p f)"
  unfolding insert_message_def update_messages_def after_message_update_def after_message_insert_def
    question_event_def
  by (intro advancing.holds_intros insert_runtime_event_advances advancing.holds_modify;
      simp add: advances_def board_view_def touch_message_revisions_def)+

lemma run_statements_advance:
  "obeys advances (insert_run r)" "obeys advances (update_runs ok sets p f)"
  "obeys advances (update_launches q g)" "obeys advances (insert_audit_event a)"
  unfolding insert_run_def update_runs_def before_run_update_def update_launches_def insert_audit_event_def
  by (intro advancing.holds_intros advancing.holds_modify; simp add: advances_def board_view_def;
      auto simp: advances_def board_view_def filter_empty_conv update_rows_none)+

lemma insert_run_event_advances: "obeys advances (insert_run_event e)"
  unfolding insert_run_event_def
  by (intro advancing.holds_intros advancing.holds_modify) (simp add: advances_def board_view_def)

lemma orchestration_id_advances: "obeys advances (orchestration_id env pre)"
  unfolding orchestration_id_def by (intro advancing.holds_intros random_text_advances)

lemma record_events_advance:
  "obeys advances (record_run_event env e)"
  "obeys advances (record_dispatch_run_event env i k m p)"
  "obeys advances (record_task_run_event env i k m p)"
  "obeys advances (insert_orchestration_audit_event env a b c d)"
  unfolding record_run_event_def record_dispatch_run_event_def record_task_run_event_def
    insert_orchestration_audit_event_def
  by (auto intro!: advancing.holds_intros insert_run_event_advances orchestration_id_advances
      run_statements_advance split: option.split)

lemmas statements_advance = random_text_advances orchestration_id_advances insert_runtime_event_advances
  gate_statements_advance task_statements_advance dispatch_statements_advance
  message_statements_advance run_statements_advance insert_run_event_advances record_events_advance

end
