(* ===== verification/Rust_Text.thy ===== *)
theory Rust_Text
  imports Prelude "HOL-Library.Char_ord" "HOL-Library.List_Lexorder"
begin

text \<open>
  The functions of Rust's \<open>str\<close> that the sources call.  A string is the list of its UTF-8 bytes, ordered
  as the standard library orders it, so \<open>len\<close> is \<open>length\<close> and \<open>contains\<close> of an ASCII character is
  membership.
\<close>

section \<open>Trimming\<close>

text \<open>The UTF-8 encodings of the characters with the Unicode property \<open>White_Space\<close>.\<close>

definition whitespace_chars :: "string list" where
  "whitespace_chars = map (\<lambda>bs. map char_of (bs :: nat list))
    ([[9], [10], [11], [12], [13], [32], [194, 133], [194, 160], [225, 154, 128], [226, 128, 168],
      [226, 128, 169], [226, 128, 175], [226, 129, 159], [227, 128, 128]]
     @ map (\<lambda>b. [226, 128, b]) [128 ..< 139])"

text \<open>\<open>strip pats v\<close> drops the patterns of \<open>pats\<close> from the front of \<open>v\<close> while one matches.\<close>

function strip :: "string list \<Rightarrow> string \<Rightarrow> string" where
  "strip pats v = (case List.find (\<lambda>p. p \<noteq> [] \<and> prefix p v) pats of
     None \<Rightarrow> v | Some p \<Rightarrow> strip pats (drop (length p) v))"
  by pat_completeness auto
termination
  by (relation "measure (\<lambda>(_, v). length v)") (auto simp: find_Some_iff prefix_def)

declare strip.simps [simp del]

definition trim :: "string \<Rightarrow> string" where
  "trim v = rev (strip (map rev whitespace_chars) (rev (strip whitespace_chars v)))"

text \<open>Text that begins and ends with a printable ASCII character is not changed.\<close>

definition graphic :: "char \<Rightarrow> bool" where
  "graphic c \<longleftrightarrow> 32 < (of_char c :: nat) \<and> (of_char c :: nat) < 127"

lemma whitespace_not_graphic:
  "p \<in> set whitespace_chars \<Longrightarrow> p \<noteq> [] \<and> \<not> graphic (hd p) \<and> \<not> graphic (last p)"
  by (auto simp: whitespace_chars_def graphic_def)

lemma strip_unchanged: "\<forall>p \<in> set pats. p = [] \<or> \<not> prefix p v \<Longrightarrow> strip pats v = v"
  by (subst strip.simps) (auto simp: find_None_iff find_Some_iff split: option.splits)

lemma prefix_hd: "prefix p v \<Longrightarrow> p \<noteq> [] \<Longrightarrow> hd p = hd v"
  by (auto simp: prefix_def)

lemma trim_graphic:
  assumes "v \<noteq> []" "graphic (hd v)" "graphic (last v)"
  shows "trim v = v"
proof -
  have "strip whitespace_chars v = v"
    using assms whitespace_not_graphic prefix_hd by (intro strip_unchanged) fastforce
  moreover have "strip (map rev whitespace_chars) (rev v) = rev v"
  proof (intro strip_unchanged ballI)
    fix p assume "p \<in> set (map rev whitespace_chars)"
    then obtain q where q: "q \<in> set whitespace_chars" "p = rev q" by auto
    then have "\<not> graphic (hd p)" using whitespace_not_graphic [OF q(1)] by (simp add: hd_rev)
    then show "p = [] \<or> \<not> prefix p (rev v)" using assms prefix_hd [of p "rev v"] by (auto simp: hd_rev)
  qed
  ultimately show ?thesis by (simp add: trim_def)
qed

section \<open>Splitting and case\<close>

text \<open>\<open>split(c)\<close> of an ASCII separator: one part more than there are separators.\<close>

fun split_at :: "char \<Rightarrow> string \<Rightarrow> string list" where
  "split_at sep [] = [[]]"
| "split_at sep (c # cs) =
    (if c = sep then [] # split_at sep cs
     else case split_at sep cs of p # ps \<Rightarrow> (c # p) # ps | [] \<Rightarrow> [[c]])"

lemma split_at_not_Nil [simp]: "split_at sep cs \<noteq> []"
  by (cases cs) (auto split: list.splits)

definition to_ascii_uppercase :: "string \<Rightarrow> string" where
  "to_ascii_uppercase = map (\<lambda>c. if CHR ''a'' \<le> c \<and> c \<le> CHR ''z'' then char_of (of_char c - 32 :: nat) else c)"

definition eq_ignore_ascii_case :: "string \<Rightarrow> string \<Rightarrow> bool" where
  "eq_ignore_ascii_case a b \<longleftrightarrow> to_ascii_uppercase a = to_ascii_uppercase b"

definition is_ascii_alphanumeric :: "char \<Rightarrow> bool" where
  "is_ascii_alphanumeric c \<longleftrightarrow>
    CHR ''0'' \<le> c \<and> c \<le> CHR ''9'' \<or> CHR ''A'' \<le> c \<and> c \<le> CHR ''Z'' \<or> CHR ''a'' \<le> c \<and> c \<le> CHR ''z''"

text \<open>
  \<open>chars().any(char::is_control)\<close>: the control characters are U+0000 to U+001F and U+007F to U+009F,
  the latter two bytes long from U+0080 on.
\<close>

fun contains_control :: "string \<Rightarrow> bool" where
  "contains_control [] = False"
| "contains_control (c # cs) =
    (of_char c < (32 :: nat) \<or> of_char c = (127 :: nat)
     \<or> (of_char c = (194 :: nat) \<and> (case cs of d # _ \<Rightarrow> of_char d < (160 :: nat) | [] \<Rightarrow> False))
     \<or> contains_control cs)"

section \<open>Decimal numbers\<close>

text \<open>\<open>Display\<close> and \<open>FromStr\<close> of the integer types.\<close>

fun decimal_nat :: "nat \<Rightarrow> string" where
  "decimal_nat n =
    (if n < 10 then [char_of (48 + n)] else decimal_nat (n div 10) @ [char_of (48 + n mod 10)])"

declare decimal_nat.simps [simp del]

definition decimal :: "int \<Rightarrow> string" where
  "decimal i = (if i < 0 then CHR ''-'' # decimal_nat (nat (- i)) else decimal_nat (nat i))"

definition digit :: "char \<Rightarrow> bool" where
  "digit c \<longleftrightarrow> 48 \<le> (of_char c :: nat) \<and> (of_char c :: nat) \<le> 57"

definition decimal_value :: "string \<Rightarrow> nat" where
  "decimal_value ds = foldl (\<lambda>acc c. 10 * acc + (of_char c - 48)) 0 ds"

definition parse_decimal :: "string \<Rightarrow> int option" where
  "parse_decimal s =
    (let neg = prefix ''-'' s; ds = (if neg then tl s else s)
     in if ds = [] \<or> \<not> list_all digit ds then None
        else Some (if neg then - int (decimal_value ds) else int (decimal_value ds)))"

lemma of_char_digit [simp]: "n < 10 \<Longrightarrow> of_char (char_of (48 + n) :: char) = (48 + n :: nat)"
  by simp

lemma digit_char_of [simp]: "n < 10 \<Longrightarrow> digit (char_of (48 + n :: nat))"
  by (simp add: digit_def)

lemma decimal_nat_digits: "decimal_nat n \<noteq> [] \<and> list_all digit (decimal_nat n) \<and> decimal_value (decimal_nat n) = n"
proof (induction n rule: decimal_nat.induct)
  case (1 n)
  show ?case
  proof (cases "n < 10")
    case True
    then show ?thesis by (simp add: decimal_nat.simps [of n] decimal_value_def)
  next
    case False
    with 1 have "list_all digit (decimal_nat (n div 10))" "decimal_value (decimal_nat (n div 10)) = n div 10" by auto
    with False show ?thesis by (simp add: decimal_nat.simps [of n] decimal_value_def)
  qed
qed

lemma parse_decimal_nat: "\<not> prefix ''-'' (decimal_nat n)"
  using decimal_nat_digits [of n] by (cases "decimal_nat n") (auto simp: digit_def)

lemma parse_decimal_decimal [simp]: "parse_decimal (decimal i) = Some i"
  using decimal_nat_digits [of "nat i"] decimal_nat_digits [of "nat (- i)"] parse_decimal_nat [of "nat i"]
  by (auto simp: parse_decimal_def decimal_def)

lemma decimal_first: "\<exists>c cs. decimal i = c # cs \<and> (c = CHR ''-'' \<or> digit c)"
proof (cases "i < 0")
  case False
  then show ?thesis using decimal_nat_digits [of "nat i"] by (cases "decimal_nat (nat i)") (auto simp: decimal_def)
qed (simp add: decimal_def)

end
