(* ===== verification/Task_Store.thy ===== *)
theory Task_Store
  imports Run_Events Rust_Text "HOL-Library.Product_Lexorder"
begin

text \<open>
  Tasks and their dependencies (\<open>orchestration_task_store.rs\<close>, \<open>orchestration_contract_store.rs\<close>): creation,
  status changes, the refresh of waiting dependents, transfer and listing.  The refresh loop runs on fuel;
  \<open>refresh_terminates\<close> shows that the fuel it is given (one step for the changed task and one for every
  pending task) is never used up, and \<open>refresh_settles\<close> that no waiting task is overlooked.
\<close>

section \<open>Display names\<close>

fun split_lines :: "string \<Rightarrow> string \<Rightarrow> string list" where
  "split_lines cur [] = (if cur = [] then [] else [cur])"
| "split_lines cur (c # cs) = (if c = CHR 0x0A
     then (if cur \<noteq> [] \<and> last cur = CHR 0x0D then butlast cur else cur) # split_lines [] cs
     else split_lines (cur @ [c]) cs)"

definition char_count :: "string \<Rightarrow> nat" where
  "char_count v = length (filter (\<lambda>c. \<not> continuation_char c) v)"

function take_chars :: "nat \<Rightarrow> string \<Rightarrow> string" where
  "take_chars 0 v = []"
| "take_chars (Suc n) [] = []"
| "take_chars (Suc n) (c # cs) =
     c # takeWhile continuation_char cs @ take_chars n (dropWhile continuation_char cs)"
  by pat_completeness auto
termination by (relation "measure fst") auto

definition derive_display_name :: "string \<Rightarrow> string" where
  "derive_display_name spec =
    (let line = (case List.find (\<lambda>l. l \<noteq> []) (map trim (split_lines [] spec)) of
                   None \<Rightarrow> ''task'' | Some l \<Rightarrow> l)
     in take_chars 80 line @ (if char_count line > 80 then map char_of [226 :: nat, 128, 166] else []))"

section \<open>Operations\<close>

record new_task =
  nt_spec :: string
  nt_task_title :: "string option"
  nt_display_name :: "string option"
  nt_deps :: "string list"
  nt_parent_id :: "string option"
  nt_created_by_terminal_handle :: "string option"
  nt_run_id :: "string option"
  nt_workspace_id :: string
  nt_coordinator_handle :: string
  nt_result_schema :: "string option"

text \<open>The scan of \<open>status_for_deps\<close>; \<open>all_completed\<close> is the flag of the loop.\<close>

fun deps_scan :: "task list \<Rightarrow> bool \<Rightarrow> string list \<Rightarrow> store_error + task_status" where
  "deps_scan ts all_completed [] = Inr (if all_completed then TReady else TPending)"
| "deps_scan ts all_completed (d # ds) =
    (case map_option t_status (find_row t_id d ts) of
       None \<Rightarrow> Inl (Bail (''unknown orchestration task dependency: '' @ d))
     | Some TCompleted \<Rightarrow> deps_scan ts all_completed ds
     | Some TFailed \<Rightarrow> Inr TFailed
     | Some TCancelled \<Rightarrow> Inr TCancelled
     | Some _ \<Rightarrow> deps_scan ts False ds)"

definition deps_status :: "task list \<Rightarrow> string list \<Rightarrow> store_error + task_status" where
  "deps_status ts deps = (if deps = [] then Inr TReady else deps_scan ts True deps)"

definition status_for_deps :: "string list \<Rightarrow> task_status store" where
  "status_for_deps deps = bindT (getsT db_tasks) (\<lambda>ts. liftT (deps_status ts deps))"

definition shared_pending :: "coordinator_run list \<Rightarrow> task \<Rightarrow> bool" where
  "shared_pending runs t \<longleftrightarrow> t_status t = TPending \<and> \<not> run_isolated runs (t_run_id t)"

definition promoted :: "task \<Rightarrow> task" where
  "promoted t = t\<lparr>t_status := TReady\<rparr>"

definition dependency_failed :: "env \<Rightarrow> string \<Rightarrow> task \<Rightarrow> task" where
  "dependency_failed env changed_id t = t\<lparr>t_status := TFailed,
     t_result := (case t_result t of None \<Rightarrow> Some (''dependency failed: '' @ changed_id) | r \<Rightarrow> r),
     t_completed_at := Some (env_now env)\<rparr>"

text \<open>One pass over the pending rows that were read for \<open>changed_id\<close>; the stack has its top in front.\<close>

fun refresh_rows :: "env \<Rightarrow> string \<Rightarrow> task list \<Rightarrow> string list \<Rightarrow> string list store" where
  "refresh_rows env changed_id [] stack = okT stack"
| "refresh_rows env changed_id (c # cs) stack =
    (if changed_id \<notin> set (t_deps c) then refresh_rows env changed_id cs stack
     else bindT (status_for_deps (t_deps c)) (\<lambda>status.
       case status of
         TReady \<Rightarrow> thenT (update_tasks env (\<lambda>t. t_id t = t_id c) promoted)
                    (refresh_rows env changed_id cs stack)
       | TFailed \<Rightarrow> thenT (update_tasks env (\<lambda>t. t_id t = t_id c) (dependency_failed env changed_id))
                    (refresh_rows env changed_id cs (t_id c # stack))
       | _ \<Rightarrow> refresh_rows env changed_id cs stack))"

fun refresh_loop :: "nat \<Rightarrow> env \<Rightarrow> string list \<Rightarrow> unit store" where
  "refresh_loop fuel env [] = okT ()"
| "refresh_loop 0 env (changed_id # stack) = failT LoopBound"
| "refresh_loop (Suc fuel) env (changed_id # stack) =
    bindT (getsT (\<lambda>s. filter (shared_pending (db_runs s)) (db_tasks s))) (\<lambda>pending.
      bindT (refresh_rows env changed_id pending stack) (refresh_loop fuel env))"

definition refresh_pending_dependents_after_task_status :: "env \<Rightarrow> string \<Rightarrow> unit store" where
  "refresh_pending_dependents_after_task_status env changed_task_id =
    bindT (getsT (\<lambda>s. Suc (length (filter (shared_pending (db_runs s)) (db_tasks s))))) (\<lambda>fuel.
      refresh_loop fuel env [changed_task_id])"

definition active_dispatch :: "dispatch \<Rightarrow> bool" where
  "active_dispatch d \<longleftrightarrow> d_status d \<in> {DPending, DDispatched, DAwaitingAcceptance, DStalled}"

lemma active_dispatch_update [simp]:
  "active_dispatch (d\<lparr>d_status := st\<rparr>) \<longleftrightarrow> st \<in> {DPending, DDispatched, DAwaitingAcceptance, DStalled}"
  "active_dispatch (d\<lparr>d_completed_at := a\<rparr>) = active_dispatch d"
  "active_dispatch (d\<lparr>d_last_failure := b\<rparr>) = active_dispatch d"
  "active_dispatch (d\<lparr>d_failure_count := c\<rparr>) = active_dispatch d"
  "active_dispatch (d\<lparr>d_accepted_at := a\<rparr>) = active_dispatch d"
  "active_dispatch (d\<lparr>d_last_activity_at := a\<rparr>) = active_dispatch d"
  "active_dispatch (d\<lparr>d_startup_error := b\<rparr>) = active_dispatch d"
  "active_dispatch (d\<lparr>d_completion_sha := b\<rparr>) = active_dispatch d"
  "active_dispatch (d\<lparr>d_coordinator_handle := e\<rparr>) = active_dispatch d"
  "active_dispatch (d\<lparr>d_run_id := b\<rparr>) = active_dispatch d"
  "active_dispatch (d\<lparr>d_workspace_id := e\<rparr>) = active_dispatch d"
  by (simp_all add: active_dispatch_def)

definition require_task :: "string \<Rightarrow> string \<Rightarrow> task store" where
  "require_task i message = bindT (getsT (task_by_id i)) (\<lambda>t. liftT (of_option (Bail message) t))"

definition transfer_orchestration_task_coordinator ::
  "env \<Rightarrow> string \<Rightarrow> string \<Rightarrow> string \<Rightarrow> string \<Rightarrow> bool \<Rightarrow> task store" where
  "transfer_orchestration_task_coordinator env i actor_handle new_coordinator_handle reason force =
    bindT (require_task i (''orchestration task not found: '' @ i)) (\<lambda>t.
    thenT (guardT (force \<or> t_coordinator_handle t = actor_handle)
       (Bail ''only the current coordinator can transfer this task; use --force for audited recovery''))
   (thenT (atomic (thenT
       (update_tasks env (\<lambda>t. t_id t = i) (\<lambda>t. t\<lparr>t_coordinator_handle := new_coordinator_handle\<rparr>))
       (update_dispatches (\<lambda>d. d_task_id d = i \<and> active_dispatch d)
          (\<lambda>d. d\<lparr>d_coordinator_handle := new_coordinator_handle\<rparr>))))
   (thenT (insert_orchestration_audit_event env (Some actor_handle)
       (if force then ''task.transfer.force'' else ''task.transfer'') i reason)
      (require_task i ''task not found after transfer''))))"

definition bind_manual_tasks_to_run :: "env \<Rightarrow> string \<Rightarrow> string \<Rightarrow> string \<Rightarrow> nat store" where
  "bind_manual_tasks_to_run env run_id workspace_id coordinator_handle =
    bindT (update_tasks env
       (\<lambda>t. t_run_id t = None \<and> t_workspace_id t \<in> {workspace_id, ''global''}
          \<and> t_coordinator_handle t = coordinator_handle
          \<and> t_status t \<in> {TPending, TReady, TBlocked, TDispatched, TStalled})
       (\<lambda>t. t\<lparr>t_run_id := Some run_id,
              t_workspace_id := (if t_workspace_id t = ''global'' then workspace_id else t_workspace_id t)\<rparr>))
      (\<lambda>affected. bindT (getsT (\<lambda>s. t_id ` {t \<in> set (db_tasks s). t_run_id t = Some run_id})) (\<lambda>ids.
       thenT (update_dispatches (\<lambda>d. d_task_id d \<in> ids)
          (\<lambda>d. d\<lparr>d_run_id := Some run_id, d_workspace_id := workspace_id\<rparr>))
         (okT affected)))"

text \<open>
  \<open>create_orchestration_task_with_contract\<close>: the contract is its serialised snapshot.
\<close>

definition coalesce :: "'a option \<Rightarrow> 'a option \<Rightarrow> 'a option" where
  "coalesce a b = (case a of None \<Rightarrow> b | Some x \<Rightarrow> Some x)"

definition task_of_new :: "env \<Rightarrow> string \<Rightarrow> new_task \<Rightarrow> task_status \<Rightarrow> string option \<Rightarrow> task" where
  "task_of_new env i n status contract =
    (let dependency_result = (case status of TFailed \<Rightarrow> Some ''dependency failed''
                              | TCancelled \<Rightarrow> Some ''dependency cancelled'' | _ \<Rightarrow> None)
     in \<lparr>t_id = i, t_parent_id = nt_parent_id n,
         t_created_by_terminal_handle = nt_created_by_terminal_handle n, t_task_title = nt_task_title n,
         t_display_name = coalesce (nt_display_name n)
           (coalesce (nt_task_title n) (Some (derive_display_name (nt_spec n)))),
         t_spec = nt_spec n, t_status = status, t_deps = nt_deps n, t_result = dependency_result,
         t_created_at = env_now env,
         t_completed_at = (if dependency_result \<noteq> None then Some (env_now env) else None),
         t_run_id = nt_run_id n, t_workspace_id = nt_workspace_id n,
         t_coordinator_handle = nt_coordinator_handle n, t_result_schema = nt_result_schema n,
         t_startup_failure_count = 0,
         t_cancelled_at = (if status = TCancelled then Some (env_now env) else None),
         t_stalled_at = None, t_stage_id = None, t_role_contract = contract, t_plan_revision = None,
         t_logical_id = None\<rparr>)"

definition create_orchestration_task_with_contract ::
  "env \<Rightarrow> new_task \<Rightarrow> string option \<Rightarrow> task store" where
  "create_orchestration_task_with_contract env n contract =
    thenT (guardT (case contract of None \<Rightarrow> True | Some c \<Rightarrow> env_contract_valid env c)
       (Bail ''invalid role contract''))
   (thenT (guardT (contract = None \<or> nt_result_schema n = None)
       (Bail ''role contract and legacy result schema are mutually exclusive''))
   (bindT (orchestration_id env ''task'') (\<lambda>i.
    thenT (atomic (bindT (status_for_deps (nt_deps n)) (\<lambda>status.
       insert_task env (task_of_new env i n status contract))))
      (require_task i ''inserted orchestration task not found''))))"

definition create_orchestration_task :: "env \<Rightarrow> new_task \<Rightarrow> task store" where
  "create_orchestration_task env n = create_orchestration_task_with_contract env n None"

definition validate_task_contract_completion :: "env \<Rightarrow> string \<Rightarrow> string \<Rightarrow> unit store" where
  "validate_task_contract_completion env task_id result =
    bindT (require_task task_id ''no rows returned by a query that expected to return at least one row'') (\<lambda>t.
      guardT (case t_role_contract t of None \<Rightarrow> True | Some c \<Rightarrow> env_contract_admits env c result)
        (Bail ''result does not satisfy the role contract''))"

definition guard_contract_status_update :: "string \<Rightarrow> task_status \<Rightarrow> unit store" where
  "guard_contract_status_update task_id status =
    bindT (require_task task_id ''no rows returned by a query that expected to return at least one row'') (\<lambda>t.
      guardT (\<not> (t_role_contract t \<noteq> None \<and> (status = TCompleted \<or> t_status t = TCompleted)))
        (Bail ''contracted task completion requires an active dispatch; completed evidence is immutable''))"

definition update_orchestration_task_status ::
  "env \<Rightarrow> string \<Rightarrow> task_status \<Rightarrow> string option \<Rightarrow> task store" where
  "update_orchestration_task_status env i status result =
    thenT (atomic (
      thenT (require_task i (''orchestration task not found: '' @ i))
     (thenT (guard_contract_status_update i status)
        (if status \<in> {TCompleted, TFailed} then
           thenT (update_tasks env (\<lambda>t. t_id t = i) (\<lambda>t. t\<lparr>t_status := status,
                    t_result := coalesce result (t_result t), t_completed_at := Some (env_now env)\<rparr>))
          (thenT (refresh_pending_dependents_after_task_status env i)
          (thenT (whenT (status = TFailed) (record_task_run_event env i ETaskFailed
                    (case result of None \<Rightarrow> [] | Some r \<Rightarrow> r) None))
             (update_dispatches (\<lambda>d. d_task_id d = i \<and> active_dispatch d)
                (\<lambda>d. d\<lparr>d_status := (if status = TCompleted then DCompleted else DFailed),
                        d_completed_at := Some (env_now env)\<rparr>))))
         else
           thenT (update_tasks env (\<lambda>t. t_id t = i) (\<lambda>t. t\<lparr>t_status := status,
                    t_result := coalesce result (t_result t)\<rparr>))
             (if status \<noteq> TDispatched then
                update_dispatches (\<lambda>d. d_task_id d = i \<and> active_dispatch d)
                  (\<lambda>d. d\<lparr>d_status := DFailed,
                         d_last_failure := coalesce (d_last_failure d)
                           (Some (''task status changed to '' @ task_status_as_str status)),
                         d_completed_at := Some (env_now env)\<rparr>)
              else okT 0)))))
      (require_task i (''orchestration task not found after update: '' @ i))"

text \<open>Listing: each task with the assignee and the id of its latest active dispatch.\<close>

definition latest :: "('r \<Rightarrow> bool) \<Rightarrow> 'r list \<Rightarrow> 'r option" where
  "latest p rows = List.find p (rev rows)"

definition list_scoped_orchestration_tasks ::
  "task_status option \<Rightarrow> string option \<Rightarrow> string option \<Rightarrow> db
    \<Rightarrow> (task \<times> string option \<times> string option) list" where
  "list_scoped_orchestration_tasks status run_id workspace_id s =
    map (\<lambda>t. let d = latest (\<lambda>d. d_task_id d = t_id t \<and> active_dispatch d) (db_dispatches s)
             in (t, Option.bind d d_assignee_handle, map_option d_id d))
      (sort_key (\<lambda>t. (t_created_at t, t_id t))
        (filter (\<lambda>t. (status = None \<or> Some (t_status t) = status)
             \<and> (run_id = None \<or> t_run_id t = run_id)
             \<and> (workspace_id = None \<or> Some (t_workspace_id t) = workspace_id)) (db_tasks s)))"

definition list_orchestration_tasks :: "task_status option \<Rightarrow> db \<Rightarrow> (task \<times> string option \<times> string option) list" where
  "list_orchestration_tasks status s = list_scoped_orchestration_tasks status None None s"

section \<open>Dependency status\<close>

definition dep_class :: "task_status \<Rightarrow> task_status option" where
  "dep_class st = (if st \<in> {TCompleted, TFailed, TCancelled} then Some st else None)"

definition dep_view :: "task list \<Rightarrow> string \<Rightarrow> task_status option option" where
  "dep_view ts d = map_option (\<lambda>t. dep_class (t_status t)) (find_row t_id d ts)"

lemma deps_scan_view:
  "deps_scan ts b (d # ds) =
    (case dep_view ts d of
       None \<Rightarrow> Inl (Bail (''unknown orchestration task dependency: '' @ d))
     | Some None \<Rightarrow> deps_scan ts False ds
     | Some (Some st) \<Rightarrow> (if st = TCompleted then deps_scan ts b ds else Inr st))"
  by (auto simp: dep_view_def dep_class_def split: option.splits task_status.splits)

lemma deps_scan_cong:
  "(\<And>d. d \<in> set ds \<Longrightarrow> dep_view ts d = dep_view ts' d) \<Longrightarrow> deps_scan ts b ds = deps_scan ts' b ds"
proof (induction ds arbitrary: b)
  case Nil
  then show ?case by simp
next
  case (Cons d ds)
  have "deps_scan ts b ds = deps_scan ts' b ds" for b
    using Cons by simp
  with Cons(2) [of d] show ?case
    by (auto simp: deps_scan_view simp del: deps_scan.simps split: option.splits)
qed

lemma deps_status_cong:
  "(\<And>d. d \<in> set ds \<Longrightarrow> dep_view ts d = dep_view ts' d) \<Longrightarrow> deps_status ts ds = deps_status ts' ds"
  unfolding deps_status_def using deps_scan_cong [of ds ts ts'] by simp

lemma deps_scan_ready: "deps_scan ts b ds = Inr TReady \<longleftrightarrow>
    b \<and> (\<forall>d \<in> set ds. \<exists>t. find_row t_id d ts = Some t \<and> t_status t = TCompleted)"
  by (induction ds arbitrary: b) (auto split: option.splits task_status.splits)

text \<open>A task is ready exactly when every dependency exists and is completed.\<close>

lemma deps_status_ready: "deps_status ts ds = Inr TReady \<longleftrightarrow>
    (\<forall>d \<in> set ds. \<exists>t. find_row t_id d ts = Some t \<and> t_status t = TCompleted)"
  by (simp add: deps_status_def deps_scan_ready)

lemma deps_scan_failed: "deps_scan ts b ds = Inr TFailed \<longleftrightarrow>
    (\<exists>xs d ys. ds = xs @ d # ys \<and> dep_view ts d = Some (Some TFailed)
      \<and> (\<forall>x \<in> set xs. dep_view ts x \<in> {Some None, Some (Some TCompleted)}))"
proof (induction ds arbitrary: b)
  case Nil
  then show ?case by simp
next
  case (Cons d ds)
  show ?case (is "?L = (\<exists>xs e ys. ?P xs e ys)")
  proof
    assume ?L
    then consider "dep_view ts d = Some (Some TFailed)"
      | b' where "dep_view ts d \<in> {Some None, Some (Some TCompleted)}" "deps_scan ts b' ds = Inr TFailed"
      by (auto simp: deps_scan_view simp del: deps_scan.simps split: option.splits if_splits)
    then show "\<exists>xs e ys. ?P xs e ys"
    proof cases
      case 1
      then have "?P [] d ds" by simp
      then show ?thesis by blast
    next
      case 2
      then obtain xs e ys where "ds = xs @ e # ys" "dep_view ts e = Some (Some TFailed)"
        "\<forall>x \<in> set xs. dep_view ts x \<in> {Some None, Some (Some TCompleted)}"
        using Cons by blast
      with 2 have "?P (d # xs) e ys" by auto
      then show ?thesis by blast
    qed
  next
    assume "\<exists>xs e ys. ?P xs e ys"
    then obtain xs e ys where P: "?P xs e ys" by blast
    show ?L
    proof (cases xs)
      case Nil
      with P show ?thesis by (simp add: deps_scan_view del: deps_scan.simps)
    next
      case (Cons x xs')
      with P Cons.IH have "deps_scan ts b' ds = Inr TFailed" for b' by fastforce
      with P Cons show ?thesis by (auto simp: deps_scan_view simp del: deps_scan.simps)
    qed
  qed
qed

lemma dep_class_simps [simp]: "dep_class TPending = None" "dep_class TReady = None"
  by (simp_all add: dep_class_def)

section \<open>Refreshing dependents\<close>

definition unsettled :: "coordinator_run list \<Rightarrow> task list \<Rightarrow> task \<Rightarrow> bool" where
  "unsettled runs ts t \<longleftrightarrow> t \<in> set ts \<and> shared_pending runs t
    \<and> deps_status ts (t_deps t) \<in> {Inr TReady, Inr TFailed}"

text \<open>Giving a pending task its new status leaves the view of the others' dependencies alone.\<close>

lemma dep_view_update:
  assumes "\<And>t. t_id (f t) = t_id t"
  shows "dep_view (update_rows (\<lambda>t. t_id t = c) f ts) d =
    (if d = c then map_option (\<lambda>t. dep_class (t_status (f t))) (find_row t_id c ts) else dep_view ts d)"
  using assms find_row_Some [of t_id d ts]
  by (cases "find_row t_id d ts") (auto simp: dep_view_def find_update_rows)

lemma unsettled_update:
  assumes keyed: "distinct (map t_id ts)" and c: "c \<in> set ts" "t_status c = TPending"
    and f: "\<And>t. t_id (f t) = t_id t" "\<And>t. t_status (f t) = st" "st \<in> {TReady, TFailed}"
    and u: "unsettled runs (update_rows (\<lambda>t. t_id t = t_id c) f ts) t"
  shows "t_id t \<noteq> t_id c \<and> (unsettled runs ts t \<or> (st = TFailed \<and> t_id c \<in> set (t_deps t)))"
proof -
  let ?ts = "update_rows (\<lambda>t. t_id t = t_id c) f ts"
  have pend: "t_status t = TPending" and mem: "t \<in> set ?ts"
    using u by (auto simp: unsettled_def shared_pending_def)
  then have t: "t \<in> set ts" "t_id t \<noteq> t_id c"
    using f(2,3) by (auto simp: set_update_rows)
  have found: "find_row t_id (t_id c) ts = Some c"
    by (rule find_row_unique [OF keyed c(1)])
  have "dep_view ts (t_id c) = Some None"
    using c(2) found by (simp add: dep_view_def)
  then have "dep_view ?ts d = dep_view ts d"
    if "d \<in> set (t_deps t)" "st = TReady \<or> t_id c \<notin> set (t_deps t)" for d
    using that f(2) found by (auto simp: dep_view_update [OF f(1)])
  then have "deps_status ?ts (t_deps t) = deps_status ts (t_deps t)"
    if "st = TReady \<or> t_id c \<notin> set (t_deps t)"
    using that by (intro deps_status_cong) blast
  with t u f(3) show ?thesis
    by (cases "t_id c \<in> set (t_deps t)") (auto simp: unsettled_def)
qed

text \<open>Everything but the tasks, as a task statement leaves it.\<close>

definition beside_tasks :: "db \<Rightarrow> dispatch list \<times> gate list \<times> message list \<times> coordinator_run list
    \<times> launch list \<times> run_workspace list \<times> run_event list \<times> audit_event list \<times> nat \<times> nat" where
  "beside_tasks s = snd (aside s)"

lemma update_tasks_beside: "obeys (same beside_tasks) (update_tasks env p f)"
proof (rule obeysI)
  fix s
  obtain r s' where "update_tasks env p f s = (r, s')" by fastforce
  then show "same beside_tasks s (snd (update_tasks env p f s))"
    by (cases r) (auto simp: same_def beside_tasks_def aside_def task_gates_def
        dest!: update_tasks_ok(2) atomic_unchanged)
qed

abbreviation waiting :: "db \<Rightarrow> task list" where
  "waiting s \<equiv> filter (shared_pending (db_runs s)) (db_tasks s)"

lemma filter_update_row:
  assumes "distinct (map key rows)" "c \<in> set rows" "q c" "\<And>r. key (f r) = key r" "\<And>r. \<not> q (f r)"
  shows "Suc (length (filter q (update_rows (\<lambda>r. key r = key c) f rows))) = length (filter q rows)"
  using assms(1,2)
proof (induction rows)
  case Nil
  then show ?case by simp
next
  case (Cons r rows)
  show ?case
  proof (cases "key r = key c")
    case True
    then have "r = c" using Cons(2,3) by (auto simp: image_iff)
    moreover have "update_rows (\<lambda>r. key r = key c) f rows = rows"
      using Cons(2) True by (intro update_rows_none) (auto simp: image_iff)
    ultimately show ?thesis using assms(3,5) by simp
  next
    case False
    then have "c \<in> set rows" using Cons(3) by auto
    with Cons False show ?thesis by simp
  qed
qed

text \<open>What the refresh may do to a task: a pending one becomes ready or failed.\<close>

definition moved :: "task \<Rightarrow> task \<Rightarrow> bool" where
  "moved t t' \<longleftrightarrow> t' = t \<or> (t_status t = TPending \<and>
    (\<exists>st \<in> {TReady, TFailed}. \<exists>r c. t' = t\<lparr>t_status := st, t_result := r, t_completed_at := c\<rparr>))"

lemma moved_refl: "moved t t"
  unfolding moved_def by blast

lemma moved_trans: "moved t t' \<Longrightarrow> moved t' t'' \<Longrightarrow> moved t t''"
  by (auto simp: moved_def)

lemma moved_promoted: "t_status t = TPending \<Longrightarrow> moved t (promoted t)"
  unfolding moved_def promoted_def
  by (intro disjI2 conjI bexI [of _ TReady] exI [of _ "t_result t"] exI [of _ "t_completed_at t"]) simp_all

lemma moved_dependency_failed: "t_status t = TPending \<Longrightarrow> moved t (dependency_failed env x t)"
  unfolding moved_def dependency_failed_def by blast

lemma moved_all_trans: "list_all2 moved ts ts' \<Longrightarrow> list_all2 moved ts' ts'' \<Longrightarrow> list_all2 moved ts ts''"
  using list_all2_trans [of moved moved moved] moved_trans by blast

lemma moved_update:
  assumes "distinct (map t_id ts)" "c \<in> set ts" "moved c (f c)"
  shows "list_all2 moved ts (update_rows (\<lambda>t. t_id t = t_id c) f ts)"
proof -
  have "moved t (if t_id t = t_id c then f t else t)" if "t \<in> set ts" for t
  proof (cases "t_id t = t_id c")
    case True
    have "t = c"
      using find_row_unique [OF assms(1) that] find_row_unique [OF assms(1,2)] True by (metis option.inject)
    with assms(3) True show ?thesis by simp
  next
    case False
    with moved_refl show ?thesis by simp
  qed
  then show ?thesis
    unfolding update_rows_def list.rel_map(2) list_all2_same by blast
qed

text \<open>
  The state of one pass: \<open>cs\<close> are the rows still to be looked at, \<open>x\<close> the popped task, \<open>ts\<close> the tasks
  at the start.  Every task that should move is one of the exempted ones, or waits for a task on the stack, or
  depends on \<open>x\<close> and is still ahead.
\<close>

definition pass_inv :: "(task \<Rightarrow> bool) \<Rightarrow> task list \<Rightarrow> string \<Rightarrow> task list \<Rightarrow> string list \<Rightarrow> db \<Rightarrow> bool" where
  "pass_inv exempt ts x cs stack s \<longleftrightarrow>
    distinct (map t_id (db_tasks s)) \<and> distinct (map t_id cs) \<and> set cs \<subseteq> set (waiting s)
    \<and> list_all2 moved ts (db_tasks s)
    \<and> (\<forall>t. unsettled (db_runs s) (db_tasks s) t \<longrightarrow>
        exempt t \<or> set (t_deps t) \<inter> set stack \<noteq> {} \<or> (x \<in> set (t_deps t) \<and> t \<in> set cs))"

lemma pass_inv_skip:
  assumes "pass_inv exempt ts x (c # cs) stack s"
    and "x \<notin> set (t_deps c) \<or> deps_status (db_tasks s) (t_deps c) \<notin> {Inr TReady, Inr TFailed}"
  shows "pass_inv exempt ts x cs stack s"
proof -
  have "\<not> (unsettled (db_runs s) (db_tasks s) c \<and> x \<in> set (t_deps c))"
    using assms(2) by (auto simp: unsettled_def)
  with assms(1) show ?thesis unfolding pass_inv_def by fastforce
qed

lemma pass_inv_update:
  assumes inv: "pass_inv exempt ts x (c # cs) stack s"
    and f: "\<And>t. t_id (f t) = t_id t" "\<And>t. t_status (f t) = st" "st \<in> {TReady, TFailed}"
    and fc: "moved c (f c)"
    and s': "db_tasks s' = update_rows (\<lambda>t. t_id t = t_id c) f (db_tasks s)" "db_runs s' = db_runs s"
  shows "pass_inv exempt ts x cs (if st = TFailed then t_id c # stack else stack) s'"
    and "Suc (length (waiting s')) = length (waiting s)"
proof -
  have keyed: "distinct (map t_id (db_tasks s))" and c: "c \<in> set (db_tasks s)" "shared_pending (db_runs s) c"
    and cs: "distinct (map t_id (c # cs))" "set cs \<subseteq> set (waiting s)"
    using inv by (auto simp: pass_inv_def)
  have other: "t_id t \<noteq> t_id c" if "t \<in> set cs" for t
    using cs(1) that by (metis distinct.simps(2) image_eqI list.set_map list.simps(9))
  show "Suc (length (waiting s')) = length (waiting s)"
    unfolding s' by (rule filter_update_row [where q = "shared_pending (db_runs s)", OF keyed c]) (use f in \<open>auto simp: shared_pending_def\<close>)
  have "set cs \<subseteq> set (waiting s')"
    using cs(2) other by (auto simp: s' set_update_rows)
  moreover have "distinct (map t_id (db_tasks s'))"
    using keyed by (simp add: s' map_update_rows f)
  moreover have "exempt t \<or> set (t_deps t) \<inter> set (if st = TFailed then t_id c # stack else stack) \<noteq> {}
      \<or> (x \<in> set (t_deps t) \<and> t \<in> set cs)" if u: "unsettled (db_runs s') (db_tasks s') t" for t
  proof -
    have "t_id t \<noteq> t_id c" "unsettled (db_runs s) (db_tasks s) t \<or> (st = TFailed \<and> t_id c \<in> set (t_deps t))"
      using unsettled_update [OF keyed c(1) _ f] u c(2) unfolding s' shared_pending_def by auto
    with inv show ?thesis unfolding pass_inv_def by fastforce
  qed
  moreover have "list_all2 moved ts (db_tasks s')"
    using inv moved_update [where f = f, OF keyed c(1) fc] moved_all_trans unfolding pass_inv_def s' by blast
  ultimately show "pass_inv exempt ts x cs (if st = TFailed then t_id c # stack else stack) s'"
    unfolding pass_inv_def using cs(1) by auto
qed

lemma refresh_rows_ok:
  assumes "pass_inv exempt ts x cs stack s" "refresh_rows env x cs stack s = (Inr stack', s')"
  shows "pass_inv exempt ts x [] stack' s' \<and> length stack' + length (waiting s') \<le> length stack + length (waiting s)"
  using assms
proof (induction cs arbitrary: stack s)
  case Nil
  then show ?case by (simp add: okT_def)
next
  case (Cons c cs)
  show ?case
  proof (cases "x \<in> set (t_deps c)")
    case False
    with Cons.prems Cons.IH pass_inv_skip [OF Cons.prems(1)] show ?thesis by simp
  next
    case True
    then obtain st where st: "deps_status (db_tasks s) (t_deps c) = Inr st"
      using Cons.prems(2) by (auto simp: status_for_deps_def txn_simps)
    have pend: "t_status c = TPending"
      using Cons.prems(1) by (simp add: pass_inv_def shared_pending_def)
    consider (same) "st \<notin> {TReady, TFailed}" "refresh_rows env x cs stack s = (Inr stack', s')"
      | (ready) n s1 where "st = TReady" "update_tasks env (\<lambda>t. t_id t = t_id c) promoted s = (Inr n, s1)"
          "refresh_rows env x cs stack s1 = (Inr stack', s')"
      | (failed) n s1 where "st = TFailed"
          "update_tasks env (\<lambda>t. t_id t = t_id c) (dependency_failed env x) s = (Inr n, s1)"
          "refresh_rows env x cs (t_id c # stack) s1 = (Inr stack', s')"
      using Cons.prems(2) True st
      by (cases st) (auto simp: status_for_deps_def txn_simps)
    then show ?thesis
    proof cases
      case same
      then show ?thesis using pass_inv_skip [OF Cons.prems(1)] st Cons.IH by auto
    next
      case ready
      have "moved c (promoted c)" using pend by (rule moved_promoted)
      note up = pass_inv_update [where f = promoted and st = TReady, OF Cons.prems(1) _ _ _ this
          update_tasks_rows [OF ready(2)] update_tasks_frame(4) [OF ready(2)]]
      have "pass_inv exempt ts x cs stack s1" "Suc (length (waiting s1)) = length (waiting s)"
        using up by (simp_all add: promoted_def)
      with Cons.IH [OF _ ready(3)] show ?thesis by auto
    next
      case failed
      have "moved c (dependency_failed env x c)" using pend by (rule moved_dependency_failed)
      note up = pass_inv_update [where f = "dependency_failed env x" and st = TFailed, OF Cons.prems(1) _ _ _ this
          update_tasks_rows [OF failed(2)] update_tasks_frame(4) [OF failed(2)]]
      have "pass_inv exempt ts x cs (t_id c # stack) s1" "Suc (length (waiting s1)) = length (waiting s)"
        using up by (simp_all add: dependency_failed_def)
      with Cons.IH [OF _ failed(3)] show ?thesis by auto
    qed
  qed
qed

lemma deps_scan_error: "deps_scan ts b ds = Inl e \<Longrightarrow> e \<noteq> LoopBound"
  by (induction ds arbitrary: b) (auto split: option.splits task_status.splits)

lemma status_for_deps_errors: "fails_within (- {LoopBound}) (status_for_deps ds)"
  by (auto simp: fails_within_def status_for_deps_def deps_status_def txn_run dest: deps_scan_error
      split: if_splits)

lemma refresh_rows_errors: "fails_within (- {LoopBound}) (refresh_rows env x cs stack)"
  by (induction cs arbitrary: stack)
    (auto intro!: fails_within_intros status_for_deps_errors update_tasks_errors split: task_status.split)

definition loop_inv :: "(task \<Rightarrow> bool) \<Rightarrow> task list \<Rightarrow> string list \<Rightarrow> db \<Rightarrow> bool" where
  "loop_inv exempt ts stack s \<longleftrightarrow> distinct (map t_id (db_tasks s)) \<and> list_all2 moved ts (db_tasks s)
    \<and> (\<forall>t. unsettled (db_runs s) (db_tasks s) t \<longrightarrow> exempt t \<or> set (t_deps t) \<inter> set stack \<noteq> {})"

lemma loop_inv_pass: "loop_inv exempt ts (x # stack) s \<Longrightarrow> pass_inv exempt ts x (waiting s) stack s"
  by (auto simp: loop_inv_def pass_inv_def unsettled_def distinct_map_filter)

lemma pass_inv_loop: "pass_inv exempt ts x [] stack s \<Longrightarrow> loop_inv exempt ts stack s"
  by (auto simp: loop_inv_def pass_inv_def)

lemma refresh_loop_ok:
  assumes "loop_inv exempt ts stack s" "refresh_loop fuel env stack s = (Inr u, s')"
  shows "loop_inv exempt ts [] s'"
  using assms
proof (induction fuel env stack arbitrary: s rule: refresh_loop.induct)
  case (3 fuel env x stack)
  then obtain stack' s1 where 1: "refresh_rows env x (waiting s) stack s = (Inr stack', s1)"
    and 2: "refresh_loop fuel env stack' s1 = (Inr u, s')"
    by (auto simp: txn_simps)
  have "loop_inv exempt ts stack' s1"
    using refresh_rows_ok [OF loop_inv_pass [OF 3(2)] 1] pass_inv_loop by blast
  from 3(1) [OF this 2] show ?case .
qed (auto simp: txn_simps)

lemma refresh_loop_bound:
  assumes "loop_inv exempt ts stack s" "length stack + length (waiting s) \<le> fuel"
  shows "fst (refresh_loop fuel env stack s) \<noteq> Inl LoopBound"
  using assms
proof (induction fuel env stack arbitrary: s rule: refresh_loop.induct)
  case (3 fuel env x stack)
  show ?case
  proof (cases "refresh_rows env x (waiting s) stack s")
    case (Pair r s1)
    show ?thesis
    proof (cases r)
      case (Inl e)
      with Pair have "e \<noteq> LoopBound" using fails_withinD [OF refresh_rows_errors] by blast
      with Pair Inl show ?thesis by (simp add: bindT_def getsT_def)
    next
      case (Inr stack')
      with Pair have "loop_inv exempt ts stack' s1" "length stack' + length (waiting s1) \<le> length stack + length (waiting s)"
        using refresh_rows_ok [OF loop_inv_pass [OF 3(2)]] pass_inv_loop by blast+
      then have "fst (refresh_loop fuel env stack' s1) \<noteq> Inl LoopBound"
        using 3(1,3) by simp
      with Pair Inr show ?thesis by (simp add: bindT_def getsT_def)
    qed
  qed
qed (auto simp: okT_def)

lemma loop_inv_start: "distinct (map t_id (db_tasks s)) \<Longrightarrow>
    (\<And>t. unsettled (db_runs s) (db_tasks s) t \<Longrightarrow> exempt t \<or> x \<in> set (t_deps t)) \<Longrightarrow>
    loop_inv exempt (db_tasks s) [x] s"
  by (auto simp: loop_inv_def moved_refl intro: list.rel_refl)

lemma refresh_ok:
  assumes "distinct (map t_id (db_tasks s))"
    and "refresh_pending_dependents_after_task_status env x s = (Inr u, s')"
  shows "distinct (map t_id (db_tasks s'))" "list_all2 moved (db_tasks s) (db_tasks s')"
proof -
  have "refresh_loop (Suc (length (waiting s))) env [x] s = (Inr u, s')"
    using assms(2) by (simp add: refresh_pending_dependents_after_task_status_def txn_simps)
  from refresh_loop_ok [OF loop_inv_start [where exempt = "\<lambda>_. True" and x = x, OF assms(1)] this]
  show "distinct (map t_id (db_tasks s'))" "list_all2 moved (db_tasks s) (db_tasks s')"
    by (simp_all add: loop_inv_def)
qed

lemma refresh_settles:
  assumes "distinct (map t_id (db_tasks s))"
    and "refresh_pending_dependents_after_task_status env x s = (Inr u, s')"
    and "unsettled (db_runs s') (db_tasks s') t"
  shows "unsettled (db_runs s) (db_tasks s) t \<and> x \<notin> set (t_deps t)"
proof -
  have "refresh_loop (Suc (length (waiting s))) env [x] s = (Inr u, s')"
    using assms(2) by (simp add: refresh_pending_dependents_after_task_status_def txn_simps)
  from refresh_loop_ok [OF loop_inv_start [where x = x and
      exempt = "\<lambda>t. unsettled (db_runs s) (db_tasks s) t \<and> x \<notin> set (t_deps t)", OF assms(1)] this]
  show ?thesis using assms(3) by (auto simp: loop_inv_def)
qed

lemma refresh_rows_obeys:
  assumes "txn_preorder R" "\<And>p f. (\<And>t. t_id (f t) = t_id t) \<Longrightarrow> obeys R (update_tasks env p f)"
  shows "obeys R (refresh_rows env x cs stack)"
proof -
  have "obeys R (update_tasks env p promoted)" "obeys R (update_tasks env p (dependency_failed env x))" for p
    by (intro assms(2); simp add: promoted_def dependency_failed_def)+
  then show ?thesis
    by (induction cs arbitrary: stack)
      (auto simp: status_for_deps_def split: task_status.split
        intro!: txn_preorder.holds_basic [OF assms(1)] txn_preorder.holds_bind [OF assms(1)]
          txn_preorder.holds_then [OF assms(1)])
qed

lemma refresh_obeys:
  assumes "txn_preorder R" "\<And>p f. (\<And>t. t_id (f t) = t_id t) \<Longrightarrow> obeys R (update_tasks env p f)"
  shows "obeys R (refresh_pending_dependents_after_task_status env x)"
proof -
  have "obeys R (refresh_loop fuel env stack)" for fuel stack
  proof (induction fuel arbitrary: stack)
    case 0
    then show ?case by (cases stack) (simp_all add: txn_preorder.holds_basic [OF assms(1)])
  next
    case (Suc fuel)
    then show ?case
      by (cases stack) (auto intro!: txn_preorder.holds_basic [OF assms(1)]
          txn_preorder.holds_bind [OF assms(1)] refresh_rows_obeys [OF assms])
  qed
  then show ?thesis
    unfolding refresh_pending_dependents_after_task_status_def
    by (intro txn_preorder.holds_basic [OF assms(1)] txn_preorder.holds_bind [OF assms(1)])
qed

lemma refresh_beside: "obeys (same beside_tasks) (refresh_pending_dependents_after_task_status env x)"
  by (rule refresh_obeys [OF keeps.txn_preorder_axioms update_tasks_beside])

lemma refresh_advances: "obeys advances (refresh_pending_dependents_after_task_status env x)"
  by (rule refresh_obeys [OF advancing.txn_preorder_axioms]) (rule statements_advance)

lemma unsettled_set_status:
  assumes keyed: "distinct (map t_id ts)"
    and f: "\<And>t. t_id (f t) = t_id t" "\<And>t. t_status (f t) \<noteq> TPending"
    and u: "unsettled runs (update_rows (\<lambda>t. t_id t = i) f ts) t"
  shows "unsettled runs ts t \<or> i \<in> set (t_deps t)"
proof (cases "i \<in> set (t_deps t)")
  case False
  then have "deps_status (update_rows (\<lambda>t. t_id t = i) f ts) (t_deps t) = deps_status ts (t_deps t)"
    by (intro deps_status_cong) (auto simp: dep_view_update [OF f(1)])
  moreover have "t \<in> set ts"
    using u f(2) by (auto simp: unsettled_def shared_pending_def set_update_rows)
  ultimately show ?thesis using u by (auto simp: unsettled_def)
qed blast

text \<open>The frame of the refresh and of a task statement, as equations.\<close>

lemma task_frame:
  assumes "obeys (same beside_tasks) m" "m s = (r, s')"
  shows "db_dispatches s' = db_dispatches s" "task_gates s' = task_gates s" "db_messages s' = db_messages s"
    "db_runs s' = db_runs s" "db_launches s' = db_launches s" "db_run_workspaces s' = db_run_workspaces s"
    "db_run_events s' = db_run_events s" "db_message_sequence s' = db_message_sequence s"
  using obeysD [OF assms] by (simp_all add: same_def beside_tasks_def aside_def)

lemmas refresh_frame = task_frame [OF refresh_beside]

lemma moved_keeps:
  "moved t t' \<Longrightarrow> t_id t' = t_id t" "moved t t' \<Longrightarrow> t_run_id t' = t_run_id t" "moved t t' \<Longrightarrow> t_deps t' = t_deps t"
  "moved t t' \<Longrightarrow> t_status t \<noteq> TPending \<Longrightarrow> t' = t" "moved t t' \<Longrightarrow> t_status t' = TPending \<Longrightarrow> t' = t"
  by (auto simp: moved_def)

lemma moved_all_find:
  "list_all2 moved ts ts' \<Longrightarrow> rel_option moved (find_row t_id i ts) (find_row t_id i ts')"
  by (induction rule: list_all2_induct) (auto dest: moved_keeps(1))

lemma require_task_Inr: "require_task i m s = (Inr t, s') \<longleftrightarrow> task_by_id i s = Some t \<and> s' = s"
  by (auto simp: require_task_def of_option_def txn_simps split: option.splits)

text \<open>The phases of a status change that ends a task.\<close>

lemma terminal_status_phases:
  assumes op: "update_orchestration_task_status env i st result s = (Inr t, s')" and st: "st \<in> {TCompleted, TFailed}"
    and keyed: "distinct (map t_id (db_tasks s))"
  obtains s1 s2 where "db_tasks s1 = update_rows (\<lambda>t. t_id t = i) (\<lambda>t. t\<lparr>t_status := st,
        t_result := coalesce result (t_result t), t_completed_at := Some (env_now env)\<rparr>) (db_tasks s)"
    and "db_runs s1 = db_runs s" "db_dispatches s1 = db_dispatches s"
    and "refresh_pending_dependents_after_task_status env i s1 = (Inr (), s2)"
    and "db_tasks s' = db_tasks s2" "db_runs s' = db_runs s2"
    and "db_dispatches s' = update_rows (\<lambda>d. d_task_id d = i \<and> active_dispatch d)
        (\<lambda>d. d\<lparr>d_status := (if st = TCompleted then DCompleted else DFailed),
          d_completed_at := Some (env_now env)\<rparr>) (db_dispatches s)"
    and "task_by_id i s' = Some t" "task_by_id i s \<noteq> None"
proof -
  from op st obtain t0 n s1 s2 s3 k where
    0: "task_by_id i s = Some t0" and 4: "task_by_id i s' = Some t" and
    1: "update_tasks env (\<lambda>t. t_id t = i) (\<lambda>t. t\<lparr>t_status := st, t_result := coalesce result (t_result t),
          t_completed_at := Some (env_now env)\<rparr>) s = (Inr n, s1)" and
    2: "refresh_pending_dependents_after_task_status env i s1 = (Inr (), s2)" and
    3: "whenT (st = TFailed) (record_task_run_event env i ETaskFailed
          (case result of None \<Rightarrow> [] | Some r \<Rightarrow> r) None) s2 = (Inr (), s3)" and
    5: "update_dispatches (\<lambda>d. d_task_id d = i \<and> active_dispatch d)
          (\<lambda>d. d\<lparr>d_status := (if st = TCompleted then DCompleted else DFailed),
            d_completed_at := Some (env_now env)\<rparr>) s3 = (Inr k, s')"
    unfolding update_orchestration_task_status_def guard_contract_status_update_def
    by (auto simp: txn_simps require_task_Inr)
  have fr: "db_tasks s3 = db_tasks s2" "db_runs s3 = db_runs s2" "db_dispatches s3 = db_dispatches s2"
    using 3 by (auto simp: txn_simps record_event_frame split: if_splits)
  show thesis
    by (rule that [of s1 s2])
      (use 0 1 2 fr 4 5 in \<open>simp_all add: statement_rows statement_frames refresh_frame\<close>)
qed

text \<open>
  C27: Refreshing the dependents of a task always comes to an end: with unique task ids the fuel (one
  step for the changed task, one for each waiting task) is never used up.
\<close>

theorem refresh_terminates:
  assumes "distinct (map t_id (db_tasks s))"
  shows "fst (refresh_pending_dependents_after_task_status env x s) \<noteq> Inl LoopBound"
proof -
  have "fst (refresh_loop (Suc (length (waiting s))) env [x] s) \<noteq> Inl LoopBound"
    by (rule refresh_loop_bound [OF loop_inv_start [where exempt = "\<lambda>_. True" and x = x, OF assms]]) simp_all
  then show ?thesis
    by (simp add: refresh_pending_dependents_after_task_status_def bindT_def getsT_def)
qed

text \<open>A store with two tasks, the second waiting for the first.\<close>

definition demo_env :: env where
  "demo_env = \<lparr>env_now = 7, env_random = (\<lambda>n. replicate n CHR ''0'' @ ''1''), env_json = (\<lambda>_. ''{}''),
     env_contract_valid = (\<lambda>_. True), env_contract_admits = (\<lambda>_ _. True)\<rparr>"

definition demo_task :: "string \<Rightarrow> task_status \<Rightarrow> string list \<Rightarrow> task" where
  "demo_task i st deps = \<lparr>t_id = i, t_parent_id = None, t_created_by_terminal_handle = None,
     t_task_title = None, t_display_name = None, t_spec = ''work'', t_status = st, t_deps = deps,
     t_result = None, t_created_at = 0, t_completed_at = None, t_run_id = None, t_workspace_id = ''w'',
     t_coordinator_handle = ''c'', t_result_schema = None, t_startup_failure_count = 0,
     t_cancelled_at = None, t_stalled_at = None, t_stage_id = None, t_role_contract = None,
     t_plan_revision = None, t_logical_id = None\<rparr>"

definition demo_db :: db where
  "demo_db = empty_db\<lparr>db_tasks := [demo_task ''a'' TReady [], demo_task ''b'' TPending [''a'']]\<rparr>"

lemmas demo_defs = demo_env_def demo_task_def demo_db_def empty_db_def

theorem refresh_terminates_witness:
  "distinct (map t_id (db_tasks demo_db))
    \<and> fst (refresh_pending_dependents_after_task_status demo_env ''a'' demo_db) \<noteq> Inl LoopBound"
  using refresh_terminates [of demo_db demo_env "''a''"] by (simp add: demo_defs)

text \<open>
  C11: Ending a task settles its dependents.  After a successful change of a task to \<open>completed\<close> or \<open>failed\<close>
  the task has that status, none of its dispatches is active, and every other task is as before or was pending
  and has become ready or failed.  A waiting task of a shared run whose dependencies are all completed or whose
  first settled dependency failed is due.  A task that is due afterwards was due before, unchanged, and does not
  depend on the ended task: the call makes every dependent that it decides ready or failed, through any chain of
  failures, and leaves no new task due.
\<close>

theorem ending_a_task_settles_dependents:
  assumes "distinct (map t_id (db_tasks s))"
    and "update_orchestration_task_status env i st result s = (Inr t, s')" "st \<in> {TCompleted, TFailed}"
  shows "t_id t = i \<and> t_status t = st \<and> t_result t = coalesce result (Option.bind (task_by_id i s) t_result)
    \<and> task_by_id i s' = Some t
    \<and> (\<forall>d \<in> set (db_dispatches s'). d_task_id d = i \<longrightarrow> \<not> active_dispatch d)
    \<and> (\<forall>j. j \<noteq> i \<longrightarrow> rel_option moved (task_by_id j s) (task_by_id j s'))
    \<and> (\<forall>u. unsettled (db_runs s') (db_tasks s') u \<longrightarrow> unsettled (db_runs s) (db_tasks s) u \<and> i \<notin> set (t_deps u))"
proof -
  let ?f = "\<lambda>t. t\<lparr>t_status := st, t_result := coalesce result (t_result t), t_completed_at := Some (env_now env)\<rparr>"
  obtain s1 s2 where 1: "db_tasks s1 = update_rows (\<lambda>t. t_id t = i) ?f (db_tasks s)" "db_runs s1 = db_runs s"
      "db_dispatches s1 = db_dispatches s"
    and 2: "refresh_pending_dependents_after_task_status env i s1 = (Inr (), s2)"
    and 3: "db_tasks s' = db_tasks s2" "db_runs s' = db_runs s2"
    and 4: "db_dispatches s' = update_rows (\<lambda>d. d_task_id d = i \<and> active_dispatch d)
        (\<lambda>d. d\<lparr>d_status := (if st = TCompleted then DCompleted else DFailed),
          d_completed_at := Some (env_now env)\<rparr>) (db_dispatches s)"
    and t: "task_by_id i s' = Some t" "task_by_id i s \<noteq> None"
    by (rule terminal_status_phases [OF assms(2,3,1)])
  have keyed: "distinct (map t_id (db_tasks s1))"
    using assms(1) by (simp add: 1 map_update_rows)
  have settled: "unsettled (db_runs s) (db_tasks s) u \<and> i \<notin> set (t_deps u)"
    if "unsettled (db_runs s') (db_tasks s') u" for u
    using unsettled_set_status [OF assms(1), where f = ?f and i = i and t = u and runs = "db_runs s"]
      refresh_settles [OF keyed 2, of u] that assms(3) unfolding 1 3 by auto
  have find1: "task_by_id j s1 = map_option (\<lambda>t. if t_id t = i then ?f t else t) (task_by_id j s)" for j
    by (simp add: 1 find_update_rows)
  have moved: "rel_option moved (task_by_id j s1) (task_by_id j s')" for j
    using moved_all_find [OF refresh_ok(2) [OF keyed 2]] by (simp add: 3)
  obtain t0 where t0: "task_by_id i s = Some t0" "t_id t0 = i"
    using t(2) find_row_Some by fastforce
  then have "rel_option moved (Some (?f t0)) (Some t)"
    using moved [of i] find1 [of i] t(1) by simp
  then have ti: "t = ?f t0"
    using moved_keeps(4) [of "?f t0" t] assms(3) by auto
  have "rel_option moved (task_by_id j s) (task_by_id j s')" if "j \<noteq> i" for j
    using moved [of j] find1 [of j] that find_row_Some [of t_id j "db_tasks s"]
    by (cases "task_by_id j s") auto
  moreover have "\<forall>d \<in> set (db_dispatches s'). d_task_id d = i \<longrightarrow> \<not> active_dispatch d"
    unfolding 4 by (rule update_rows_all) (simp_all add: active_dispatch_def)
  ultimately show ?thesis
    using t(1) settled by (simp add: ti t0)
qed

theorem ending_a_task_settles_dependents_witness:
  "case update_orchestration_task_status demo_env ''a'' TCompleted None demo_db of
     (Inl _, _) \<Rightarrow> False
   | (Inr t, s') \<Rightarrow> t_status t = TCompleted \<and> map_option t_status (task_by_id ''b'' s') = Some TReady
       \<and> (\<forall>u. \<not> unsettled (db_runs s') (db_tasks s') u)"
proof -
  let ?r = "update_orchestration_task_status demo_env ''a'' TCompleted None demo_db"
  have b: "map_option t_status (task_by_id ''b'' (snd ?r)) = Some TReady" by code_simp
  have "\<not> isl (fst ?r)" by code_simp
  then obtain t s' where r: "?r = (Inr t, s')" by (cases ?r; cases "fst ?r") auto
  have "\<not> unsettled (db_runs demo_db) (db_tasks demo_db) u" for u
    by (auto simp: unsettled_def shared_pending_def demo_defs deps_status_def)
  moreover have "distinct (map t_id (db_tasks demo_db))" by (simp add: demo_defs)
  ultimately have "t_status t = TCompleted" "\<forall>u. \<not> unsettled (db_runs s') (db_tasks s') u"
    using ending_a_task_settles_dependents [OF _ r] by blast+
  with r b show ?thesis by simp
qed

end
