(* ===== verification/Dispatch_Store.thy ===== *)
theory Dispatch_Store
  imports Task_Store
begin

text \<open>
  Dispatches: assigning a ready task to a terminal (\<open>orchestration_dispatch_store.rs\<close>, \<open>run_dispatch.rs\<close>),
  the lease between hand-off and outcome (\<open>orchestration_dispatch_lease_store.rs\<close>), and the outcome itself
  with its circuit breaker (\<open>orchestration_dispatch_outcome_store.rs\<close>).
\<close>

section \<open>Creation\<close>

definition orchestration_circuit_breaker_threshold :: int where
  "orchestration_circuit_breaker_threshold = 3"

datatype dispatch_target =
  Terminal (tgt_handle: string) (tgt_coordinator_handle: string) (tgt_terminal_policy: string)
| Attempt (tgt_workspace_id: string) (tgt_terminal_handle: string) (tgt_launch_id: string)
    (tgt_profile_name: string) (tgt_quota_group: "string option")

fun assignee :: "dispatch_target \<Rightarrow> string" where
  "assignee (Terminal handle _ _) = handle"
| "assignee (Attempt _ terminal_handle _ _ _) = terminal_handle"

record new_run_dispatch =
  nd_id :: string
  nd_task_id :: string
  nd_run_id :: "string option"
  nd_workspace_id :: string
  nd_context_token_hash :: "string option"
  nd_failure_count :: int
  nd_target :: dispatch_target

definition latest_attempt :: "run_workspace list \<Rightarrow> string \<Rightarrow> run_workspace option" where
  "latest_attempt ws task_id =
    (case filter (\<lambda>w. w_task_id w = Some task_id) ws of
       [] \<Rightarrow> None
     | v # vs \<Rightarrow> Some (foldl (\<lambda>b w. if w_attempt b < w_attempt w then w else b) v vs))"

definition ensure_dispatch_target_allowed :: "string \<Rightarrow> dispatch_target \<Rightarrow> unit store" where
  "ensure_dispatch_target_allowed task_id target = bindT (getsT (\<lambda>s. s)) (\<lambda>s.
     let isolated = (\<exists>t \<in> set (db_tasks s). t_id t = task_id \<and> run_isolated (db_runs s) (t_run_id t)) in
     case target of
       Terminal _ _ _ \<Rightarrow> guardT (\<not> isolated)
         (Bail ''isolated runs dispatch only to the terminal of the task's current attempt'')
     | Attempt workspace_id terminal_handle launch_id _ _ \<Rightarrow>
         (let current = (\<exists>l \<in> set (db_launches s). l_id l = launch_id \<and> l_task_id l = task_id
                \<and> l_terminal_handle l = terminal_handle \<and> l_workspace_id l = workspace_id
                \<and> Some (l_workspace_id l) = map_option w_id (latest_attempt (db_run_workspaces s) task_id))
          in guardT (isolated \<and> current)
               (Bail ''an attempt dispatch requires the task's current isolated attempt'')))"

definition ensure_terminal_dispatch_allowed :: "string \<Rightarrow> unit store" where
  "ensure_terminal_dispatch_allowed task_id = ensure_dispatch_target_allowed task_id (Terminal [] [] [])"

definition dispatch_of_new :: "env \<Rightarrow> new_run_dispatch \<Rightarrow> dispatch" where
  "dispatch_of_new env n =
    (let target = nd_target n in
     \<lparr>d_id = nd_id n, d_task_id = nd_task_id n, d_assignee_handle = Some (assignee target),
      d_status = DAwaitingAcceptance, d_failure_count = nd_failure_count n, d_last_failure = None,
      d_dispatched_at = Some (env_now env), d_completed_at = None, d_created_at = env_now env,
      d_run_id = nd_run_id n, d_workspace_id = nd_workspace_id n,
      d_coordinator_handle = (case target of Terminal _ c _ \<Rightarrow> c | Attempt _ _ _ _ _ \<Rightarrow> []),
      d_accepted_at = None, d_last_activity_at = Some (env_now env),
      d_context_token_hash = nd_context_token_hash n,
      d_terminal_policy = (case target of Terminal _ _ p \<Rightarrow> p | Attempt _ _ _ _ _ \<Rightarrow> ''keep-open''),
      d_startup_error = None, d_completion_sha = None,
      d_agent_profile = (case target of Terminal _ _ _ \<Rightarrow> None | Attempt _ _ _ p _ \<Rightarrow> Some p),
      d_agent_quota_group = (case target of Terminal _ _ _ \<Rightarrow> None | Attempt _ _ _ _ q \<Rightarrow> q)\<rparr>)"

definition create_run_dispatch :: "env \<Rightarrow> new_run_dispatch \<Rightarrow> unit store" where
  "create_run_dispatch env n =
    thenT (ensure_dispatch_target_allowed (nd_task_id n) (nd_target n))
   (thenT (insert_dispatch (dispatch_of_new env n))
   (thenT (update_tasks env (\<lambda>t. t_id t = nd_task_id n) (\<lambda>t. t\<lparr>t_status := TDispatched\<rparr>))
      (case nd_run_id n of
         None \<Rightarrow> okT ()
       | Some run_id \<Rightarrow> thenT (record_run_event env ((new_run_event run_id EDispatched)\<lparr>
             ne_task_id := Some (nd_task_id n), ne_dispatch_id := Some (nd_id n),
             ne_summary := assignee (nd_target n)\<rparr>)) (okT ()))))"

definition require_dispatch :: "string \<Rightarrow> string \<Rightarrow> dispatch store" where
  "require_dispatch i message = bindT (getsT (dispatch_by_id i)) (\<lambda>d. liftT (of_option (Bail message) d))"

text \<open>\<open>COALESCE(MAX(failure_count), 0)\<close> over the dispatches of a task.\<close>

definition carried_failures :: "dispatch list \<Rightarrow> string \<Rightarrow> int" where
  "carried_failures ds task_id =
    (case map d_failure_count (filter (\<lambda>d. d_task_id d = task_id) ds) of
       [] \<Rightarrow> 0 | c # cs \<Rightarrow> foldl max c cs)"

definition create_scoped_orchestration_dispatch ::
  "env \<Rightarrow> string \<Rightarrow> string \<Rightarrow> string option \<Rightarrow> string \<Rightarrow> string \<Rightarrow> string option \<Rightarrow> string \<Rightarrow> dispatch store" where
  "create_scoped_orchestration_dispatch env task_id assignee_handle run_id workspace_id
      coordinator_handle context_token_hash terminal_policy =
    bindT (atomic (
      bindT (require_task task_id (''orchestration task not found: '' @ task_id)) (\<lambda>t.
      thenT (guardT (t_status t = TReady)
         (Bail (''task '' @ task_id @ '' is not ready (status: '' @ task_status_as_str (t_status t) @ '')'')))
     (bindT (getsT db_dispatches) (\<lambda>ds.
      thenT (guardT (\<not> (\<exists>d \<in> set ds. d_assignee_handle d = Some assignee_handle \<and> active_dispatch d))
         (Bail (''terminal '' @ assignee_handle @ '' already has an active dispatch'')))
     (bindT (orchestration_id env ''ctx'') (\<lambda>i.
      thenT (create_run_dispatch env
         \<lparr>nd_id = i, nd_task_id = task_id, nd_run_id = run_id, nd_workspace_id = workspace_id,
          nd_context_token_hash = context_token_hash, nd_failure_count = carried_failures ds task_id,
          nd_target = Terminal assignee_handle coordinator_handle terminal_policy\<rparr>)
        (okT i))))))))
      (\<lambda>i. require_dispatch i ''inserted dispatch context not found'')"

definition orchestration_dispatch_by_id :: "string \<Rightarrow> db \<Rightarrow> dispatch option" where
  "orchestration_dispatch_by_id i s = dispatch_by_id i s"

definition active_orchestration_dispatch_for_task :: "string \<Rightarrow> db \<Rightarrow> dispatch option" where
  "active_orchestration_dispatch_for_task task_id s =
    latest (\<lambda>d. d_task_id d = task_id \<and> active_dispatch d) (db_dispatches s)"

definition active_orchestration_dispatch_for_handle :: "string \<Rightarrow> db \<Rightarrow> dispatch option" where
  "active_orchestration_dispatch_for_handle assignee_handle s =
    latest (\<lambda>d. d_assignee_handle d = Some assignee_handle \<and> active_dispatch d) (db_dispatches s)"

definition latest_orchestration_dispatch_for_handle :: "string \<Rightarrow> db \<Rightarrow> dispatch option" where
  "latest_orchestration_dispatch_for_handle assignee_handle s =
    latest (\<lambda>d. d_assignee_handle d = Some assignee_handle) (db_dispatches s)"

definition list_orchestration_dispatches_for_task :: "string \<Rightarrow> db \<Rightarrow> dispatch list" where
  "list_orchestration_dispatches_for_task task_id s =
    filter (\<lambda>d. d_task_id d = task_id) (db_dispatches s)"

section \<open>The lease\<close>

definition accept_orchestration_dispatch :: "env \<Rightarrow> string \<Rightarrow> string \<Rightarrow> string \<Rightarrow> dispatch store" where
  "accept_orchestration_dispatch env dispatch_id assignee_handle context_token_hash =
    thenT (atomic (
      bindT (getsT (\<lambda>s. map_option d_status (dispatch_by_id dispatch_id s))) (\<lambda>previous.
      bindT (update_dispatches
         (\<lambda>d. d_id d = dispatch_id \<and> d_assignee_handle d = Some assignee_handle
            \<and> (d_context_token_hash d = Some context_token_hash \<or> d_context_token_hash d = None)
            \<and> d_status d \<in> {DAwaitingAcceptance, DDispatched})
         (\<lambda>d. d\<lparr>d_status := DDispatched,
                 d_accepted_at := coalesce (d_accepted_at d) (Some (env_now env)),
                 d_last_activity_at := Some (env_now env)\<rparr>)) (\<lambda>n.
      thenT (guardT (n \<noteq> 0) (Bail ''dispatch acceptance rejected: stale context or wrong assignee''))
        (whenT (previous = Some DAwaitingAcceptance)
           (record_dispatch_run_event env dispatch_id EAccepted [] None))))))
     (require_dispatch dispatch_id (''dispatch context not found after acceptance: '' @ dispatch_id))"

definition create_orchestration_dispatch :: "env \<Rightarrow> string \<Rightarrow> string \<Rightarrow> dispatch store" where
  "create_orchestration_dispatch env task_id assignee_handle =
    bindT (create_scoped_orchestration_dispatch env task_id assignee_handle None ''global''
        ''coordinator'' None ''keep-open'')
      (\<lambda>d. accept_orchestration_dispatch env (d_id d) assignee_handle [])"

text \<open>A statement whose \<open>workflow dispatch\<close> trigger refusal is not an error for the caller.\<close>

definition contains_text :: "string \<Rightarrow> string \<Rightarrow> bool" where
  "contains_text needle hay \<longleftrightarrow> (\<exists>i \<in> set [0 ..< length hay + 1]. prefix needle (drop i hay))"

definition revive_stalled_dispatch :: "env \<Rightarrow> string \<Rightarrow> bool store" where
  "revive_stalled_dispatch env dispatch_id =
    bindT (\<lambda>s. case update_dispatches (\<lambda>d. d_id d = dispatch_id \<and> d_status d = DStalled)
                  (\<lambda>d. d\<lparr>d_status := DDispatched, d_last_activity_at := Some (env_now env)\<rparr>) s of
           (Inr n, s') \<Rightarrow> (Inr (n > 0), s')
         | (Inl (TriggerAbort m), s') \<Rightarrow>
             if contains_text ''workflow dispatch'' m then (Inr False, s') else (Inl (TriggerAbort m), s')
         | (Inl e, s') \<Rightarrow> (Inl e, s'))
      (\<lambda>revived. thenT (whenT revived
         (bindT (getsT (\<lambda>s. map_option d_task_id (dispatch_by_id dispatch_id s))) (\<lambda>tid.
            thenT (update_tasks env (\<lambda>t. Some (t_id t) = tid \<and> t_status t = TStalled)
               (\<lambda>t. t\<lparr>t_status := TDispatched, t_stalled_at := None\<rparr>)) (okT ()))))
        (okT revived))"

definition record_orchestration_activity :: "env \<Rightarrow> string \<Rightarrow> activity_outcome store" where
  "record_orchestration_activity env dispatch_id = atomic (
    bindT (update_dispatches (\<lambda>d. d_id d = dispatch_id \<and> d_status d = DDispatched)
        (\<lambda>d. d\<lparr>d_last_activity_at := Some (env_now env)\<rparr>)) (\<lambda>renewed.
    bindT (if renewed > 0 then okT Recorded
           else bindT (revive_stalled_dispatch env dispatch_id) (\<lambda>revived.
                  okT (if revived then Revived else Ignored))) (\<lambda>outcome.
      if outcome = Ignored then okT Ignored
      else bindT (getsT (\<lambda>s. Option.bind (dispatch_by_id dispatch_id s) d_run_id)) (\<lambda>run.
        thenT (update_runs (\<lambda>_. True) False (\<lambda>r. Some (r_id r) = run)
            (\<lambda>r. r\<lparr>r_last_activity_at := env_now env\<rparr>))
          (okT outcome)))))"

definition startup_failed_task :: "env \<Rightarrow> task \<Rightarrow> task" where
  "startup_failed_task env t = (let stalled = t_startup_failure_count t + 1 \<ge> 3 in
     t\<lparr>t_startup_failure_count := t_startup_failure_count t + 1,
       t_status := (if stalled then TStalled else TReady),
       t_stalled_at := (if stalled then Some (env_now env) else None)\<rparr>)"

definition fail_startup_txn :: "env \<Rightarrow> dispatch \<Rightarrow> string \<Rightarrow> unit store" where
  "fail_startup_txn env ctx error = atomic (
     thenT (guardT (d_status ctx = DAwaitingAcceptance)
        (Bail (''dispatch '' @ d_id ctx @ '' is not awaiting acceptance'')))
    (thenT (update_dispatches (\<lambda>d. d_id d = d_id ctx)
        (\<lambda>d. d\<lparr>d_status := DStartupFailed, d_startup_error := Some error,
                d_completed_at := Some (env_now env)\<rparr>))
    (thenT (update_tasks env (\<lambda>t. t_id t = d_task_id ctx) (startup_failed_task env))
    (bindT (require_task (d_task_id ctx) ''no rows returned by a query that expected to return at least one row'') (\<lambda>t.
       let stalled = (t_status t = TStalled) in
       record_dispatch_run_event env (d_id ctx) (if stalled then ETaskStalled else ETaskFailed)
         ((if stalled then ''Startup failed three times: '' else ''Startup failed: '') @ error)
         (Some (JObj [(''willRetry'', JBool (\<not> stalled))])))))))"

definition fail_orchestration_startup :: "env \<Rightarrow> string \<Rightarrow> string \<Rightarrow> dispatch store" where
  "fail_orchestration_startup env dispatch_id error =
    bindT (require_dispatch dispatch_id (''dispatch context not found: '' @ dispatch_id)) (\<lambda>ctx.
    if d_status ctx = DStartupFailed then okT ctx
    else thenT (fail_startup_txn env ctx error)
     (require_dispatch dispatch_id ''dispatch context not found after startup failure''))"

text \<open>
  The lease sweep: the contexts are read first, then each is stalled in a transaction of its own.
  \<open>stall_context\<close> is the transaction for one context that was read.
\<close>

definition lease_expired :: "timestamp \<Rightarrow> dispatch \<Rightarrow> bool" where
  "lease_expired threshold d \<longleftrightarrow> d_status d = DDispatched
    \<and> (case coalesce (d_last_activity_at d) (coalesce (d_accepted_at d) (d_dispatched_at d)) of
         None \<Rightarrow> False | Some at \<Rightarrow> at < threshold)"

definition stall_context :: "env \<Rightarrow> dispatch \<Rightarrow> unit store" where
  "stall_context env ctx = atomic (
    bindT (update_dispatches (\<lambda>d. d_id d = d_id ctx \<and> d_status d = DDispatched)
        (\<lambda>d. d\<lparr>d_status := DStalled\<rparr>)) (\<lambda>n.
    thenT (whenT (n > 0)
        (record_dispatch_run_event env (d_id ctx) ETaskStalled ''No activity within the lease.'' None))
   (thenT (update_tasks env (\<lambda>t. t_id t = d_task_id ctx)
        (\<lambda>t. t\<lparr>t_status := TStalled, t_stalled_at := Some (env_now env)\<rparr>))
      (okT ()))))"

definition stall_expired_orchestration_dispatches :: "env \<Rightarrow> timestamp \<Rightarrow> dispatch list store" where
  "stall_expired_orchestration_dispatches env threshold =
    bindT (getsT (\<lambda>s. filter (lease_expired threshold) (db_dispatches s))) (\<lambda>contexts.
      thenT (forT contexts (stall_context env)) (okT contexts))"

definition unaccepted_orchestration_dispatches :: "timestamp \<Rightarrow> db \<Rightarrow> dispatch list" where
  "unaccepted_orchestration_dispatches threshold s =
    filter (\<lambda>d. d_status d = DAwaitingAcceptance
        \<and> (case d_dispatched_at d of None \<Rightarrow> False | Some at \<Rightarrow> at < threshold)
        \<and> \<not> dispatch_launched (db_launches s) (d_id d)) (db_dispatches s)"

section \<open>Outcomes\<close>

definition obsolete_queued_messages :: "env \<Rightarrow> (message \<Rightarrow> bool) \<Rightarrow> nat store" where
  "obsolete_queued_messages env p = update_messages env (\<lambda>m. p m \<and> m_state m = SQueued)
     (\<lambda>m. m\<lparr>m_state := SObsolete, m_obsolete_at := Some (env_now env)\<rparr>)"

text \<open>The transaction of a failure, then the operation.\<close>

definition fail_dispatch_txn :: "env \<Rightarrow> string \<Rightarrow> string \<Rightarrow> string option \<Rightarrow> unit store" where
  "fail_dispatch_txn env dispatch_id error result = atomic (
      bindT (require_dispatch dispatch_id (''dispatch context not found: '' @ dispatch_id)) (\<lambda>ctx.
      let new_failure_count = d_failure_count ctx + 1;
          circuit_broken = new_failure_count \<ge> orchestration_circuit_breaker_threshold;
          task_status = (if circuit_broken then TFailed else TReady)
      in
      thenT (update_dispatches (\<lambda>d. d_id d = dispatch_id)
         (\<lambda>d. d\<lparr>d_status := (if circuit_broken then DCircuitBroken else DFailed),
                 d_failure_count := new_failure_count, d_last_failure := Some error,
                 d_completed_at := Some (env_now env)\<rparr>))
     (thenT (update_tasks env (\<lambda>t. t_id t = d_task_id ctx)
         (\<lambda>t. t\<lparr>t_status := task_status, t_result := coalesce result (t_result t),
                 t_completed_at := (if task_status = TFailed then Some (env_now env) else None)\<rparr>))
     (thenT (obsolete_queued_messages env (\<lambda>m. m_dispatch_id m = Some dispatch_id))
     (thenT (whenT (task_status = TFailed) (refresh_pending_dependents_after_task_status env (d_task_id ctx)))
        (record_dispatch_run_event env dispatch_id ETaskFailed error
           (Some (JObj [(''willRetry'', JBool (\<not> circuit_broken))]))))))))"

definition fail_orchestration_dispatch_with_result ::
  "env \<Rightarrow> string \<Rightarrow> string \<Rightarrow> string option \<Rightarrow> dispatch store" where
  "fail_orchestration_dispatch_with_result env dispatch_id error result =
    thenT (fail_dispatch_txn env dispatch_id error result)
     (require_dispatch dispatch_id (''dispatch context not found after update: '' @ dispatch_id))"

definition fail_orchestration_dispatch :: "env \<Rightarrow> string \<Rightarrow> string \<Rightarrow> dispatch store" where
  "fail_orchestration_dispatch env dispatch_id error =
    fail_orchestration_dispatch_with_result env dispatch_id error None"

definition clear_resolved_workflow_launch_attention :: "env \<Rightarrow> string \<Rightarrow> nat store" where
  "clear_resolved_workflow_launch_attention env dispatch_id =
    update_launches (\<lambda>l. l_dispatch_id l = dispatch_id \<and> l_status l = LAttention)
      (\<lambda>l. l\<lparr>l_status := LStarted, l_error := None, l_updated_at := env_now env\<rparr>)"

definition completion_event :: "env \<Rightarrow> dispatch \<Rightarrow> string \<Rightarrow> string option \<Rightarrow> unit store" where
  "completion_event env ctx assignee_handle completion_sha =
    (case d_run_id ctx of
       None \<Rightarrow> okT ()
     | Some run_id \<Rightarrow> bindT (getsT (\<lambda>s. List.find (\<lambda>l. l_dispatch_id l = d_id ctx) (db_launches s))) (\<lambda>launch.
         thenT (record_run_event env ((new_run_event run_id ETaskCompleted)\<lparr>
             ne_task_id := Some (d_task_id ctx), ne_dispatch_id := Some (d_id ctx),
             ne_summary := assignee_handle,
             ne_payload := Some (case launch of
                 Some l \<Rightarrow> JObj [(''workspaceId'', JStr (l_workspace_id l)), (''sha'', opt_json completion_sha),
                                 (''baseSha'', JStr (l_base_sha l))]
               | None \<Rightarrow> JObj [(''workspaceId'', JStr (d_workspace_id ctx))])\<rparr>)) (okT ())))"

text \<open>The transaction of a completion, then the operation.\<close>

definition complete_dispatch_txn :: "env \<Rightarrow> dispatch \<Rightarrow> string \<Rightarrow> string \<Rightarrow> string option \<Rightarrow> bool \<Rightarrow> nat store" where
  "complete_dispatch_txn env ctx assignee_handle result completion_sha workflow_dispatch = atomic (
     thenT (validate_task_contract_completion env (d_task_id ctx) result)
    (thenT (update_dispatches (\<lambda>d. d_id d = d_id ctx)
        (\<lambda>d. d\<lparr>d_status := DCompleted, d_completed_at := Some (env_now env),
                d_last_activity_at := Some (env_now env), d_completion_sha := completion_sha\<rparr>))
    (thenT (update_tasks env (\<lambda>t. t_id t = d_task_id ctx)
        (\<lambda>t. t\<lparr>t_status := TCompleted, t_result := Some result, t_completed_at := Some (env_now env)\<rparr>))
    (thenT (if workflow_dispatch then clear_resolved_workflow_launch_attention env (d_id ctx) else okT 0)
    (thenT (completion_event env ctx assignee_handle completion_sha)
    (thenT (refresh_pending_dependents_after_task_status env (d_task_id ctx))
       (obsolete_queued_messages env (\<lambda>m. m_dispatch_id m = Some (d_id ctx)))))))))"

definition complete_orchestration_dispatch_at_sha ::
  "env \<Rightarrow> string \<Rightarrow> string \<Rightarrow> string \<Rightarrow> string option \<Rightarrow> dispatch store" where
  "complete_orchestration_dispatch_at_sha env dispatch_id assignee_handle result completion_sha =
    bindT (require_dispatch dispatch_id (''dispatch context not found: '' @ dispatch_id)) (\<lambda>ctx.
    bindT (getsT (\<lambda>s. dispatch_launched (db_launches s) dispatch_id)) (\<lambda>workflow_dispatch.
    thenT (guardT (workflow_dispatch \<longleftrightarrow> completion_sha \<noteq> None)
       (Bail ''workflow dispatch completion must include its exact result SHA''))
   (if d_status ctx = DCompleted then
      thenT (guardT (d_assignee_handle ctx = Some assignee_handle)
         (Bail ''dispatch completion rejected: inactive context or wrong assignee''))
     (bindT (getsT (task_by_id (d_task_id ctx))) (\<lambda>t.
      thenT (guardT (map_option t_status t = Some TCompleted)
         (Bail ''dispatch completion rejected: dispatch closed without task completion''))
     (thenT (guardT (d_completion_sha ctx = completion_sha)
         (Bail ''dispatch completion rejected: committed result SHA changed''))
     (thenT (if workflow_dispatch then clear_resolved_workflow_launch_attention env dispatch_id else okT 0)
        (okT ctx)))))
    else
      thenT (guardT (d_status ctx \<in> {DDispatched, DStalled} \<and> d_assignee_handle ctx = Some assignee_handle)
         (Bail ''dispatch completion rejected: inactive context or wrong assignee''))
     (thenT (complete_dispatch_txn env ctx assignee_handle result completion_sha workflow_dispatch)
        (require_dispatch dispatch_id ''dispatch context not found after completion'')))))"

definition complete_orchestration_dispatch :: "env \<Rightarrow> string \<Rightarrow> string \<Rightarrow> string \<Rightarrow> dispatch store" where
  "complete_orchestration_dispatch env dispatch_id assignee_handle result =
    complete_orchestration_dispatch_at_sha env dispatch_id assignee_handle result None"

definition exact_sha :: "string \<Rightarrow> bool" where
  "exact_sha sha \<longleftrightarrow> length sha = 40 \<and> list_all (\<lambda>c. c \<in> set ''0123456789abcdef'') sha"

definition complete_workflow_orchestration_dispatch ::
  "env \<Rightarrow> string \<Rightarrow> string \<Rightarrow> string \<Rightarrow> string \<Rightarrow> dispatch store" where
  "complete_workflow_orchestration_dispatch env dispatch_id assignee_handle result completion_sha =
    thenT (guardT (exact_sha completion_sha)
       (Bail ''workflow completion requires an exact committed result SHA''))
      (complete_orchestration_dispatch_at_sha env dispatch_id assignee_handle result (Some completion_sha))"

section \<open>The statements of the transactions\<close>

text \<open>A successful operation as the sequence of its statements.\<close>

lemma require_dispatch_Inr: "require_dispatch i m s = (Inr d, s') \<longleftrightarrow> dispatch_by_id i s = Some d \<and> s' = s"
  by (auto simp: require_dispatch_def of_option_def txn_simps split: option.splits)

lemma require_reads: "readonly (require_task i m)" "readonly (require_dispatch i m)" "readonly (getsT f)"
  by (simp_all add: readonly_def require_task_def require_dispatch_def txn_run of_option_def split: option.split)

lemma target_allowed_run: "ensure_dispatch_target_allowed i g s = (r, s') \<Longrightarrow> s' = s"
  by (auto simp: ensure_dispatch_target_allowed_def Let_def txn_run split: dispatch_target.splits)

lemma create_run_dispatch_phases:
  assumes "create_run_dispatch env n s = (Inr u, s')"
  obtains k s1 s2 where "ensure_dispatch_target_allowed (nd_task_id n) (nd_target n) s = (Inr (), s)"
    "insert_dispatch (dispatch_of_new env n) s = (Inr (), s1)"
    "update_tasks env (\<lambda>t. t_id t = nd_task_id n) (\<lambda>t. t\<lparr>t_status := TDispatched\<rparr>) s1 = (Inr k, s2)"
    "db_tasks s' = db_tasks s2" "db_dispatches s' = db_dispatches s2" "db_messages s' = db_messages s2"
    "db_runs s' = db_runs s2" "db_launches s' = db_launches s2" "db_gates s' = db_gates s2"
proof -
  obtain v s1 k s2 where v: "ensure_dispatch_target_allowed (nd_task_id n) (nd_target n) s = (Inr (), v)"
    and 1: "insert_dispatch (dispatch_of_new env n) v = (Inr (), s1)"
    and 2: "update_tasks env (\<lambda>t. t_id t = nd_task_id n) (\<lambda>t. t\<lparr>t_status := TDispatched\<rparr>) s1 = (Inr k, s2)"
    and 3: "s' = s2 \<or> (\<exists>e x. record_run_event env e s2 = (Inr x, s'))"
    using assms unfolding create_run_dispatch_def
    by (cases "nd_run_id n") (simp_all add: txn_simps, blast+)
  have "v = s" using target_allowed_run [OF v] .
  with v 1 2 3 that show thesis by (auto simp: record_event_frame)
qed

definition scoped_dispatch :: "string \<Rightarrow> string \<Rightarrow> string \<Rightarrow> string option \<Rightarrow> string \<Rightarrow> string \<Rightarrow> string option \<Rightarrow> string \<Rightarrow>
    int \<Rightarrow> new_run_dispatch" where
  "scoped_dispatch i task_id assignee_handle run_id workspace_id coordinator_handle context_token_hash
      terminal_policy failures =
    \<lparr>nd_id = i, nd_task_id = task_id, nd_run_id = run_id, nd_workspace_id = workspace_id,
     nd_context_token_hash = context_token_hash, nd_failure_count = failures,
     nd_target = Terminal assignee_handle coordinator_handle terminal_policy\<rparr>"

lemma create_scoped_phases:
  assumes "create_scoped_orchestration_dispatch env task_id h run w c ht p s = (Inr d, s')"
  obtains t i where "task_by_id task_id s = Some t" "t_status t = TReady"
    "\<not> (\<exists>d \<in> set (db_dispatches s). d_assignee_handle d = Some h \<and> active_dispatch d)"
    "create_run_dispatch env (scoped_dispatch i task_id h run w c ht p (carried_failures (db_dispatches s) task_id))
       (s\<lparr>db_draws := db_draws s + 1\<rparr>) = (Inr (), s')"
    "dispatch_by_id i s' = Some d"
  using assms unfolding create_scoped_orchestration_dispatch_def scoped_dispatch_def [symmetric]
  by (auto simp: txn_simps require_task_Inr require_dispatch_Inr orchestration_id_run)

definition startup_failed_dispatch :: "env \<Rightarrow> string \<Rightarrow> dispatch \<Rightarrow> dispatch" where
  "startup_failed_dispatch env error d =
    d\<lparr>d_status := DStartupFailed, d_startup_error := Some error, d_completed_at := Some (env_now env)\<rparr>"

lemma fail_startup_phases:
  assumes "fail_startup_txn env ctx error s = (Inr u, s')"
  obtains n s1 k s2 t where "d_status ctx = DAwaitingAcceptance"
    "update_dispatches (\<lambda>d. d_id d = d_id ctx) (startup_failed_dispatch env error) s = (Inr n, s1)"
    "update_tasks env (\<lambda>t. t_id t = d_task_id ctx) (startup_failed_task env) s1 = (Inr k, s2)"
    "task_by_id (d_task_id ctx) s2 = Some t" "db_tasks s' = db_tasks s2" "db_dispatches s' = db_dispatches s2"
  using assms unfolding fail_startup_txn_def startup_failed_dispatch_def [abs_def]
  by (auto simp: txn_simps require_task_Inr record_event_frame Let_def split: if_splits)

text \<open>The rows written by a failure.\<close>

definition circuit_broken :: "dispatch \<Rightarrow> bool" where
  "circuit_broken ctx \<longleftrightarrow> d_failure_count ctx + 1 \<ge> orchestration_circuit_breaker_threshold"

definition failed_dispatch :: "env \<Rightarrow> string \<Rightarrow> dispatch \<Rightarrow> dispatch \<Rightarrow> dispatch" where
  "failed_dispatch env error ctx d = d\<lparr>d_status := (if circuit_broken ctx then DCircuitBroken else DFailed),
     d_failure_count := d_failure_count ctx + 1, d_last_failure := Some error, d_completed_at := Some (env_now env)\<rparr>"

definition failed_task :: "env \<Rightarrow> string option \<Rightarrow> dispatch \<Rightarrow> task \<Rightarrow> task" where
  "failed_task env result ctx t = t\<lparr>t_status := (if circuit_broken ctx then TFailed else TReady),
     t_result := coalesce result (t_result t),
     t_completed_at := (if circuit_broken ctx then Some (env_now env) else None)\<rparr>"

lemma fail_phases:
  assumes "fail_dispatch_txn env i error result s = (Inr u, s')" "dispatch_by_id i s = Some ctx"
  obtains n s1 k s2 l s3 s4 where
    "update_dispatches (\<lambda>d. d_id d = i) (failed_dispatch env error ctx) s = (Inr n, s1)"
    "update_tasks env (\<lambda>t. t_id t = d_task_id ctx) (failed_task env result ctx) s1 = (Inr k, s2)"
    "obsolete_queued_messages env (\<lambda>m. m_dispatch_id m = Some i) s2 = (Inr l, s3)"
    "whenT (circuit_broken ctx) (refresh_pending_dependents_after_task_status env (d_task_id ctx)) s3 = (Inr (), s4)"
    "db_tasks s' = db_tasks s4" "db_dispatches s' = db_dispatches s4" "db_messages s' = db_messages s4"
proof -
  let ?broken = "d_failure_count ctx + 1 \<ge> orchestration_circuit_breaker_threshold"
  let ?g = "\<lambda>d. d\<lparr>d_status := (if ?broken then DCircuitBroken else DFailed),
      d_failure_count := d_failure_count ctx + 1, d_last_failure := Some error, d_completed_at := Some (env_now env)\<rparr>"
  let ?f = "\<lambda>t. t\<lparr>t_status := (if ?broken then TFailed else TReady), t_result := coalesce result (t_result t),
      t_completed_at := (if (if ?broken then TFailed else TReady) = TFailed then Some (env_now env) else None)\<rparr>"
  obtain n s1 k s2 l s3 s4 where
    1: "update_dispatches (\<lambda>d. d_id d = i) ?g s = (Inr n, s1)" and
    2: "update_tasks env (\<lambda>t. t_id t = d_task_id ctx) ?f s1 = (Inr k, s2)" and
    3: "obsolete_queued_messages env (\<lambda>m. m_dispatch_id m = Some i) s2 = (Inr l, s3)" and
    4: "whenT ((if ?broken then TFailed else TReady) = TFailed)
        (refresh_pending_dependents_after_task_status env (d_task_id ctx)) s3 = (Inr (), s4)" and
    5: "db_tasks s' = db_tasks s4" "db_dispatches s' = db_dispatches s4" "db_messages s' = db_messages s4"
    using assms unfolding fail_dispatch_txn_def
    by (simp add: txn_simps require_dispatch_Inr Let_def del: if_split_eq1) (blast dest: record_event_frame)
  have "?g = failed_dispatch env error ctx" "?f = failed_task env result ctx"
    "((if ?broken then TFailed else TReady) = TFailed) = circuit_broken ctx"
    by (simp_all add: fun_eq_iff failed_dispatch_def failed_task_def circuit_broken_def)
  with 1 2 3 4 5 show thesis using that by simp
qed

text \<open>The rows written by a completion.\<close>

definition completed_dispatch :: "env \<Rightarrow> string option \<Rightarrow> dispatch \<Rightarrow> dispatch" where
  "completed_dispatch env sha d = d\<lparr>d_status := DCompleted, d_completed_at := Some (env_now env),
     d_last_activity_at := Some (env_now env), d_completion_sha := sha\<rparr>"

definition completed_task :: "env \<Rightarrow> string \<Rightarrow> task \<Rightarrow> task" where
  "completed_task env result t = t\<lparr>t_status := TCompleted, t_result := Some result, t_completed_at := Some (env_now env)\<rparr>"

lemma contract_reads: "readonly (validate_task_contract_completion env i result)"
  by (auto simp: readonly_def validate_task_contract_completion_def txn_run of_option_def require_task_def
      split: option.split)

lemma attention_frame:
  assumes "(if b then clear_resolved_workflow_launch_attention env i else okT 0) s = (r, s')"
  shows "db_tasks s' = db_tasks s" "db_dispatches s' = db_dispatches s" "db_messages s' = db_messages s"
    "map l_dispatch_id (db_launches s') = map l_dispatch_id (db_launches s)"
  using assms
  by (auto simp: clear_resolved_workflow_launch_attention_def update_launches_run txn_run map_update_rows
      split: if_splits)

lemma completion_event_frame:
  assumes "completion_event env ctx a sha s = (Inr u, s')"
  shows "db_tasks s' = db_tasks s" "db_dispatches s' = db_dispatches s" "db_messages s' = db_messages s"
    "db_launches s' = db_launches s"
  using assms by (auto simp: completion_event_def txn_simps record_event_frame split: option.splits)

text \<open>The result a task's role contract admits.\<close>

definition contract_admits :: "env \<Rightarrow> task \<Rightarrow> string \<Rightarrow> bool" where
  "contract_admits env t result \<longleftrightarrow> (case t_role_contract t of None \<Rightarrow> True | Some c \<Rightarrow> env_contract_admits env c result)"

lemma complete_phases:
  assumes "complete_dispatch_txn env ctx a result sha b s = (Inr j, s')"
  obtains t n s1 k s2 s3 s4 where
    "task_by_id (d_task_id ctx) s = Some t" "contract_admits env t result"
    "update_dispatches (\<lambda>d. d_id d = d_id ctx) (completed_dispatch env sha) s = (Inr n, s1)"
    "update_tasks env (\<lambda>t. t_id t = d_task_id ctx) (completed_task env result) s1 = (Inr k, s2)"
    "db_tasks s3 = db_tasks s2" "db_dispatches s3 = db_dispatches s2" "db_messages s3 = db_messages s2"
    "map l_dispatch_id (db_launches s3) = map l_dispatch_id (db_launches s2)"
    "refresh_pending_dependents_after_task_status env (d_task_id ctx) s3 = (Inr (), s4)"
    "obsolete_queued_messages env (\<lambda>m. m_dispatch_id m = Some (d_id ctx)) s4 = (Inr j, s')"
proof -
  obtain u s0 n s1 k s2 l v w x z s4 where
    0: "validate_task_contract_completion env (d_task_id ctx) result s = (Inr u, s0)" and
    1: "update_dispatches (\<lambda>d. d_id d = d_id ctx) (completed_dispatch env sha) s0 = (Inr n, s1)"
      "update_tasks env (\<lambda>t. t_id t = d_task_id ctx) (completed_task env result) s1 = (Inr k, s2)" and
    2: "(if b then clear_resolved_workflow_launch_attention env (d_id ctx) else okT 0) s2 = (Inr l, v)" and
    3: "completion_event env ctx a sha v = (Inr w, x)" and
    4: "refresh_pending_dependents_after_task_status env (d_task_id ctx) x = (Inr z, s4)"
      "obsolete_queued_messages env (\<lambda>m. m_dispatch_id m = Some (d_id ctx)) s4 = (Inr j, s')"
    using assms unfolding complete_dispatch_txn_def completed_dispatch_def [abs_def]
      completed_task_def [abs_def] atomic_Inr_iff thenT_Inr_iff
    by blast
  have "s0 = s" by (rule readonlyD [OF contract_reads 0])
  moreover obtain t where "task_by_id (d_task_id ctx) s = Some t" "contract_admits env t result"
    using 0 by (auto simp: validate_task_contract_completion_def contract_admits_def txn_simps require_task_Inr)
  ultimately show thesis
    using 1 4 attention_frame [OF 2] completion_event_frame [OF 3]
    by (intro that [of t n s1 k s2 x s4]) simp_all
qed

end
