(* ===== verification/Gate_Store.thy ===== *)
theory Gate_Store
  imports Dispatch_Store "HOL-Library.Option_ord"
begin

text \<open>
  Gates on tasks: decision gates (\<open>orchestration_gate_store.rs\<close>) that block a task and release its terminal,
  and stall gates (\<open>orchestration_stall_store.rs\<close>) that ask what to do with a worker that went quiet.
\<close>

section \<open>Decision gates\<close>

definition run_gate_options :: "string list" where
  "run_gate_options = [''approve'', ''requestChanges'', ''reject'']"

definition stall_gate_options :: "string list" where
  "stall_gate_options = [''killAndFailover'', ''keepWaiting'', ''abortStage'']"

definition stall_gate_resumed :: string where
  "stall_gate_resumed = ''resumed''"

definition require_gate :: "string \<Rightarrow> string \<Rightarrow> gate store" where
  "require_gate i message = bindT (getsT (\<lambda>s. find_row g_id i (db_gates s))) (\<lambda>g.
     liftT (of_option (Bail message) g))"

definition insert_task_gate :: "env \<Rightarrow> gate_kind \<Rightarrow> string \<Rightarrow> string \<Rightarrow> string list \<Rightarrow> string store" where
  "insert_task_gate env kind task_id question options =
    bindT (orchestration_id env ''gate'') (\<lambda>i.
    bindT (require_task task_id (''orchestration task not found: '' @ task_id)) (\<lambda>t.
    thenT (insert_gate (new_gate env i (t_run_id t) (Some task_id) kind [] question options None))
   (thenT (case t_run_id t of
        None \<Rightarrow> okT ()
      | Some run_id \<Rightarrow> thenT (record_run_event env ((new_run_event run_id EGateOpened)\<lparr>
            ne_task_id := Some task_id, ne_gate_id := Some i, ne_summary := question,
            ne_payload := Some (JObj [(''kind'', JStr (gate_kind_as_str kind))])\<rparr>)) (okT ()))
      (okT i))))"

definition create_orchestration_gate :: "env \<Rightarrow> string \<Rightarrow> string \<Rightarrow> string list \<Rightarrow> gate store" where
  "create_orchestration_gate env task_id question options =
    bindT (atomic (
      bindT (require_task task_id (''orchestration task not found: '' @ task_id)) (\<lambda>t.
      thenT (guardT (t_status t \<in> {TReady, TDispatched})
         (Bail (''task '' @ task_id @ '' cannot be gated while '' @ task_status_as_str (t_status t))))
     (bindT (insert_task_gate env KDecision task_id question options) (\<lambda>i.
      thenT (update_dispatches (\<lambda>d. d_task_id d = task_id \<and> active_dispatch d)
         (\<lambda>d. d\<lparr>d_status := DCompleted, d_completed_at := Some (env_now env)\<rparr>))
     (thenT (update_tasks env (\<lambda>t. t_id t = task_id) (\<lambda>t. t\<lparr>t_status := TBlocked\<rparr>))
        (okT i)))))))
      (\<lambda>i. require_gate i ''inserted decision gate not found'')"

record gate_filter =
  gf_run_id :: "string option"
  gf_task_id :: "string option"
  gf_kind :: "gate_kind option"
  gf_status :: "gate_status option"

definition list_gates :: "gate_filter \<Rightarrow> db \<Rightarrow> gate list" where
  "list_gates flt s = sort_key g_created_at
    (filter (\<lambda>g. (gf_run_id flt = None \<or> g_run_id g = gf_run_id flt)
        \<and> (gf_task_id flt = None \<or> g_task_id g = gf_task_id flt)
        \<and> (gf_kind flt = None \<or> Some (g_kind g) = gf_kind flt)
        \<and> (gf_status flt = None \<or> Some (g_status g) = gf_status flt)) (db_gates s))"

definition list_orchestration_gates :: "string option \<Rightarrow> gate_status option \<Rightarrow> db \<Rightarrow> gate list" where
  "list_orchestration_gates task_id status s =
    filter (\<lambda>g. g_kind g \<in> {KDecision, KStall})
      (list_gates \<lparr>gf_run_id = None, gf_task_id = task_id, gf_kind = None, gf_status = status\<rparr> s)"

definition list_run_gates :: "string \<Rightarrow> db \<Rightarrow> gate list" where
  "list_run_gates run_id s = filter (\<lambda>g. g_run_id g = Some run_id) (db_gates s)"

section \<open>Stall gates\<close>

definition pending_task_gate :: "string \<Rightarrow> gate \<Rightarrow> bool" where
  "pending_task_gate task_id g \<longleftrightarrow>
    g_task_id g = Some task_id \<and> g_kind g \<in> {KDecision, KStall} \<and> g_status g = GPending"

definition create_orchestration_stall_gate :: "env \<Rightarrow> string \<Rightarrow> string \<Rightarrow> gate store" where
  "create_orchestration_stall_gate env task_id question =
    bindT (atomic (
      bindT (require_task task_id (''orchestration task not found: '' @ task_id)) (\<lambda>t.
      thenT (guardT (t_status t = TStalled)
         (Bail (''task '' @ task_id @ '' is not stalled (status: '' @ task_status_as_str (t_status t) @ '')'')))
     (bindT (getsT (\<lambda>s. List.find (pending_task_gate task_id) (db_gates s))) (\<lambda>existing.
        case existing of
          Some g \<Rightarrow> okT (g_id g)
        | None \<Rightarrow> insert_task_gate env KStall task_id question stall_gate_options)))))
      (\<lambda>i. require_gate i ''inserted stall gate not found'')"

definition resolve_stall_gate_as_resumed :: "env \<Rightarrow> string \<Rightarrow> gate option store" where
  "resolve_stall_gate_as_resumed env task_id =
    bindT (getsT (\<lambda>s. latest (\<lambda>g. g_task_id g = Some task_id \<and> g_kind g = KStall \<and> g_status g = GPending)
        (db_gates s))) (\<lambda>pending.
    case pending of
      None \<Rightarrow> okT None
    | Some g \<Rightarrow> bindT (atomic (
        bindT (update_gates (\<lambda>h. g_id h = g_id g \<and> g_status h = GPending)
            (\<lambda>h. h\<lparr>g_status := GResolved, g_resolution := Some stall_gate_resumed,
                    g_resolved_at := Some (env_now env)\<rparr>)) (\<lambda>n.
        thenT (case (n, g_run_id g) of
            (Suc _, Some run_id) \<Rightarrow> thenT (record_run_event env ((new_run_event run_id EGateResolved)\<lparr>
                ne_task_id := Some task_id, ne_gate_id := Some (g_id g), ne_summary := stall_gate_resumed,
                ne_payload := Some (JObj [(''kind'', JStr ''stall'')])\<rparr>)) (okT ())
          | _ \<Rightarrow> okT ())
          (okT n)))) (\<lambda>n.
        if n = 0 then okT None else getsT (\<lambda>s. find_row g_id (g_id g) (db_gates s))))"

definition resolved_stall_gates :: "db \<Rightarrow> gate list" where
  "resolved_stall_gates s = sort_key g_resolved_at
    (filter (\<lambda>g. g_kind g = KStall \<and> g_status g = GResolved
        \<and> (\<exists>t \<in> set (db_tasks s). Some (t_id t) = g_task_id g \<and> t_status t = TStalled)
        \<and> g_resolution g \<noteq> None \<and> g_resolution g \<noteq> Some stall_gate_resumed) (db_gates s))"

definition resume_stalled_orchestration_dispatch :: "env \<Rightarrow> string \<Rightarrow> unit store" where
  "resume_stalled_orchestration_dispatch env task_id = atomic (
    thenT (update_dispatches (\<lambda>d. d_task_id d = task_id \<and> d_status d = DStalled)
        (\<lambda>d. d\<lparr>d_status := DDispatched, d_last_activity_at := Some (env_now env)\<rparr>))
   (thenT (update_tasks env (\<lambda>t. t_id t = task_id \<and> t_status t = TStalled)
        (\<lambda>t. t\<lparr>t_status := TDispatched, t_stalled_at := None\<rparr>))
      (okT ())))"

definition stalled_orchestration_dispatch_for_task :: "string \<Rightarrow> db \<Rightarrow> dispatch option" where
  "stalled_orchestration_dispatch_for_task task_id s =
    (case active_orchestration_dispatch_for_task task_id s of
       Some d \<Rightarrow> if d_status d = DStalled then Some d else None | None \<Rightarrow> None)"

end
