(* ===== verification/Task_Settlement.thy ===== *)
theory Task_Settlement
  imports Gate_Store
begin

text \<open>
  Cancelling a task with everything that waits for it (\<open>orchestration_task_cancellation.rs\<close>) and recovering
  stalled tasks (\<open>orchestration_task_recovery_store.rs\<close>).  The collection of the waiting tasks is a worklist
  loop on fuel, one step per cancellable task, which \<open>Cancellation_Laws\<close> shows to suffice.
\<close>

section \<open>Cancellation\<close>

definition cancellable :: "task \<Rightarrow> bool" where
  "cancellable t \<longleftrightarrow> t_status t \<in> {TPending, TReady, TBlocked, TStalled}"

text \<open>The inner loop: the candidates of one task are appended in row order, each once.\<close>

definition push_waiting :: "string \<Rightarrow> task list \<Rightarrow> string list \<Rightarrow> string list" where
  "push_waiting changed rows cancelled = foldl (\<lambda>acc t.
     if changed \<in> set (t_deps t) \<and> t_id t \<notin> set acc then acc @ [t_id t] else acc) cancelled rows"

text \<open>The outer loop over the growing list, with its cursor; \<open>None\<close> when the fuel is used up.\<close>

fun cancel_closure :: "nat \<Rightarrow> task list \<Rightarrow> nat \<Rightarrow> string list \<Rightarrow> string list option" where
  "cancel_closure fuel rows cursor cancelled =
    (if cursor < length cancelled then
       (case fuel of
          0 \<Rightarrow> None
        | Suc fuel' \<Rightarrow> cancel_closure fuel' rows (cursor + 1)
            (push_waiting (cancelled ! cursor) rows cancelled))
     else Some cancelled)"

declare cancel_closure.simps [simp del]

definition cancel_one :: "env \<Rightarrow> string \<Rightarrow> string \<Rightarrow> string \<Rightarrow> unit store" where
  "cancel_one env i reason task_id =
    (let task_reason = (if task_id = i then reason else ''dependency cancelled: '' @ i) in
     bindT (update_tasks env
        (\<lambda>t. t_id t = task_id \<and> t_status t \<notin> {TCompleted, TFailed, TCancelled})
        (\<lambda>t. t\<lparr>t_status := TCancelled, t_result := coalesce (t_result t) (Some task_reason),
                t_cancelled_at := Some (env_now env), t_completed_at := Some (env_now env)\<rparr>)) (\<lambda>n.
     thenT (whenT (n > 0) (record_task_run_event env task_id ETaskCancelled task_reason None))
    (thenT (update_dispatches (\<lambda>d. d_task_id d = task_id \<and> active_dispatch d)
        (\<lambda>d. d\<lparr>d_status := DCancelled, d_completed_at := Some (env_now env)\<rparr>))
    (thenT (obsolete_queued_messages env (\<lambda>m. m_task_id m = Some task_id))
    (thenT (update_gates (\<lambda>g. g_task_id g = Some task_id \<and> g_status g = GPending)
        (\<lambda>g. g\<lparr>g_status := GTimeout, g_resolved_at := Some (env_now env)\<rparr>))
       (okT ()))))))"

lemma cancel_one_phases:
  assumes "cancel_one env i reason k s = (Inr u, s')"
  obtains n s1 s2 m s3 l s4 j where
    "update_tasks env (\<lambda>t. t_id t = k \<and> t_status t \<notin> {TCompleted, TFailed, TCancelled})
       (\<lambda>t. t\<lparr>t_status := TCancelled, t_result := coalesce (t_result t)
          (Some (if k = i then reason else ''dependency cancelled: '' @ i)),
          t_cancelled_at := Some (env_now env), t_completed_at := Some (env_now env)\<rparr>) s = (Inr n, s1)"
    "db_tasks s2 = db_tasks s1" "db_dispatches s2 = db_dispatches s1" "db_messages s2 = db_messages s1"
    "db_gates s2 = db_gates s1"
    "update_dispatches (\<lambda>d. d_task_id d = k \<and> active_dispatch d)
       (\<lambda>d. d\<lparr>d_status := DCancelled, d_completed_at := Some (env_now env)\<rparr>) s2 = (Inr m, s3)"
    "update_messages env (\<lambda>m. m_task_id m = Some k \<and> m_state m = SQueued)
       (\<lambda>m. m\<lparr>m_state := SObsolete, m_obsolete_at := Some (env_now env)\<rparr>) s3 = (Inr l, s4)"
    "update_gates (\<lambda>g. g_task_id g = Some k \<and> g_status g = GPending)
       (\<lambda>g. g\<lparr>g_status := GTimeout, g_resolved_at := Some (env_now env)\<rparr>) s4 = (Inr j, s')"
proof -
  let ?event = "\<lambda>n. whenT (n > 0) (record_task_run_event env k ETaskCancelled
    (if k = i then reason else ''dependency cancelled: '' @ i) None)"
  have "?event n s1 = (Inr v, s2) \<Longrightarrow> db_tasks s2 = db_tasks s1 \<and> db_dispatches s2 = db_dispatches s1
      \<and> db_messages s2 = db_messages s1 \<and> db_gates s2 = db_gates s1" for n :: nat and s1 v s2
    by (auto simp: whenT_Inr_iff record_event_frame split: if_splits)
  with assms that show thesis
    unfolding cancel_one_def Let_def thenT_Inr_iff bindT_Inr_iff basic_Inr_iff obsolete_queued_messages_def
    by blast
qed

definition cancel_orchestration_task :: "env \<Rightarrow> string \<Rightarrow> string \<Rightarrow> task store" where
  "cancel_orchestration_task env i reason =
    thenT (atomic (
      bindT (require_task i (''orchestration task not found: '' @ i)) (\<lambda>t.
      if t_status t = TCancelled then okT ()
      else
        thenT (guardT (t_status t \<notin> {TCompleted, TFailed})
           (Bail (''cannot cancel terminal orchestration task '' @ i)))
       (bindT (getsT (\<lambda>s. filter cancellable (db_tasks s))) (\<lambda>rows.
        bindT (liftT (of_option LoopBound (cancel_closure (Suc (length rows)) rows 0 [i]))) (\<lambda>cancelled.
          forT cancelled (cancel_one env i reason)))))))
      (require_task i (''orchestration task not found after cancellation: '' @ i))"

section \<open>Recovery\<close>

definition recover_stalled_orchestration_task ::
  "env \<Rightarrow> string \<Rightarrow> task_status \<Rightarrow> string option \<Rightarrow> string \<Rightarrow> bool \<Rightarrow> task store" where
  "recover_stalled_orchestration_task env i status actor_handle reason force =
    thenT (guardT (status \<in> {TReady, TFailed, TCancelled})
       (Bail ''recovery status must be ready, failed, or cancelled''))
   (bindT (require_task i (''orchestration task not found: '' @ i)) (\<lambda>t.
    thenT (guardT (t_status t = TStalled) (Bail (''task '' @ i @ '' is not stalled'')))
   (bindT (getsT (\<lambda>s. run_isolated (db_runs s) (t_run_id t))) (\<lambda>isolated_task.
    thenT (guardT (\<not> (status \<in> {TReady, TFailed} \<and> isolated_task))
       (Bail ''stalled isolated recovery requires terminal settlement and a fresh attempt''))
   (bindT (if status = TCancelled then cancel_orchestration_task env i reason
           else update_orchestration_task_status env i status (Some reason)) (\<lambda>result.
    thenT (insert_orchestration_audit_event env actor_handle
        (if force then ''task.recover.force'' else ''task.recover'') i reason)
      (okT result)))))))"

definition record_orchestration_task_startup_failure :: "env \<Rightarrow> string \<Rightarrow> string \<Rightarrow> task store" where
  "record_orchestration_task_startup_failure env i error =
    bindT (getsT (\<lambda>s. \<exists>d \<in> set (db_dispatches s). d_task_id d = i \<and> active_dispatch d)) (\<lambda>held.
    bindT (update_tasks env (\<lambda>t. t_id t = i \<and> t_status t = TReady \<and> \<not> held)
        (\<lambda>t. (startup_failed_task env t)\<lparr>t_result := Some error\<rparr>)) (\<lambda>n.
    thenT (guardT (n \<noteq> 0) (Bail ''task startup failure rejected: task is missing or terminal''))
      (require_task i ''task not found after startup failure'')))"

end
