(* ===== verification/Store_Calls.thy ===== *)
theory Store_Calls
  imports Task_Settlement
begin

text \<open>
  The writing calls of the orchestration store as data, and the relations between stores that all of them
  obey.  The locale \<open>store_relation\<close> asks a preorder only about the statements on the tables and gives it for
  every call; it is interpreted on \<open>advances\<close> (the journals and revisions) and on \<open>grows\<close> (no row is lost),
  from which the properties of this theory follow.
\<close>

section \<open>Calls\<close>

datatype store_call =
  CreateTask new_task "string option"
| TaskStatus string task_status "string option"
| TransferTask string string string string bool
| BindManualTasks string string string
| CreateDispatch string string
| CreateScopedDispatch string string "string option" string string "string option" string
| DispatchAttempt new_run_dispatch
| AcceptDispatch string string string
| RecordActivity string
| FailStartup string string
| StallExpired timestamp
| FailDispatch string string "string option"
| CompleteDispatch string string string
| CompleteWorkflowDispatch string string string string
| CreateGate string string "string list"
| CreateStallGate string string
| ResolveStallGate string
| ResumeStalled string
| CancelTask string string
| RecoverStalled string task_status "string option" string bool
| TaskStartupFailure string string

fun run_call :: "env \<Rightarrow> store_call \<Rightarrow> unit store" where
  "run_call env (CreateTask n c) = thenT (create_orchestration_task_with_contract env n c) (okT ())"
| "run_call env (TaskStatus i st r) = thenT (update_orchestration_task_status env i st r) (okT ())"
| "run_call env (TransferTask i a c r f) = thenT (transfer_orchestration_task_coordinator env i a c r f) (okT ())"
| "run_call env (BindManualTasks r w c) = thenT (bind_manual_tasks_to_run env r w c) (okT ())"
| "run_call env (CreateDispatch i h) = thenT (create_orchestration_dispatch env i h) (okT ())"
| "run_call env (CreateScopedDispatch i h r w c t p) =
     thenT (create_scoped_orchestration_dispatch env i h r w c t p) (okT ())"
| "run_call env (DispatchAttempt n) = atomic (create_run_dispatch env n)"
| "run_call env (AcceptDispatch i h t) = thenT (accept_orchestration_dispatch env i h t) (okT ())"
| "run_call env (RecordActivity i) = thenT (record_orchestration_activity env i) (okT ())"
| "run_call env (FailStartup i e) = thenT (fail_orchestration_startup env i e) (okT ())"
| "run_call env (StallExpired t) = thenT (stall_expired_orchestration_dispatches env t) (okT ())"
| "run_call env (FailDispatch i e r) = thenT (fail_orchestration_dispatch_with_result env i e r) (okT ())"
| "run_call env (CompleteDispatch i h r) = thenT (complete_orchestration_dispatch env i h r) (okT ())"
| "run_call env (CompleteWorkflowDispatch i h r sha) =
     thenT (complete_workflow_orchestration_dispatch env i h r sha) (okT ())"
| "run_call env (CreateGate i q opts) = thenT (create_orchestration_gate env i q opts) (okT ())"
| "run_call env (CreateStallGate i q) = thenT (create_orchestration_stall_gate env i q) (okT ())"
| "run_call env (ResolveStallGate i) = thenT (resolve_stall_gate_as_resumed env i) (okT ())"
| "run_call env (ResumeStalled i) = resume_stalled_orchestration_dispatch env i"
| "run_call env (CancelTask i r) = thenT (cancel_orchestration_task env i r) (okT ())"
| "run_call env (RecoverStalled i st a r f) = thenT (recover_stalled_orchestration_task env i st a r f) (okT ())"
| "run_call env (TaskStartupFailure i e) = thenT (record_orchestration_task_startup_failure env i e) (okT ())"

text \<open>A history: each call at its own time, failed calls included.\<close>

definition run_calls :: "(env \<times> store_call) list \<Rightarrow> db \<Rightarrow> db" where
  "run_calls cs s = foldl (\<lambda>s (env, c). snd (run_call env c s)) s cs"

section \<open>Relations obeyed by every call\<close>

locale store_relation = txn_preorder R for R :: "db \<Rightarrow> db \<Rightarrow> bool" +
  assumes draw: "obeys R (random_text env)"
    and insert_tasks: "obeys R (insert_task env t)"
    and update_tasks: "(\<And>t. t_id (f t) = t_id t) \<Longrightarrow> obeys R (update_tasks env p f)"
    and insert_dispatches: "obeys R (insert_dispatch d)"
    and update_dispatches: "(\<And>d. d_id (g d) = d_id d) \<Longrightarrow> obeys R (update_dispatches q g)"
    and insert_gates: "obeys R (insert_gate x)"
    and update_gates: "(\<And>x. g_id (h x) = g_id x) \<Longrightarrow> obeys R (update_gates v h)"
    and obsolete: "obeys R (obsolete_queued_messages env pm)"
    and update_runs: "obeys R (update_runs ok sets a b)"
    and update_launches: "obeys R (update_launches c l)"
    and insert_run_events: "obeys R (insert_run_event e)"
    and insert_audit_events: "obeys R (insert_audit_event z)"
begin

lemmas statements = insert_tasks insert_dispatches insert_gates obsolete update_runs update_launches
  insert_run_events insert_audit_events

lemma ids: "obeys R (orchestration_id env pre)"
  unfolding orchestration_id_def by (intro holds_intros draw)

lemma reads:
  "obeys R (require_task i m)" "obeys R (require_dispatch i m)" "obeys R (require_gate i m)"
  "obeys R (status_for_deps ds)" "obeys R (validate_task_contract_completion env i r)"
  "obeys R (guard_contract_status_update i st)" "obeys R (ensure_dispatch_target_allowed i tgt)"
  unfolding require_task_def require_dispatch_def require_gate_def status_for_deps_def
    validate_task_contract_completion_def guard_contract_status_update_def ensure_dispatch_target_allowed_def Let_def
  by (auto intro!: holds_intros split: dispatch_target.split)

lemma events:
  "obeys R (record_run_event env ev)" "obeys R (record_dispatch_run_event env i kind m p)"
  "obeys R (record_task_run_event env i kind m p)" "obeys R (insert_orchestration_audit_event env y act tgt m)"
  unfolding record_run_event_def record_dispatch_run_event_def record_task_run_event_def
    insert_orchestration_audit_event_def
  by (auto intro!: holds_intros ids statements split: option.split)

lemma refresh: "obeys R (refresh_pending_dependents_after_task_status env i)"
  by (rule refresh_obeys [OF txn_preorder_axioms update_tasks])

lemmas rules = holds_intros statements update_tasks update_dispatches update_gates ids reads events refresh

lemma task_calls:
  "obeys R (create_orchestration_task_with_contract env n contract)"
  "obeys R (update_orchestration_task_status env i st result)"
  "obeys R (transfer_orchestration_task_coordinator env i actor co reason force)"
  "obeys R (bind_manual_tasks_to_run env run ws co)"
  unfolding create_orchestration_task_with_contract_def update_orchestration_task_status_def
    transfer_orchestration_task_coordinator_def bind_manual_tasks_to_run_def
  by (auto intro!: rules)

lemma dispatch_creation:
  "obeys R (create_run_dispatch env nd)"
  "obeys R (create_scoped_orchestration_dispatch env i handle run ws co ht pol)"
proof -
  show run: "obeys R (create_run_dispatch env nd)" for nd
    unfolding create_run_dispatch_def by (auto intro!: rules split: option.split)
  show "obeys R (create_scoped_orchestration_dispatch env i handle run ws co ht pol)"
    unfolding create_scoped_orchestration_dispatch_def by (intro rules run)
qed

lemma acceptance: "obeys R (accept_orchestration_dispatch env i handle ht)"
  unfolding accept_orchestration_dispatch_def by (auto intro!: rules)

lemma creation_with_acceptance: "obeys R (create_orchestration_dispatch env i handle)"
  unfolding create_orchestration_dispatch_def by (intro rules dispatch_creation acceptance)

lemma revival: "obeys R (revive_stalled_dispatch env i)"
proof -
  let ?up = "Store_Tables.update_dispatches (\<lambda>d. d_id d = i \<and> d_status d = DStalled)
      (\<lambda>d. d\<lparr>d_status := DDispatched, d_last_activity_at := Some (env_now env)\<rparr>)"
  have up: "obeys R ?up" by (rule update_dispatches) simp
  have "obeys R (\<lambda>s. case ?up s of
           (Inr n, s') \<Rightarrow> (Inr (n > 0), s')
         | (Inl (TriggerAbort m), s') \<Rightarrow>
             if contains_text ''workflow dispatch'' m then (Inr False, s') else (Inl (TriggerAbort m), s')
         | (Inl e, s') \<Rightarrow> (Inl e, s'))"
    using up by (auto simp: obeys_def split: prod.split sum.split store_error.split) (metis snd_conv)+
  then show ?thesis
    unfolding revive_stalled_dispatch_def by (auto intro!: rules)
qed

lemma lease_calls:
  "obeys R (record_orchestration_activity env i)" "obeys R (fail_orchestration_startup env i error)"
  "obeys R (stall_expired_orchestration_dispatches env threshold)"
  unfolding record_orchestration_activity_def fail_orchestration_startup_def fail_startup_txn_def
    stall_expired_orchestration_dispatches_def stall_context_def startup_failed_task_def Let_def
  by (auto intro!: rules revival)

lemma outcome_calls:
  "obeys R (fail_orchestration_dispatch_with_result env i error result)"
  "obeys R (complete_orchestration_dispatch_at_sha env i handle text sha)"
  unfolding fail_orchestration_dispatch_with_result_def fail_dispatch_txn_def Let_def
    complete_orchestration_dispatch_at_sha_def complete_dispatch_txn_def completion_event_def
    clear_resolved_workflow_launch_attention_def
  by (auto intro!: rules split: option.split)

lemma gate_calls:
  "obeys R (create_orchestration_gate env i question options)"
  "obeys R (create_orchestration_stall_gate env i question)"
  "obeys R (resolve_stall_gate_as_resumed env i)" "obeys R (resume_stalled_orchestration_dispatch env i)"
  unfolding create_orchestration_gate_def create_orchestration_stall_gate_def insert_task_gate_def
    resolve_stall_gate_as_resumed_def resume_stalled_orchestration_dispatch_def
  by (auto intro!: rules split: option.split nat.split)

lemma settlement_calls:
  "obeys R (cancel_orchestration_task env i reason)"
  "obeys R (recover_stalled_orchestration_task env i st actor reason force)"
  "obeys R (record_orchestration_task_startup_failure env i error)"
  unfolding cancel_orchestration_task_def cancel_one_def recover_stalled_orchestration_task_def
    record_orchestration_task_startup_failure_def startup_failed_task_def Let_def
  by (auto intro!: rules task_calls)

lemma calls: "obeys R (run_call env c)"
  by (cases c)
    (auto intro!: holds_intros task_calls dispatch_creation acceptance creation_with_acceptance lease_calls
      outcome_calls gate_calls settlement_calls
      simp: complete_orchestration_dispatch_def complete_workflow_orchestration_dispatch_def)

lemma histories: "R s (run_calls cs s)"
proof (induction cs rule: rev_induct)
  case (snoc c cs)
  then show ?case
    using calls [of "fst c" "snd c"] R_trans
    by (auto simp: run_calls_def obeys_def split_beta)
qed (simp add: run_calls_def R_refl)

end

section \<open>Journals and revisions\<close>

interpretation forward: store_relation advances
  by unfold_locales (unfold obsolete_queued_messages_def, (rule statements_advance)+)

text \<open>
  C15: The board revision is a change token and the journals are append-only.  Over any history of calls,
  failed ones included, the run timeline, the runtime event journal and the audit log are only extended at
  their end, the revisions never decrease, and a board revision that reads the same before and after means
  that no projected row (run, task, dispatch, gate, event, evidence, workspace, launch) has changed.
\<close>

theorem board_revision_is_a_change_token:
  "prefix (db_run_events s) (db_run_events (run_calls cs s))
    \<and> prefix (db_runtime_events s) (db_runtime_events (run_calls cs s))
    \<and> prefix (db_audit_events s) (db_audit_events (run_calls cs s))
    \<and> db_board_revision s \<le> db_board_revision (run_calls cs s)
    \<and> (board_view (run_calls cs s) \<noteq> board_view s \<longrightarrow> db_board_revision s < db_board_revision (run_calls cs s))"
  using forward.histories [of s cs] by (auto simp: advances_def)

text \<open>One task is created.\<close>

definition demo_calls :: "(env \<times> store_call) list" where
  "demo_calls = [(demo_env, CreateTask \<lparr>nt_spec = ''work'', nt_task_title = None, nt_display_name = None, nt_deps = [],
     nt_parent_id = None, nt_created_by_terminal_handle = None, nt_run_id = None, nt_workspace_id = ''w'',
     nt_coordinator_handle = ''c'', nt_result_schema = None\<rparr> None)]"

theorem board_revision_is_a_change_token_witness:
  "board_view (run_calls demo_calls empty_db) \<noteq> board_view empty_db
    \<and> db_board_revision empty_db < db_board_revision (run_calls demo_calls empty_db)"
proof -
  have "length (db_tasks (run_calls demo_calls empty_db)) = 1" by code_simp
  then have "board_view (run_calls demo_calls empty_db) \<noteq> board_view empty_db"
    by (auto simp: board_view_def empty_db_def)
  with board_revision_is_a_change_token [of empty_db demo_calls] show ?thesis by blast
qed

section \<open>Rows are never lost\<close>

definition grows :: "db \<Rightarrow> db \<Rightarrow> bool" where
  "grows s s' \<longleftrightarrow> t_id ` set (db_tasks s) \<subseteq> t_id ` set (db_tasks s')
    \<and> d_id ` set (db_dispatches s) \<subseteq> d_id ` set (db_dispatches s') \<and> g_id ` set (db_gates s) \<subseteq> g_id ` set (db_gates s')"

interpretation growing: txn_preorder grows
proof
  show "grows s s" for s by (simp add: grows_def)
  show "grows s s''" if "grows s s'" "grows s' s''" for s s' s''
    using that unfolding grows_def by (meson order_trans)
qed

lemma keys_update_rows: "(\<And>r. key (f r) = key r) \<Longrightarrow> key ` set (update_rows p f rows) = key ` set rows"
  by (induction rows) auto

lemma draw_grows: "obeys grows (random_text env)"
  by (simp add: obeys_def random_text_run grows_def)

lemma runtime_event_grows: "obeys grows (insert_runtime_event env k w d)"
  unfolding insert_runtime_event_def
  by (intro growing.holds_intros draw_grows growing.holds_modify) (simp add: grows_def)

lemma gates_grow: "obeys grows (insert_gate g)" "(\<And>x. g_id (h x) = g_id x) \<Longrightarrow> obeys grows (update_gates v h)"
  unfolding insert_gate_def update_gates_def
  by (intro growing.holds_intros growing.holds_modify; auto simp: grows_def keys_update_rows)+

lemma invalidation_grows: "obeys grows (invalidate_stage_gates env run)"
  unfolding invalidate_stage_gates_def by (intro growing.holds_intros draw_grows gates_grow) simp

lemma tasks_grow:
  "obeys grows (insert_task env t)" "(\<And>t. t_id (f t) = t_id t) \<Longrightarrow> obeys grows (update_tasks env p f)"
  unfolding insert_task_def update_tasks_def before_task_insert_def before_task_update_def after_task_update_def
    task_state_event_def delete_task_evidence_def
  by (intro growing.holds_intros runtime_event_grows invalidation_grows growing.holds_modify;
      auto simp: grows_def keys_update_rows)+

lemma dispatches_grow:
  "obeys grows (insert_dispatch d)" "(\<And>d. d_id (f d) = d_id d) \<Longrightarrow> obeys grows (update_dispatches p f)"
  unfolding insert_dispatch_def update_dispatches_def before_dispatch_insert_def before_dispatch_update_def Let_def
  by (intro growing.holds_intros growing.holds_modify; auto simp: grows_def keys_update_rows)+

lemma others_grow:
  "obeys grows (obsolete_queued_messages env pm)" "obeys grows (update_runs ok sets a b)"
  "obeys grows (update_launches c l)" "obeys grows (insert_run_event e)" "obeys grows (insert_audit_event z)"
  unfolding obsolete_queued_messages_def update_messages_def after_message_update_def question_event_def update_runs_def before_run_update_def
    update_launches_def insert_run_event_def insert_audit_event_def
  by (intro growing.holds_intros runtime_event_grows growing.holds_modify;
      simp add: grows_def touch_message_revisions_def)+

interpretation keeping: store_relation grows
  by unfold_locales (fact draw_grows tasks_grow dispatches_grow gates_grow others_grow)+

section \<open>Failed calls\<close>

text \<open>The store without the count of random draws, which no call reads back.\<close>

definition undrawn :: "db \<Rightarrow> db" where
  "undrawn s = s\<lparr>db_draws := 0\<rparr>"

definition clean_at :: "db \<Rightarrow> 'a store \<Rightarrow> bool" where
  "clean_at s m \<longleftrightarrow> (\<forall>e s'. m s = (Inl e, s') \<longrightarrow> undrawn s' = undrawn s)"

lemma clean_atomic: "clean_at s (atomic m)"
  by (simp add: clean_at_def atomic_Inl_iff)

lemma clean_read:
  "readonly m \<Longrightarrow> (\<And>x. m s = (Inr x, s) \<Longrightarrow> clean_at s (f x)) \<Longrightarrow> clean_at s (bindT m f)"
  unfolding clean_at_def bindT_Inl_iff using readonlyD [of m s] by blast

lemma clean_guard: "(b \<Longrightarrow> clean_at s m) \<Longrightarrow> clean_at s (thenT (guardT b e) m)"
  by (simp add: clean_at_def thenT_def bindT_def guardT_def)

lemma clean_if: "(b \<Longrightarrow> clean_at s m) \<Longrightarrow> (\<not> b \<Longrightarrow> clean_at s n) \<Longrightarrow> clean_at s (if b then m else n)"
  by simp

lemma clean_ok: "clean_at s (okT x)" "clean_at s (getsT f)"
  by (simp_all add: clean_at_def okT_def getsT_def)

lemma clean_draw:
  "clean_at (s\<lparr>db_draws := db_draws s + 1\<rparr>) (f (pre @ ''_'' @ take 16 (env_random env (db_draws s))))
    \<Longrightarrow> clean_at s (bindT (orchestration_id env pre) f)"
  by (simp add: clean_at_def bindT_def orchestration_id_run undrawn_def)

text \<open>A transaction followed by a read that finds its row.\<close>

lemma clean_committed:
  assumes "obeys grows (thenT m n)" "readonly n" "clean_at s m"
    and "\<And>x s'. m s = (Inr x, s') \<Longrightarrow> grows s s' \<Longrightarrow> \<not> isl (fst (n s'))"
  shows "clean_at s (thenT m n)"
proof -
  have "\<not> isl (fst (n s'))" if run: "m s = (Inr x, s')" for x s'
  proof -
    have "snd (thenT m n s) = s'" using assms(2) run by (simp add: thenT_def bindT_def readonly_def)
    with assms(1) have "grows s s'" by (auto simp: obeys_def)
    with run assms(4) show ?thesis by blast
  qed
  with assms(3) show ?thesis by (force simp: clean_at_def thenT_def bindT_Inl_iff)
qed

lemma clean_bind:
  assumes "clean_at s m" "\<And>x s'. m s = (Inr x, s') \<Longrightarrow> \<not> isl (fst (f x s'))"
  shows "clean_at s (bindT m f)"
  using assms by (force simp: clean_at_def bindT_Inl_iff)

lemma clean_unit: "clean_at s m \<Longrightarrow> clean_at s (thenT m (okT ()))"
  by (simp add: clean_at_def thenT_def bindT_Inl_iff okT_def)

lemma find_row_ex: "(\<exists>r. find_row key i rows = Some r) \<longleftrightarrow> i \<in> key ` set rows"
  using find_row_None [of key i rows] by auto

lemma found:
  "\<not> isl (fst (require_task i m s)) \<longleftrightarrow> i \<in> t_id ` set (db_tasks s)"
  "\<not> isl (fst (require_dispatch i m s)) \<longleftrightarrow> i \<in> d_id ` set (db_dispatches s)"
  "\<not> isl (fst (require_gate i m s)) \<longleftrightarrow> i \<in> g_id ` set (db_gates s)"
  by (simp_all add: require_task_def require_dispatch_def require_gate_def of_option_def txn_run
      flip: find_row_ex split: option.split)

lemma still_found:
  assumes "grows s s'"
  shows "task_by_id i s = Some t \<Longrightarrow> i \<in> t_id ` set (db_tasks s')"
    "dispatch_by_id i s = Some d \<Longrightarrow> i \<in> d_id ` set (db_dispatches s')"
  using assms find_row_ex by (fastforce simp: grows_def)+

lemma grows_gates: "grows s s' \<Longrightarrow> i \<in> g_id ` set (db_gates s) \<Longrightarrow> i \<in> g_id ` set (db_gates s')"
  unfolding grows_def by (elim conjE) (rule subsetD)

lemma clean_task_status: "clean_at s (update_orchestration_task_status env i st result)"
  using keeping.task_calls(2) [of env i st result] unfolding update_orchestration_task_status_def
  by (rule clean_committed [OF _ require_reads(1) clean_atomic])
    (auto simp: found txn_simps require_task_Inr dest: still_found)

lemma clean_accept: "clean_at s (accept_orchestration_dispatch env i h t)"
  using keeping.acceptance [of env i h t] unfolding accept_orchestration_dispatch_def
proof (rule clean_committed [OF _ require_reads(2) clean_atomic], goal_cases)
  case (1 x s')
  then obtain n s1 d where "d \<in> set (db_dispatches s)" "d_id d = i"
    by (auto simp: txn_simps filter_empty_conv dest!: update_dispatches_ok(1))
  with 1(2) show ?case by (auto simp: found grows_def)
qed

lemma clean_fail: "clean_at s (fail_orchestration_dispatch_with_result env i e r)"
  using keeping.outcome_calls(1) [of env i e r] unfolding fail_orchestration_dispatch_with_result_def
  by (rule clean_committed [OF _ require_reads(2)])
    (auto simp: fail_dispatch_txn_def clean_atomic found txn_simps require_dispatch_Inr dest: still_found)

lemma clean_cancel: "clean_at s (cancel_orchestration_task env i r)"
  using keeping.settlement_calls(1) [of env i r] unfolding cancel_orchestration_task_def
  by (rule clean_committed [OF _ require_reads(1) clean_atomic])
    (auto simp: found txn_simps require_task_Inr dest: still_found)

lemma clean_startup: "clean_at s (fail_orchestration_startup env i e)"
proof -
  have "obeys grows (thenT (fail_startup_txn env ctx e) (require_dispatch i m))" for ctx m
    by (auto simp: fail_startup_txn_def startup_failed_task_def Let_def intro!: keeping.rules)
  moreover have "clean_at s (fail_startup_txn env ctx e)" for ctx
    by (simp add: fail_startup_txn_def clean_atomic)
  ultimately show ?thesis
    unfolding fail_orchestration_startup_def
    by (intro clean_read clean_if clean_ok clean_committed require_reads)
      (auto simp: found require_dispatch_Inr dest: still_found)
qed

lemma clean_complete: "clean_at s (complete_orchestration_dispatch_at_sha env i h r sha)"
proof -
  have "obeys grows (thenT (complete_dispatch_txn env ctx h r sha b) (require_dispatch i m))" for ctx b m
    by (auto simp: complete_dispatch_txn_def completion_event_def clear_resolved_workflow_launch_attention_def
        intro!: keeping.rules split: option.split)
  then have txn: "clean_at s (thenT (complete_dispatch_txn env ctx h r sha b) (require_dispatch i m))"
    if "dispatch_by_id i s = Some ctx" for ctx b m
    by (rule clean_committed [OF _ require_reads(2)])
      (use that in \<open>auto simp: complete_dispatch_txn_def clean_atomic found dest: still_found\<close>)
  have cleared: "clean_at s (thenT (if b then clear_resolved_workflow_launch_attention env i else okT 0) (okT ctx))" for b ctx
    by (simp add: clean_at_def thenT_def bindT_def okT_def clear_resolved_workflow_launch_attention_def update_launches_run)
  show ?thesis
    unfolding complete_orchestration_dispatch_at_sha_def
    by (intro clean_read clean_guard clean_if require_reads txn cleared) (simp_all add: require_dispatch_Inr)
qed

lemma clean_complete_workflow: "clean_at s (complete_workflow_orchestration_dispatch env i h r sha)"
  unfolding complete_workflow_orchestration_dispatch_def by (intro clean_guard clean_complete)

lemma clean_create_task: "clean_at s (create_orchestration_task_with_contract env n c)"
proof -
  have "clean_at v (thenT (atomic (bindT (status_for_deps (nt_deps n)) (\<lambda>status.
      insert_task env (task_of_new env i n status c)))) (require_task i m))" for v i m
  proof (rule clean_committed [OF _ require_reads(1) clean_atomic], goal_cases)
    case 1
    then show ?case by (intro keeping.rules)
  next
    case (2 x s')
    then obtain st where "insert_task env (task_of_new env i n st c) v = (Inr x, s')"
      by (auto simp: txn_simps status_for_deps_def)
    then show ?case by (simp add: found insert_task_rows task_of_new_def Let_def)
  qed
  then show ?thesis
    unfolding create_orchestration_task_with_contract_def by (intro clean_guard clean_draw)
qed

text \<open>A transaction that returns the id of the row it inserted.\<close>

lemma clean_inserted:
  assumes "obeys grows (bindT (atomic m) n)" "\<And>x. readonly (n x)"
    and "\<And>x s'. m s = (Inr x, s') \<Longrightarrow> grows s s' \<Longrightarrow> \<not> isl (fst (n x s'))"
  shows "clean_at s (bindT (atomic m) n)"
proof -
  have "\<not> isl (fst (n x s'))" if run: "m s = (Inr x, s')" for x s'
  proof -
    have "atomic m s = (Inr x, s')" using run by (simp add: atomic_Inr_iff)
    then have "snd (bindT (atomic m) n s) = s'" using assms(2) by (simp add: bindT_def readonly_def)
    with assms(1) have "grows s s'" by (auto simp: obeys_def)
    with run assms(3) show ?thesis by blast
  qed
  then show ?thesis
    by (force simp: clean_at_def bindT_Inl_iff atomic_Inr_iff atomic_Inl_iff)
qed

lemma require_gate_reads: "readonly (require_gate i m)"
  by (simp add: readonly_def require_gate_def txn_run of_option_def split: option.split)

lemma clean_scoped: "clean_at s (create_scoped_orchestration_dispatch env i h r w c t p)"
  using keeping.dispatch_creation(2) [of env i h r w c t p] unfolding create_scoped_orchestration_dispatch_def
proof (rule clean_inserted [OF _ require_reads(2)], goal_cases)
  case (1 x s')
  then obtain v where "create_run_dispatch env (scoped_dispatch x i h r w c t p
      (carried_failures (db_dispatches s) i)) v = (Inr (), s')"
    unfolding scoped_dispatch_def [symmetric] by (auto simp: txn_simps require_task_Inr)
  then show ?case
    by (rule create_run_dispatch_phases)
      (auto simp: found statement_rows statement_frames dispatch_of_new_def scoped_dispatch_def Let_def)
qed

lemma inserted_gate:
  assumes "insert_task_gate env k i q opts s = (Inr gid, s')"
  shows "gid \<in> g_id ` set (db_gates s')"
  using assms
  by (auto simp: insert_task_gate_def txn_simps require_task_Inr record_event_frame statement_rows new_gate_def
      split: option.splits)

lemma clean_gate: "clean_at s (create_orchestration_gate env i q opts)"
  using keeping.gate_calls(1) [of env i q opts] unfolding create_orchestration_gate_def
proof (rule clean_inserted [OF _ require_gate_reads], goal_cases)
  case (1 x s')
  then obtain s1 n s2 k where gid: "insert_task_gate env KDecision i q opts s = (Inr x, s1)"
    and 2: "update_dispatches (\<lambda>d. d_task_id d = i \<and> active_dispatch d)
         (\<lambda>d. d\<lparr>d_status := DCompleted, d_completed_at := Some (env_now env)\<rparr>) s1 = (Inr n, s2)"
      "update_tasks env (\<lambda>t. t_id t = i) (\<lambda>t. t\<lparr>t_status := TBlocked\<rparr>) s2 = (Inr k, s')"
    by (auto simp: txn_simps require_task_Inr)
  have "grows s1 s2" by (rule obeysD [OF dispatches_grow(2) 2(1)]) simp
  moreover have "grows s2 s'" by (rule obeysD [OF tasks_grow(2) 2(2)]) simp
  ultimately show ?case using inserted_gate [OF gid] unfolding found by (metis grows_gates)
qed

lemma clean_stall_gate: "clean_at s (create_orchestration_stall_gate env i q)"
  using keeping.gate_calls(2) [of env i q] unfolding create_orchestration_stall_gate_def
proof (rule clean_inserted [OF _ require_gate_reads], goal_cases)
  case (1 x s')
  then show ?case
    by (auto simp: txn_simps require_task_Inr found find_Some_iff grows_def intro: inserted_gate split: option.splits)
qed

lemma clean_resolve: "clean_at s (resolve_stall_gate_as_resumed env i)"
  unfolding resolve_stall_gate_as_resumed_def
proof (rule clean_read [OF require_reads(3)])
  fix pending :: "gate option"
  have "\<not> isl (fst ((if n = 0 then okT None else getsT (f :: db \<Rightarrow> gate option)) v))" for n :: nat and f v
    by (simp add: okT_def getsT_def)
  then show "clean_at s (case pending of None \<Rightarrow> okT None
    | Some g \<Rightarrow> bindT (atomic (
        bindT (update_gates (\<lambda>h. g_id h = g_id g \<and> g_status h = GPending)
            (\<lambda>h. h\<lparr>g_status := GResolved, g_resolution := Some stall_gate_resumed,
                    g_resolved_at := Some (env_now env)\<rparr>)) (\<lambda>n.
        thenT (case (n, g_run_id g) of
            (Suc _, Some run_id) \<Rightarrow> thenT (record_run_event env ((new_run_event run_id EGateResolved)\<lparr>
                ne_task_id := Some i, ne_gate_id := Some (g_id g), ne_summary := stall_gate_resumed,
                ne_payload := Some (JObj [(''kind'', JStr ''stall'')])\<rparr>)) (okT ())
          | _ \<Rightarrow> okT ())
          (okT n)))) (\<lambda>n.
        if n = 0 then okT None else getsT (\<lambda>s. find_row g_id (g_id g) (db_gates s))))"
    by (cases pending) (simp_all add: clean_ok, intro clean_bind clean_atomic)
qed

text \<open>An update that hits no row writes nothing, so a refusal because of it is clean.\<close>

lemma update_tasks_missed:
  assumes "update_tasks env p f s = (Inr 0, s')"
  shows "s' = s"
proof -
  have "\<not> (\<exists>t \<in> set (db_tasks s). p t)" using update_tasks_ok(1) [OF assms] by (auto simp: filter_empty_conv)
  then have "filter p (db_tasks s) = []" "update_rows p f (db_tasks s) = db_tasks s"
    by (simp_all add: filter_empty_conv update_rows_none)
  with assms show ?thesis by (simp add: update_tasks_def txn_run)
qed

lemma clean_task_startup: "clean_at s (record_orchestration_task_startup_failure env i e)"
  unfolding record_orchestration_task_startup_failure_def
proof (rule clean_read [OF require_reads(3)])
  fix held
  let ?p = "\<lambda>t. t_id t = i \<and> t_status t = TReady \<and> \<not> held"
  let ?f = "\<lambda>t. (startup_failed_task env t)\<lparr>t_result := Some e\<rparr>"
  have "\<not> isl (fst (require_task i m s'))" if "update_tasks env ?p ?f s = (Inr n, s')" "n \<noteq> 0" for n s' m
  proof -
    have "i \<in> t_id ` set (db_tasks s)" using update_tasks_ok(1) [OF that(1)] that(2) by (auto simp: filter_empty_conv)
    moreover have "grows s s'"
      by (rule obeysD [OF tasks_grow(2) that(1)]) (simp add: startup_failed_task_def Let_def)
    ultimately show ?thesis by (auto simp: found grows_def)
  qed
  then show "clean_at s (bindT (update_tasks env ?p ?f) (\<lambda>n.
      thenT (guardT (n \<noteq> 0) (Bail ''task startup failure rejected: task is missing or terminal''))
        (require_task i ''task not found after startup failure'')))" (is "clean_at s ?m")
  proof -
    assume row: "\<And>n s' m. update_tasks env ?p ?f s = (Inr n, s') \<Longrightarrow> n \<noteq> 0 \<Longrightarrow> \<not> isl (fst (require_task i m s'))"
    obtain q v where up: "update_tasks env ?p ?f s = (q, v)" by fastforce
    show ?thesis
    proof (cases q)
      case (Inl e)
      with up show ?thesis by (auto simp: clean_at_def bindT_def dest: atomic_unchanged)
    next
      case (Inr n)
      show ?thesis
      proof (cases "n = 0")
        case True
        with up Inr update_tasks_missed [of env ?p ?f s v] show ?thesis
          by (simp add: clean_at_def bindT_def thenT_def guardT_def)
      next
        case False
        have "fst (require_task i ''task not found after startup failure'' v) \<noteq> Inl e'" for e'
          using row [OF up [unfolded Inr] False, of "''task not found after startup failure''"] by auto
        with up Inr False show ?thesis
          by (auto simp: clean_at_def bindT_def thenT_def guardT_def) (metis fst_conv)
      qed
    qed
  qed
qed

text \<open>
  The calls that are one transaction, or one statement.  The others write more than once: the transfer and
  the recovery append their audit entry after the change, \<open>create_orchestration_dispatch\<close> accepts in a second
  transaction, \<open>bind_manual_tasks_to_run\<close> updates two tables one after the other, and the lease sweep is one
  transaction per dispatch.
\<close>

fun all_or_nothing :: "store_call \<Rightarrow> bool" where
  "all_or_nothing (TransferTask _ _ _ _ _) = False"
| "all_or_nothing (BindManualTasks _ _ _) = False"
| "all_or_nothing (CreateDispatch _ _) = False"
| "all_or_nothing (StallExpired _) = False"
| "all_or_nothing (RecoverStalled _ _ _ _ _) = False"
| "all_or_nothing _ = True"

text \<open>
  C14: A refused call leaves no trace.  Every call that is one transaction and returns an error, for a missing
  row, a state that does not allow it, a wrong assignee, a constraint or a trigger of the schema, leaves the
  whole store as it was, up to the count of random draws.
\<close>

theorem refused_calls_leave_no_trace:
  assumes "all_or_nothing c" "run_call env c s = (Inl e, s')"
  shows "undrawn s' = undrawn s"
proof -
  have "clean_at s (run_call env c)"
    using assms(1)
    by (cases c)
      (auto intro!: clean_unit clean_atomic clean_task_status clean_accept clean_fail clean_cancel clean_startup
        clean_complete clean_complete_workflow clean_create_task clean_scoped clean_gate clean_stall_gate
        clean_resolve clean_task_startup
        simp: complete_orchestration_dispatch_def record_orchestration_activity_def
          resume_stalled_orchestration_dispatch_def)
  with assms(2) show ?thesis by (auto simp: clean_at_def)
qed

theorem refused_calls_leave_no_trace_witness:
  "\<exists>e s'. run_call demo_env (CompleteDispatch ''ctx_9'' ''term'' ''done'') demo_db = (Inl e, s') \<and> undrawn s' = undrawn demo_db"
proof -
  have "isl (fst (run_call demo_env (CompleteDispatch ''ctx_9'' ''term'' ''done'') demo_db))" by code_simp
  then obtain e s' where r: "run_call demo_env (CompleteDispatch ''ctx_9'' ''term'' ''done'') demo_db = (Inl e, s')"
    by (metis isl_def prod.collapse)
  with refused_calls_leave_no_trace [OF _ r] show ?thesis by simp
qed

end
