(* ===== verification/Message_Store.thy ===== *)
theory Message_Store
  imports Store_Calls
begin

text \<open>
  Messages between agents and the external inboxes (\<open>orchestration_message_store.rs\<close>, \<open>inbox_store.rs\<close>,
  \<open>inbox_retention.rs\<close>, \<open>conversation_store.rs\<close>): posting, the deadline sweep every read starts with,
  delivery and read marks, cancellation of questions, and the deletion of old conversations.  SQLite's
  \<open>json_set\<close> and \<open>json_extract\<close> are arguments of the operations that use them.
\<close>

section \<open>New messages\<close>

definition orchestration_handle_max_bytes :: nat where
  "orchestration_handle_max_bytes = 512"

definition orchestration_subject_max_bytes :: nat where
  "orchestration_subject_max_bytes = 256"

definition orchestration_body_max_bytes :: nat where
  "orchestration_body_max_bytes = 64 * 1024"

definition orchestration_thread_id_max_bytes :: nat where
  "orchestration_thread_id_max_bytes = 512"

definition orchestration_payload_max_bytes :: nat where
  "orchestration_payload_max_bytes = 64 * 1024"

record new_message =
  nm_from_handle :: string
  nm_to_handle :: string
  nm_subject :: string
  nm_body :: string
  nm_message_type :: message_type
  nm_priority :: message_priority
  nm_thread_id :: "string option"
  nm_payload :: "string option"
  nm_run_id :: "string option"
  nm_workspace_id :: "string option"
  nm_task_id :: "string option"
  nm_dispatch_id :: "string option"
  nm_expires_at :: "timestamp option"
  nm_reply_to_id :: "string option"
  nm_external_meta :: "string option"
  nm_delivery :: message_delivery

definition validate_message_field :: "string \<Rightarrow> string \<Rightarrow> nat \<Rightarrow> store_error + unit" where
  "validate_message_field v field max_bytes = guardE (length v \<le> max_bytes)
     (Bail (''message_too_large: '' @ field @ '' exceeds '' @ decimal (int max_bytes) @ '' UTF-8 bytes''))"

definition validate_optional_field :: "string option \<Rightarrow> string \<Rightarrow> nat \<Rightarrow> store_error + unit" where
  "validate_optional_field v field max_bytes =
    (case v of None \<Rightarrow> Inr () | Some x \<Rightarrow> validate_message_field x field max_bytes)"

definition validate_new_orchestration_message :: "new_message \<Rightarrow> store_error + unit" where
  "validate_new_orchestration_message n =
    bindE (validate_message_field (nm_from_handle n) ''from handle'' orchestration_handle_max_bytes) (\<lambda>_.
    bindE (validate_message_field (nm_to_handle n) ''to handle'' orchestration_handle_max_bytes) (\<lambda>_.
    bindE (validate_message_field (nm_subject n) ''subject'' orchestration_subject_max_bytes) (\<lambda>_.
    bindE (validate_message_field (nm_body n) ''body'' orchestration_body_max_bytes) (\<lambda>_.
    bindE (validate_optional_field (nm_thread_id n) ''thread id'' orchestration_thread_id_max_bytes) (\<lambda>_.
    bindE (validate_optional_field (nm_payload n) ''payload'' orchestration_payload_max_bytes) (\<lambda>_.
      validate_optional_field (nm_reply_to_id n) ''reply id'' orchestration_thread_id_max_bytes))))))"

text \<open>The row an \<open>INSERT\<close> writes: the bound columns, and the defaults of the schema for the others.\<close>

definition message_of_new :: "env \<Rightarrow> string \<Rightarrow> new_message \<Rightarrow> message" where
  "message_of_new env i n = \<lparr>m_id = i, m_from_handle = nm_from_handle n, m_to_handle = nm_to_handle n,
     m_subject = nm_subject n, m_body = nm_body n, m_type = nm_message_type n, m_priority = nm_priority n,
     m_thread_id = nm_thread_id n, m_payload = nm_payload n, m_read = False, m_sequence = 0,
     m_created_at = env_now env, m_delivered_at = None, m_run_id = nm_run_id n,
     m_workspace_id = nm_workspace_id n, m_task_id = nm_task_id n, m_dispatch_id = nm_dispatch_id n,
     m_state = SQueued, m_expires_at = nm_expires_at n, m_obsolete_at = None,
     m_reply_to_id = nm_reply_to_id n, m_external_meta = nm_external_meta n, m_delivery = nm_delivery n\<rparr>"

definition message_by_id :: "string \<Rightarrow> db \<Rightarrow> message option" where
  "message_by_id i s = find_row m_id i (db_messages s)"

definition escalation_event :: "env \<Rightarrow> string \<Rightarrow> new_message \<Rightarrow> unit store" where
  "escalation_event env i n = (case (nm_message_type n, nm_run_id n) of
       (MEscalation, Some run) \<Rightarrow> thenT (record_run_event env ((new_run_event run EEscalation)\<lparr>
           ne_task_id := nm_task_id n, ne_dispatch_id := nm_dispatch_id n, ne_actor_kind := Some AAgent,
           ne_actor_id := Some (nm_from_handle n), ne_summary := nm_subject n,
           ne_payload := Some (JObj [(''messageId'', JStr i)])\<rparr>)) (okT ())
     | _ \<Rightarrow> okT ())"

definition insert_orchestration_message :: "env \<Rightarrow> new_message \<Rightarrow> message store" where
  "insert_orchestration_message env n =
    thenT (liftT (validate_new_orchestration_message n))
   (bindT (orchestration_id env ''msg'') (\<lambda>i.
    thenT (atomic (thenT (insert_message env (message_of_new env i n)) (escalation_event env i n)))
   (bindT (getsT (message_by_id i)) (\<lambda>m.
      liftT (of_option (Bail ''inserted orchestration message not found'') m)))))"

section \<open>Reading and marking\<close>

text \<open>
  The deadline sweep.  An inbox question only expires before it reaches the agent.
\<close>

definition expirable :: "timestamp \<Rightarrow> message \<Rightarrow> bool" where
  "expirable now m \<longleftrightarrow> (case m_expires_at m of None \<Rightarrow> False | Some at \<Rightarrow> at \<le> now)
    \<and> (m_state m = SQueued \<or> (m_state m = SDelivered \<and> \<not> external (m_from_handle m)))"

definition expire_orchestration_messages :: "env \<Rightarrow> unit store" where
  "expire_orchestration_messages env =
    thenT (update_messages env (expirable (env_now env)) (\<lambda>m. m\<lparr>m_state := SExpired\<rparr>)) (okT ())"

definition select_messages :: "(message \<Rightarrow> bool) \<Rightarrow> db \<Rightarrow> message list" where
  "select_messages p s = sort_key m_sequence (filter p (db_messages s))"

definition latest_messages :: "(message \<Rightarrow> bool) \<Rightarrow> int \<Rightarrow> db \<Rightarrow> message list" where
  "latest_messages p limit s = (let rows = rev (select_messages p s) in
     if limit < 0 then rows else take (nat limit) rows)"

definition of_types :: "message_type list option \<Rightarrow> message \<Rightarrow> bool" where
  "of_types types m \<longleftrightarrow> (case types of None \<Rightarrow> True | Some ts \<Rightarrow> ts = [] \<or> m_type m \<in> set ts)"

definition unread_orchestration_messages :: "env \<Rightarrow> string \<Rightarrow> message_type list option \<Rightarrow> message list store" where
  "unread_orchestration_messages env to_handle types =
    thenT (expire_orchestration_messages env) (getsT (select_messages (\<lambda>m.
      m_to_handle m = to_handle \<and> \<not> m_read m \<and> m_state m \<notin> {SExpired, SObsolete} \<and> of_types types m)))"

text \<open>
  \<open>extract text path\<close> is SQLite's \<open>json_extract\<close>: \<open>None\<close> for malformed JSON, \<open>JNull\<close> for a missing value.
\<close>

definition names_a_task :: "(string \<Rightarrow> string \<Rightarrow> json option) \<Rightarrow> message \<Rightarrow> bool" where
  "names_a_task extract m = (case m_payload m of None \<Rightarrow> False | Some text \<Rightarrow>
     (case extract text ''$.taskId'' of None \<Rightarrow> False | Some v \<Rightarrow> v \<noteq> JNull \<and> v \<noteq> JStr ''''))"

definition unread_orchestration_coordinator_messages ::
  "(string \<Rightarrow> string \<Rightarrow> json option) \<Rightarrow> env \<Rightarrow> string \<Rightarrow> message list store" where
  "unread_orchestration_coordinator_messages extract env to_handle =
    thenT (expire_orchestration_messages env) (getsT (select_messages (\<lambda>m.
      m_to_handle m = to_handle \<and> \<not> m_read m \<and> m_state m \<notin> {SExpired, SObsolete}
      \<and> (m_type m = MEscalation \<or> (m_type m = MDecisionGate \<and> names_a_task extract m)))))"

definition undelivered_messages :: "env \<Rightarrow> string \<Rightarrow> bool \<Rightarrow> message list store" where
  "undelivered_messages env to_handle now_only =
    thenT (expire_orchestration_messages env) (getsT (select_messages (\<lambda>m.
      m_to_handle m = to_handle \<and> \<not> m_read m \<and> m_delivered_at m = None \<and> m_state m = SQueued
      \<and> (\<not> now_only \<or> m_delivery m = DeliverNow))))"

definition undelivered_unread_orchestration_messages :: "env \<Rightarrow> string \<Rightarrow> message list store" where
  "undelivered_unread_orchestration_messages env to_handle = undelivered_messages env to_handle False"

definition undelivered_now_orchestration_messages :: "env \<Rightarrow> string \<Rightarrow> message list store" where
  "undelivered_now_orchestration_messages env to_handle = undelivered_messages env to_handle True"

definition all_orchestration_messages_for_handle ::
  "env \<Rightarrow> string \<Rightarrow> message_type list option \<Rightarrow> int \<Rightarrow> message list store" where
  "all_orchestration_messages_for_handle env to_handle types limit =
    thenT (expire_orchestration_messages env)
      (getsT (latest_messages (\<lambda>m. m_to_handle m = to_handle \<and> of_types types m) limit))"

definition all_orchestration_messages_from_handle :: "env \<Rightarrow> string \<Rightarrow> int \<Rightarrow> message list store" where
  "all_orchestration_messages_from_handle env from_handle limit =
    thenT (expire_orchestration_messages env) (getsT (latest_messages (\<lambda>m. m_from_handle m = from_handle) limit))"

definition recent_orchestration_messages :: "env \<Rightarrow> int \<Rightarrow> message list store" where
  "recent_orchestration_messages env limit =
    thenT (expire_orchestration_messages env) (getsT (latest_messages (\<lambda>_. True) limit))"

definition read_message :: "message \<Rightarrow> message" where
  "read_message m = m\<lparr>m_read := True, m_state := (if m_state m = SObsolete then m_state m else SRead)\<rparr>"

definition mark_orchestration_messages_read :: "env \<Rightarrow> string list \<Rightarrow> unit store" where
  "mark_orchestration_messages_read env ids =
    (if ids = [] then okT () else thenT (update_messages env (\<lambda>m. m_id m \<in> set ids) read_message) (okT ()))"

definition delivered_message :: "timestamp \<Rightarrow> message \<Rightarrow> message" where
  "delivered_message now m = m\<lparr>m_delivered_at := Some now, m_state :=
     (if m_state m = SQueued \<or> (m_state m = SExpired \<and> external (m_from_handle m)) then SDelivered else m_state m)\<rparr>"

definition mark_orchestration_messages_delivered :: "env \<Rightarrow> string list \<Rightarrow> unit store" where
  "mark_orchestration_messages_delivered env ids =
    (if ids = [] then okT ()
     else thenT (update_messages env (\<lambda>m. m_id m \<in> set ids) (delivered_message (env_now env))) (okT ()))"

definition orchestration_thread_messages_for :: "string \<Rightarrow> string \<Rightarrow> int \<Rightarrow> db \<Rightarrow> message list" where
  "orchestration_thread_messages_for thread_id to_handle after_sequence =
    select_messages (\<lambda>m. m_thread_id m = Some thread_id \<and> m_to_handle m = to_handle
      \<and> int (m_sequence m) > after_sequence)"

section \<open>Deletion\<close>

text \<open>
  A \<open>DELETE\<close> finds its rows before it removes the first one (SQLite takes that path whenever a trigger or a
  correlated subquery is present); the triggers move the revisions once per removed row.
\<close>

definition delete_messages :: "(message \<Rightarrow> bool) \<Rightarrow> nat store" where
  "delete_messages p = bindT (getsT (\<lambda>s. filter p (db_messages s))) (\<lambda>hit.
     thenT (modifyT (\<lambda>s. fold touch_message_revisions hit (s\<lparr>db_messages := filter (\<lambda>m. \<not> p m) (db_messages s)\<rparr>)))
       (okT (length hit)))"

definition reset_orchestration_messages :: "unit store" where
  "reset_orchestration_messages = thenT (delete_messages (\<lambda>_. True)) (okT ())"

fun chunks_of :: "nat \<Rightarrow> 'a list \<Rightarrow> 'a list list" where
  "chunks_of n [] = []"
| "chunks_of n (x # xs) = (x # take (n - 1) xs) # chunks_of n (drop (n - 1) xs)"

primrec sum_for :: "'a list \<Rightarrow> ('a \<Rightarrow> nat store) \<Rightarrow> nat store" where
  "sum_for [] f = okT 0"
| "sum_for (x # xs) f = bindT (f x) (\<lambda>a. bindT (sum_for xs f) (\<lambda>b. okT (a + b)))"

definition delete_batch :: nat where
  "delete_batch = 400"

section \<open>External inboxes\<close>

definition inbox_pending_limit :: nat where
  "inbox_pending_limit = 100"

definition inbox_default_expiry_seconds :: int where
  "inbox_default_expiry_seconds = 5 * 60 * 60"

definition inbox_min_expiry_seconds :: int where
  "inbox_min_expiry_seconds = 60"

definition inbox_max_expiry_seconds :: int where
  "inbox_max_expiry_seconds = 7 * 24 * 60 * 60"

definition inbox_history_seconds :: nat where
  "inbox_history_seconds = 7 * 24 * 60 * 60"

definition inbox_external_meta_max_bytes :: nat where
  "inbox_external_meta_max_bytes = 16 * 1024"

definition inbox_name_max_bytes :: nat where
  "inbox_name_max_bytes = 63"

definition is_external_inbox :: "string \<Rightarrow> bool" where
  "is_external_inbox handle = prefix ''ext:'' handle"

definition inbox_thread_parties :: "message \<Rightarrow> (string \<times> string) option" where
  "inbox_thread_parties root =
    (if m_thread_id root \<noteq> None then None
     else if is_external_inbox (m_from_handle root) \<and> \<not> is_external_inbox (m_to_handle root)
     then Some (m_from_handle root, m_to_handle root)
     else if is_external_inbox (m_to_handle root) \<and> \<not> is_external_inbox (m_from_handle root)
     then Some (m_to_handle root, m_from_handle root)
     else None)"

definition lowercase_or_digit :: "char \<Rightarrow> bool" where
  "lowercase_or_digit c \<longleftrightarrow> (CHR ''a'' \<le> c \<and> c \<le> CHR ''z'') \<or> (CHR ''0'' \<le> c \<and> c \<le> CHR ''9'')"

definition validate_inbox_address :: "string \<Rightarrow> store_error + unit" where
  "validate_inbox_address address =
    (if \<not> is_external_inbox address
     then Inl (Bail ''inbox_invalid_address: an inbox address starts with ext:'')
     else let name = drop 4 address in
       guardE (name \<noteq> [] \<and> lowercase_or_digit (hd name)
           \<and> list_all (\<lambda>c. lowercase_or_digit c \<or> c \<in> {CHR ''.'', CHR ''_'', CHR ''-''}) name
           \<and> length name \<le> inbox_name_max_bytes)
         (Bail (''inbox_invalid_address: use ext: followed by 1-63 lowercase letters, digits, dots, underscores '' @
            ''or hyphens, starting with a letter or digit'')))"

record new_inbox_question =
  nq_delivery :: message_delivery
  nq_inbox :: string
  nq_recipient :: string
  nq_subject :: string
  nq_body :: string
  nq_priority :: message_priority
  nq_thread_id :: "string option"
  nq_workspace_id :: "string option"
  nq_payload :: "string option"
  nq_expires_in_seconds :: "int option"
  nq_external_meta :: json

definition inbox_revision :: "db \<Rightarrow> nat" where
  "inbox_revision s = db_inbox_revision s"

text \<open>\<open>previous\<close> is the revision announced last, kept in memory by the host.\<close>

definition take_inbox_change :: "nat \<Rightarrow> db \<Rightarrow> nat option \<times> nat" where
  "take_inbox_change previous s = (let revision = inbox_revision s in
     (if revision > previous then Some revision else None, max previous revision))"

definition waiting_question :: "message \<Rightarrow> bool" where
  "waiting_question m \<longleftrightarrow> external (m_from_handle m) \<and> m_state m = SQueued \<and> m_delivered_at m = None \<and> \<not> m_read m"

definition expire_inbox_questions :: "env \<Rightarrow> string list store" where
  "expire_inbox_questions env =
    bindT (getsT (\<lambda>s. remdups (map m_from_handle (filter (\<lambda>m. external (m_from_handle m) \<and> m_state m = SQueued
        \<and> (case m_expires_at m of None \<Rightarrow> False | Some at \<Rightarrow> at \<le> env_now env)) (db_messages s))))) (\<lambda>inboxes.
    thenT (whenT (inboxes \<noteq> []) (expire_orchestration_messages env)) (okT inboxes))"

definition pending_inbox_questions_for :: "env \<Rightarrow> string \<Rightarrow> nat store" where
  "pending_inbox_questions_for env recipient =
    thenT (expire_orchestration_messages env)
      (getsT (\<lambda>s. length (filter (\<lambda>m. m_to_handle m = recipient \<and> waiting_question m) (db_messages s))))"

definition question_message :: "env \<Rightarrow> new_inbox_question \<Rightarrow> string \<Rightarrow> int \<Rightarrow> new_message" where
  "question_message env q external_meta expires_in =
    \<lparr>nm_from_handle = nq_inbox q, nm_to_handle = nq_recipient q, nm_subject = nq_subject q, nm_body = nq_body q,
     nm_message_type = MQuestion, nm_priority = nq_priority q, nm_thread_id = nq_thread_id q,
     nm_payload = nq_payload q, nm_run_id = None, nm_workspace_id = nq_workspace_id q, nm_task_id = None,
     nm_dispatch_id = None, nm_expires_at = Some (env_now env + nat expires_in), nm_reply_to_id = None,
     nm_external_meta = Some external_meta, nm_delivery = nq_delivery q\<rparr>"

definition check_question_thread :: "new_inbox_question \<Rightarrow> unit store" where
  "check_question_thread q = (case nq_thread_id q of None \<Rightarrow> okT () | Some thread \<Rightarrow>
     bindT (getsT (message_by_id thread)) (\<lambda>root.
       guardT (Option.bind root inbox_thread_parties = Some (nq_inbox q, nq_recipient q))
         (Bail ''inbox_thread_mismatch: a follow-up must continue a thread between this inbox and the same agent'')))"

definition insert_inbox_question :: "env \<Rightarrow> new_inbox_question \<Rightarrow> message store" where
  "insert_inbox_question env q =
    thenT (liftT (validate_inbox_address (nq_inbox q)))
   (thenT (guardT (\<not> (is_external_inbox (nq_recipient q) \<or> prefix ''@'' (nq_recipient q)))
      (Bail ''inbox_invalid_recipient: ask a terminal, not a group or another inbox''))
   (let expires_in = (case nq_expires_in_seconds q of None \<Rightarrow> inbox_default_expiry_seconds | Some n \<Rightarrow> n);
        external_meta = env_json env (nq_external_meta q) in
    thenT (guardT (inbox_min_expiry_seconds \<le> expires_in \<and> expires_in \<le> inbox_max_expiry_seconds)
      (Bail ''inbox_invalid_expiry: expiry must be between 60 and 604800 seconds''))
   (thenT (guardT (length external_meta \<le> inbox_external_meta_max_bytes)
      (Bail ''message_too_large: inbox metadata exceeds 16384 UTF-8 bytes''))
   (thenT (check_question_thread q)
   (bindT (pending_inbox_questions_for env (nq_recipient q)) (\<lambda>pending.
    thenT (guardT (pending < inbox_pending_limit)
      (Bail (''inbox_pending_limit: This agent already has 100 questions waiting. '' @
         ''Wait for it to read them or cancel some.'')))
      (insert_orchestration_message env (question_message env q external_meta expires_in))))))))"

text \<open>
  \<open>set text path value\<close> is SQLite's \<open>json_set\<close>, \<open>None\<close> where it raises because the text is malformed.  The
  statement then fails as a whole.
\<close>

definition merged_meta :: "(string \<Rightarrow> string \<Rightarrow> json \<Rightarrow> string option) \<Rightarrow> string \<Rightarrow> json \<Rightarrow> message \<Rightarrow> string option" where
  "merged_meta set_json path v m = set_json (case m_external_meta m of None \<Rightarrow> ''{}'' | Some text \<Rightarrow> text) path v"

definition update_meta ::
  "(string \<Rightarrow> string \<Rightarrow> json \<Rightarrow> string option) \<Rightarrow> env \<Rightarrow> (message \<Rightarrow> bool) \<Rightarrow> string \<Rightarrow> json \<Rightarrow>
    (message \<Rightarrow> message) \<Rightarrow> nat store" where
  "update_meta set_json env p path v f =
    bindT (getsT (\<lambda>s. filter p (db_messages s))) (\<lambda>hit.
    thenT (guardT (\<forall>m \<in> set hit. merged_meta set_json path v m \<noteq> None) (Constraint ''malformed JSON''))
      (update_messages env p (\<lambda>m. (f m)\<lparr>m_external_meta := merged_meta set_json path v m\<rparr>)))"

definition set_message_delivery_mode ::
  "(string \<Rightarrow> string \<Rightarrow> json \<Rightarrow> string option) \<Rightarrow> env \<Rightarrow> string \<Rightarrow> string \<Rightarrow> unit store" where
  "set_message_delivery_mode set_json env i mode =
    thenT (update_meta set_json env (\<lambda>m. m_id m = i) ''$.deliveryMode'' (JStr mode) (\<lambda>m. m)) (okT ())"

definition cancel_inbox_question ::
  "(string \<Rightarrow> string \<Rightarrow> json \<Rightarrow> string option) \<Rightarrow> env \<Rightarrow> string \<Rightarrow> json \<Rightarrow> message store" where
  "cancel_inbox_question set_json env i cancellation =
    thenT (expire_orchestration_messages env)
   (bindT (update_meta set_json env (\<lambda>m. m_id m = i \<and> waiting_question m) ''$.cancellation'' cancellation
       (\<lambda>m. m\<lparr>m_state := SObsolete, m_obsolete_at := Some (env_now env)\<rparr>)) (\<lambda>n.
    bindT (getsT (message_by_id i)) (\<lambda>found.
    case found of
      None \<Rightarrow> failT (Bail (''inbox_question_not_found: '' @ i))
    | Some m \<Rightarrow>
        if n = 1 then okT m
        else if is_external_inbox (m_from_handle m)
        then failT (Bail ''inbox_not_cancellable: only a question that has not reached the agent can be cancelled'')
        else failT (Bail (''inbox_question_not_found: '' @ i)))))"

definition mark_inbox_messages_read :: "env \<Rightarrow> string list \<Rightarrow> nat store" where
  "mark_inbox_messages_read env ids =
    (if ids = [] then okT 0
     else update_messages env (\<lambda>m. \<not> m_read m \<and> external (m_to_handle m) \<and> m_id m \<in> set ids) read_message)"

section \<open>Retention\<close>

definition in_threads :: "string list \<Rightarrow> message \<Rightarrow> bool" where
  "in_threads roots m \<longleftrightarrow> (case m_thread_id m of None \<Rightarrow> False | Some thread \<Rightarrow> thread \<in> set roots)"

definition purge_inbox :: "string \<Rightarrow> nat store" where
  "purge_inbox inbox =
    thenT (liftT (validate_inbox_address inbox))
   (bindT (getsT (\<lambda>s. map m_id (filter (\<lambda>m. m_from_handle m = inbox \<and> m_thread_id m = None) (db_messages s)))) (\<lambda>roots.
    atomic (
      bindT (delete_messages (\<lambda>m. m_from_handle m = inbox \<or> m_to_handle m = inbox)) (\<lambda>deleted.
      bindT (sum_for (chunks_of delete_batch roots) (\<lambda>chunk. delete_messages (in_threads chunk))) (\<lambda>n.
        okT (deleted + n))))))"

text \<open>
  The questions that opened a thread and are idle with everything in it: no message since the cutoff and no
  question still waiting for delivery.
\<close>

definition thread_member :: "string \<Rightarrow> message \<Rightarrow> bool" where
  "thread_member root m \<longleftrightarrow> m_id m = root \<or> m_thread_id m = Some root"

definition idle_roots :: "timestamp \<Rightarrow> message list \<Rightarrow> string list" where
  "idle_roots cutoff ms = map m_id (filter (\<lambda>r. external (m_from_handle r) \<and> m_thread_id r = None
     \<and> \<not> (\<exists>m \<in> set ms. thread_member (m_id r) m \<and> (m_created_at m \<ge> cutoff \<or> waiting_question m))) ms)"

definition loose_message :: "timestamp \<Rightarrow> message list \<Rightarrow> message \<Rightarrow> bool" where
  "loose_message cutoff ms m \<longleftrightarrow> inbox_row m \<and> m_created_at m < cutoff
    \<and> \<not> (external (m_from_handle m) \<and> m_thread_id m = None)
    \<and> (case m_thread_id m of None \<Rightarrow> True | Some thread \<Rightarrow> thread \<notin> m_id ` set ms)"

definition prune_inbox_history :: "env \<Rightarrow> nat store" where
  "prune_inbox_history env =
    thenT (expire_orchestration_messages env)
   (let cutoff = env_now env - inbox_history_seconds in
    bindT (getsT (\<lambda>s. idle_roots cutoff (db_messages s))) (\<lambda>roots.
    atomic (
      bindT (sum_for (chunks_of delete_batch roots)
         (\<lambda>chunk. delete_messages (\<lambda>m. m_id m \<in> set chunk \<or> in_threads chunk m))) (\<lambda>deleted.
      bindT (getsT db_messages) (\<lambda>ms.
      bindT (delete_messages (loose_message cutoff ms)) (\<lambda>n.
        okT (deleted + n)))))))"

section \<open>Conversations between agents\<close>

definition conversation_revision :: "db \<Rightarrow> nat" where
  "conversation_revision s = db_conversation_revision s"

definition take_conversation_change :: "nat \<Rightarrow> db \<Rightarrow> nat option \<times> nat" where
  "take_conversation_change previous s = (let revision = conversation_revision s in
     (if revision > previous then Some revision else None, max previous revision))"

definition conversation_thread :: "string \<Rightarrow> db \<Rightarrow> message list" where
  "conversation_thread thread = select_messages (\<lambda>m. thread_member thread m \<and> conversation_row m)"

definition thread_key :: "message \<Rightarrow> string" where
  "thread_key m = (case m_thread_id m of None \<Rightarrow> m_id m | Some thread \<Rightarrow> thread)"

definition unfinished_work :: "db \<Rightarrow> message \<Rightarrow> bool" where
  "unfinished_work s m \<longleftrightarrow>
    (\<exists>d \<in> set (db_dispatches s). m_dispatch_id m = Some (d_id d)
       \<and> d_status d \<in> {DPending, DDispatched, DAwaitingAcceptance, DStalled})
    \<or> (\<exists>t \<in> set (db_tasks s). m_task_id m = Some (t_id t)
       \<and> t_status t \<in> {TPending, TReady, TDispatched, TBlocked, TStalled})"

definition idle_conversations :: "timestamp \<Rightarrow> db \<Rightarrow> string list" where
  "idle_conversations cutoff s = (let rows = filter conversation_row (db_messages s) in
     filter (\<lambda>k. \<forall>m \<in> set rows. thread_key m = k \<longrightarrow>
         m_created_at m < cutoff \<and> m_state m \<noteq> SQueued \<and> \<not> unfinished_work s m)
       (remdups (map thread_key rows)))"

definition prune_conversation_history :: "env \<Rightarrow> nat store" where
  "prune_conversation_history env =
    bindT (getsT (idle_conversations (env_now env - inbox_history_seconds))) (\<lambda>threads.
    atomic (sum_for (chunks_of delete_batch threads) (\<lambda>chunk.
      delete_messages (\<lambda>m. conversation_row m \<and> (m_id m \<in> set chunk \<or> in_threads chunk m)))))"

end
