(* ===== verification/Workflow_Yaml.thy ===== *)
theory Workflow_Yaml
  imports Rust_Text
begin

text \<open>
  Workflow documents (\<open>run_yaml.rs\<close>, \<open>run_json_escapes.rs\<close>): the value builder over the events of the
  YAML parser, and the normalisation of JSON surrogate escapes that runs before it.  The parser
  (\<open>yaml-rust2\<close>), the JSON syntax check and the number reader (\<open>serde_json\<close>) are parameters.  A parser
  delivers finitely many events; when they run out before the end of the stream it reports an error at
  the given position.
\<close>

section \<open>Objects\<close>

text \<open>
  \<open>serde_json::Map\<close> is a \<open>BTreeMap\<close>: an association list with ascending keys.  A build that turns on the feature
  \<open>preserve_order\<close> keeps the order of insertion instead, which is the same for keys that arrive in ascending order.
\<close>

fun map_insert :: "string \<Rightarrow> 'v \<Rightarrow> (string \<times> 'v) list \<Rightarrow> (string \<times> 'v) list" where
  "map_insert k v [] = [(k, v)]"
| "map_insert k v ((k', v') # kvs) =
    (if k < k' then (k, v) # (k', v') # kvs
     else if k = k' then (k, v) # kvs
     else (k', v') # map_insert k v kvs)"

lemma set_map_insert:
  "k \<notin> fst ` set kvs \<Longrightarrow> set (map_insert k v kvs) = insert (k, v) (set kvs)"
  by (induction k v kvs rule: map_insert.induct) (simp_all add: insert_commute)

lemma keys_map_insert: "fst ` set (map_insert k v kvs) = insert k (fst ` set kvs)"
  by (induction k v kvs rule: map_insert.induct) (simp_all add: insert_commute)

lemma sorted_map_insert:
  "sorted_wrt (<) (map fst kvs) \<Longrightarrow> sorted_wrt (<) (map fst (map_insert k v kvs))"
proof (induction k v kvs rule: map_insert.induct)
  case (2 k v k' v' kvs)
  have "k' < fst x" if "x \<in> set (map_insert k v kvs)" "\<not> k < k'" "k \<noteq> k'" for x
  proof -
    have "fst x \<in> insert k (fst ` set kvs)" using that(1) keys_map_insert [of k v kvs] by blast
    with 2 that show ?thesis by auto
  qed
  with 2 show ?case by (auto intro: less_trans)
qed simp

lemma map_insert_last: "\<forall>x \<in> set kvs. fst x < k \<Longrightarrow> map_insert k v kvs = kvs @ [(k, v)]"
  by (induction kvs) auto

lemma sum_list_map_insert:
  fixes f :: "string \<times> 'v \<Rightarrow> nat"
  shows "k \<notin> fst ` set kvs \<Longrightarrow> sum_list (map f (map_insert k v kvs)) = f (k, v) + sum_list (map f kvs)"
  by (induction kvs) auto

section \<open>Surrogate escapes\<close>

definition hex_digit :: "char \<Rightarrow> nat option" where
  "hex_digit c =
    (if CHR ''0'' \<le> c \<and> c \<le> CHR ''9'' then Some (of_char c - 48)
     else if CHR ''a'' \<le> c \<and> c \<le> CHR ''f'' then Some (of_char c - 87)
     else if CHR ''A'' \<le> c \<and> c \<le> CHR ''F'' then Some (of_char c - 55)
     else None)"

text \<open>\<open>from_str_radix(text, 16)\<close> of at most four digits, which cannot overflow a \<open>u16\<close>; a plus sign may lead.\<close>

fun hex_value :: "nat \<Rightarrow> string \<Rightarrow> nat option" where
  "hex_value acc [] = Some acc"
| "hex_value acc (c # cs) = (case hex_digit c of None \<Rightarrow> None | Some d \<Rightarrow> hex_value (16 * acc + d) cs)"

definition from_hex :: "string \<Rightarrow> nat option" where
  "from_hex s = (let ds = (if prefix ''+'' s then tl s else s) in if ds = [] then None else hex_value 0 ds)"

definition unicode_escape :: "string \<Rightarrow> nat option" where
  "unicode_escape bs = (if prefix [CHR 0x5C, CHR ''u''] bs then from_hex (drop 2 bs) else None)"

definition surrogate_pair :: "string \<Rightarrow> nat option" where
  "surrogate_pair bs =
    (if length bs < 12 then None
     else case (unicode_escape (take 6 bs), unicode_escape (take 6 (drop 6 bs))) of
       (Some high, Some low) \<Rightarrow>
         if 0xD800 \<le> high \<and> high \<le> 0xDBFF \<and> 0xDC00 \<le> low \<and> low \<le> 0xDFFF
         then Some (0x10000 + (high - 0xD800) * 0x400 + (low - 0xDC00)) else None
     | _ \<Rightarrow> None)"

text \<open>\<open>String::push\<close> of a character outside the basic plane.\<close>

definition encode_utf8_4 :: "nat \<Rightarrow> string" where
  "encode_utf8_4 v = map char_of
    [0xF0 + v div 0x40000, 0x80 + v div 0x1000 mod 0x40, 0x80 + v div 0x40 mod 0x40, 0x80 + v mod 0x40]"

function normalize_loop :: "bool \<Rightarrow> string \<Rightarrow> string" where
  "normalize_loop quoted [] = []"
| "normalize_loop quoted (c # cs) =
    (if c = CHR 0x22 then c # normalize_loop (\<not> quoted) cs
     else if c = CHR 0x5C \<and> quoted then
       (case surrogate_pair (c # cs) of
          Some v \<Rightarrow> encode_utf8_4 v @ normalize_loop quoted (drop 12 (c # cs))
        | None \<Rightarrow> c # take 1 cs @ normalize_loop quoted (drop 1 cs))
     else c # normalize_loop quoted cs)"
  by pat_completeness auto
termination by (relation "measure (\<lambda>(_, cs). length cs)") auto

declare normalize_loop.simps [simp del]

definition normalize_json_surrogate_pairs :: "(string \<Rightarrow> bool) \<Rightarrow> string \<Rightarrow> string" where
  "normalize_json_surrogate_pairs valid_json src =
    (if \<not> sublist [CHR 0x5C, CHR ''u''] src \<or> \<not> valid_json src then src else normalize_loop False src)"

section \<open>The value builder\<close>

text \<open>
  \<open>Event\<close>: a scalar carries its text, whether its style is plain, its anchor and whether it has a tag.
\<close>

datatype yaml_event = StreamStart | StreamEnd | DocumentStart | DocumentEnd | Alias
  | Scalar string bool nat bool
  | SequenceStart nat bool | SequenceEnd | MappingStart nat bool | MappingEnd | Nothing

type_synonym yaml_token = "yaml_event \<times> nat \<times> nat"

datatype yaml_error = YamlBail string | YamlAt string nat nat | YamlInvalid nat nat

datatype collection = Sequence "json list" | Mapping "(string \<times> json) list" "string option"

record yaml_builder =
  yb_stack :: "collection list"
  yb_root :: "json option"
  yb_documents :: nat
  yb_nodes :: nat

definition workflow_document_max_bytes :: nat where
  "workflow_document_max_bytes = 256 * 1024"

definition yaml_max_nodes :: nat where
  "yaml_max_nodes = 8192"

definition yaml_max_depth :: nat where
  "yaml_max_depth = 24"

definition count_node :: "yaml_builder \<Rightarrow> yaml_error + yaml_builder" where
  "count_node b =
    (let nodes = yb_nodes b + 1 in
     if nodes > yaml_max_nodes \<or> length (yb_stack b) \<ge> yaml_max_depth
     then Inl (YamlBail ''workflow YAML exceeds the node or nesting limit'')
     else Inr (b\<lparr>yb_nodes := nodes\<rparr>))"

fun yaml_append :: "json \<Rightarrow> collection list \<Rightarrow> json option \<Rightarrow> string + collection list \<times> json option" where
  "yaml_append v (Sequence items # st) root = Inr (Sequence (items @ [v]) # st, root)"
| "yaml_append v (Mapping items (Some k) # st) root =
    (if k \<in> fst ` set items then Inl ''workflow YAML has a duplicate mapping key''
     else Inr (Mapping (map_insert k v items) None # st, root))"
| "yaml_append v (Mapping items None # st) root =
    (case v of
       JStr k \<Rightarrow> (if k = ''<<'' then Inl ''workflow YAML merge keys are not allowed''
                 else Inr (Mapping items (Some k) # st, root))
     | _ \<Rightarrow> Inl ''workflow YAML mapping keys must be strings'')"
| "yaml_append v [] root =
    (if root = None then Inr ([], Some v) else Inl ''workflow YAML contains multiple root values'')"

definition yaml_scalar :: "(string \<Rightarrow> json_number option) \<Rightarrow> string \<Rightarrow> bool \<Rightarrow> json" where
  "yaml_scalar number txt plain =
    (if plain then
       if txt \<in> {'''', ''~'', ''null''} then JNull
       else if txt = ''true'' then JBool True
       else if txt = ''false'' then JBool False
       else case number txt of Some n \<Rightarrow> JNum n | None \<Rightarrow> JStr txt
     else JStr txt)"

text \<open>\<open>append\<close> as the loop calls it: its error is reported with the position of the event.\<close>

definition append_at :: "nat \<times> nat \<Rightarrow> json \<Rightarrow> yaml_builder \<Rightarrow> yaml_error + yaml_builder" where
  "append_at pos v b = (case yaml_append v (yb_stack b) (yb_root b) of
     Inl e \<Rightarrow> Inl (YamlAt e (fst pos) (snd pos))
   | Inr (st, root) \<Rightarrow> Inr (b\<lparr>yb_stack := st, yb_root := root\<rparr>))"

definition yaml_start :: "collection \<Rightarrow> nat \<Rightarrow> bool \<Rightarrow> yaml_builder \<Rightarrow> yaml_error + yaml_builder" where
  "yaml_start c anchor tag b =
    (if anchor \<noteq> 0 \<or> tag then Inl (YamlBail ''workflow YAML anchors and tags are not allowed'')
     else bindE (count_node b) (\<lambda>b. Inr (b\<lparr>yb_stack := c # yb_stack b\<rparr>)))"

definition yaml_end :: "nat \<times> nat \<Rightarrow> yaml_builder \<Rightarrow> yaml_error + yaml_builder" where
  "yaml_end pos b = (case yb_stack b of
     Sequence items # st \<Rightarrow> append_at pos (JArr items) (b\<lparr>yb_stack := st\<rparr>)
   | Mapping items None # st \<Rightarrow> append_at pos (JObj items) (b\<lparr>yb_stack := st\<rparr>)
   | _ \<Rightarrow> Inl (YamlBail ''workflow YAML contains an incomplete collection''))"

text \<open>One turn of the loop, for an event other than the end of the stream.\<close>

fun yaml_step :: "(string \<Rightarrow> json_number option) \<Rightarrow> yaml_event \<Rightarrow> nat \<times> nat \<Rightarrow> yaml_builder \<Rightarrow> yaml_error + yaml_builder" where
  "yaml_step number DocumentStart pos b =
    (let documents = yb_documents b + 1 in
     if documents \<noteq> 1 then Inl (YamlBail ''workflow YAML must contain exactly one document'')
     else Inr (b\<lparr>yb_documents := documents\<rparr>))"
| "yaml_step number Alias pos b = Inl (YamlBail ''workflow YAML aliases and anchors are not allowed'')"
| "yaml_step number (Scalar txt plain anchor tag) pos b =
    (if anchor \<noteq> 0 \<or> tag then Inl (YamlBail ''workflow YAML anchors and tags are not allowed'')
     else bindE (count_node b) (append_at pos (yaml_scalar number txt plain)))"
| "yaml_step number (SequenceStart anchor tag) pos b = yaml_start (Sequence []) anchor tag b"
| "yaml_step number (MappingStart anchor tag) pos b = yaml_start (Mapping [] None) anchor tag b"
| "yaml_step number SequenceEnd pos b = yaml_end pos b"
| "yaml_step number MappingEnd pos b = yaml_end pos b"
| "yaml_step number Nothing pos b = Inl (YamlBail ''workflow YAML parser emitted an unexpected event'')"
| "yaml_step number _ pos b = Inr b"

fun yaml_loop :: "(string \<Rightarrow> json_number option) \<Rightarrow> nat \<times> nat \<Rightarrow> yaml_token list \<Rightarrow> yaml_builder \<Rightarrow> yaml_error + yaml_builder" where
  "yaml_loop number err [] b = Inl (YamlInvalid (fst err) (snd err))"
| "yaml_loop number err ((e, pos) # ts) b =
    (if e = StreamEnd then Inr b else bindE (yaml_step number e pos b) (yaml_loop number err ts))"

definition yaml_init :: yaml_builder where
  "yaml_init = \<lparr>yb_stack = [], yb_root = None, yb_documents = 0, yb_nodes = 0\<rparr>"

definition yaml_finish :: "yaml_builder \<Rightarrow> yaml_error + json" where
  "yaml_finish b =
    (if yb_documents b \<noteq> 1 \<or> yb_stack b \<noteq> []
     then Inl (YamlBail ''workflow YAML must contain one complete document'')
     else case yb_root b of
       Some (JObj kvs) \<Rightarrow> Inr (JObj kvs)
     | _ \<Rightarrow> Inl (YamlBail ''workflow YAML must have a mapping root''))"

record yaml_reader =
  yr_parser :: "string \<Rightarrow> yaml_token list \<times> nat \<times> nat"
  yr_valid_json :: "string \<Rightarrow> bool"
  yr_number :: "string \<Rightarrow> json_number option"

definition parse_workflow_yaml :: "yaml_reader \<Rightarrow> string \<Rightarrow> yaml_error + json" where
  "parse_workflow_yaml rd src =
    (if src = [] \<or> length src > workflow_document_max_bytes \<or> CHR 0x00 \<in> set src
     then Inl (YamlBail ''workflow YAML is empty, too large or contains NUL'')
     else case yr_parser rd (normalize_json_surrogate_pairs (yr_valid_json rd) src) of
       (tokens, err) \<Rightarrow> bindE (yaml_loop (yr_number rd) err tokens yaml_init) yaml_finish)"

section \<open>Well-formed documents\<close>

text \<open>A document as the builder produces it: ascending keys in every object and no merge key.\<close>

fun yaml_normal :: "json \<Rightarrow> bool" where
  "yaml_normal (JArr vs) \<longleftrightarrow> (\<forall>v \<in> set vs. yaml_normal v)"
| "yaml_normal (JObj kvs) \<longleftrightarrow>
    sorted_wrt (<) (map fst kvs) \<and> (\<forall>kv \<in> set kvs. fst kv \<noteq> ''<<'' \<and> yaml_normal (snd kv))"
| "yaml_normal _ \<longleftrightarrow> True"

text \<open>The scalars and collections of a document, keys included, and whether it nests at most \<open>d\<close> levels.\<close>

fun yaml_nodes :: "json \<Rightarrow> nat" where
  "yaml_nodes (JArr vs) = 1 + sum_list (map yaml_nodes vs)"
| "yaml_nodes (JObj kvs) = 1 + sum_list (map (\<lambda>kv. 1 + yaml_nodes (snd kv)) kvs)"
| "yaml_nodes _ = 1"

fun yaml_fits :: "nat \<Rightarrow> json \<Rightarrow> bool" where
  "yaml_fits d (JArr vs) \<longleftrightarrow> 0 < d \<and> (\<forall>v \<in> set vs. yaml_fits (d - 1) v)"
| "yaml_fits d (JObj kvs) \<longleftrightarrow> 0 < d \<and> (kvs \<noteq> [] \<longrightarrow> 1 < d) \<and> (\<forall>kv \<in> set kvs. yaml_fits (d - 1) (snd kv))"
| "yaml_fits d _ \<longleftrightarrow> 0 < d"

lemma yaml_fits_pos: "yaml_fits d v \<Longrightarrow> 0 < d"
  by (cases v) auto

lemma yaml_nodes_pos: "0 < yaml_nodes v"
  by (cases v) auto

section \<open>Everything the builder accepts is bounded and well formed\<close>

fun collection_nodes :: "collection \<Rightarrow> nat" where
  "collection_nodes (Sequence items) = yaml_nodes (JArr items)"
| "collection_nodes (Mapping items k) = yaml_nodes (JObj items) + (if k = None then 0 else 1)"

fun collection_ok :: "nat \<Rightarrow> collection \<Rightarrow> bool" where
  "collection_ok d (Sequence items) \<longleftrightarrow> yaml_fits d (JArr items) \<and> yaml_normal (JArr items)"
| "collection_ok d (Mapping items k) \<longleftrightarrow> yaml_fits d (JObj items) \<and> yaml_normal (JObj items)
    \<and> (\<forall>s. k = Some s \<longrightarrow> s \<noteq> ''<<'' \<and> 1 < d)"

fun stack_ok :: "collection list \<Rightarrow> bool" where
  "stack_ok [] \<longleftrightarrow> True"
| "stack_ok (c # st) \<longleftrightarrow> length st < yaml_max_depth \<and> collection_ok (yaml_max_depth - length st) c \<and> stack_ok st"

definition value_ok :: "nat \<Rightarrow> json \<Rightarrow> bool" where
  "value_ok d v \<longleftrightarrow> yaml_fits d v \<and> yaml_normal v"

definition root_nodes :: "json option \<Rightarrow> nat" where
  "root_nodes root = (case root of None \<Rightarrow> 0 | Some v \<Rightarrow> yaml_nodes v)"

definition yaml_inv :: "yaml_builder \<Rightarrow> bool" where
  "yaml_inv b \<longleftrightarrow> stack_ok (yb_stack b) \<and> (\<forall>v. yb_root b = Some v \<longrightarrow> value_ok yaml_max_depth v)
     \<and> yb_nodes b \<le> yaml_max_nodes
     \<and> yb_nodes b = sum_list (map collection_nodes (yb_stack b)) + root_nodes (yb_root b)"

text \<open>Appending a value that fits where it is put adds exactly its nodes.\<close>

lemma yaml_append_ok:
  assumes "yaml_append v st root = Inr (st', root')" "stack_ok st" "value_ok (yaml_max_depth - length st) v"
    "\<forall>w. root = Some w \<longrightarrow> value_ok yaml_max_depth w"
  shows "stack_ok st' \<and> (\<forall>w. root' = Some w \<longrightarrow> value_ok yaml_max_depth w)
    \<and> sum_list (map collection_nodes st') + root_nodes root'
      = sum_list (map collection_nodes st) + root_nodes root + yaml_nodes v"
  using assms
proof (cases "(v, st, root)" rule: yaml_append.cases)
  case (2 v' items k st0 root0)
  then have "st' = Mapping (map_insert k v items) None # st0" "k \<notin> fst ` set items" "root' = root"
    using assms(1) by (auto split: if_splits)
  with 2 assms(2-4) show ?thesis
    by (auto simp: value_ok_def set_map_insert sorted_map_insert sum_list_map_insert)
next
  case (3 v' items st0 root0)
  then obtain k where "v = JStr k" "k \<noteq> ''<<''" "st' = Mapping items (Some k) # st0" "root' = root"
    using assms(1) by (auto split: json.splits if_splits)
  with 3 assms(2-4) show ?thesis by (auto simp: value_ok_def)
next
  case (4 v' root0)
  with assms show ?thesis by (auto simp: root_nodes_def split: if_splits)
qed (auto simp: value_ok_def)

lemma append_at_inv:
  assumes "append_at pos v b = Inr b'" "stack_ok (yb_stack b)" "value_ok (yaml_max_depth - length (yb_stack b)) v"
    "\<forall>w. yb_root b = Some w \<longrightarrow> value_ok yaml_max_depth w" "yb_nodes b \<le> yaml_max_nodes"
    "yb_nodes b = sum_list (map collection_nodes (yb_stack b)) + root_nodes (yb_root b) + yaml_nodes v"
  shows "yaml_inv b'"
proof -
  from assms(1) obtain st root where a: "yaml_append v (yb_stack b) (yb_root b) = Inr (st, root)"
    "b' = b\<lparr>yb_stack := st, yb_root := root\<rparr>"
    by (auto simp: append_at_def split: sum.splits)
  show ?thesis using yaml_append_ok [OF a(1) assms(2-4)] assms(5,6) a(2) by (simp add: yaml_inv_def)
qed

lemma yaml_scalar_ok [simp]:
  "yaml_nodes (yaml_scalar number txt plain) = 1"
  "value_ok d (yaml_scalar number txt plain) \<longleftrightarrow> 0 < d"
  by (auto simp: yaml_scalar_def value_ok_def split: option.splits)

lemma count_node_Inr: "count_node b = Inr b' \<longleftrightarrow>
    yb_nodes b < yaml_max_nodes \<and> length (yb_stack b) < yaml_max_depth \<and> b' = b\<lparr>yb_nodes := yb_nodes b + 1\<rparr>"
  by (auto simp: count_node_def Let_def)

lemma yaml_start_inv:
  assumes "yaml_start c anchor tag b = Inr b'" "yaml_inv b" "c = Sequence [] \<or> c = Mapping [] None"
  shows "yaml_inv b'"
  using assms by (auto simp: yaml_start_def yaml_inv_def bindE_Inr_iff count_node_Inr split: if_splits)

lemma yaml_end_inv:
  assumes "yaml_end pos b = Inr b'" "yaml_inv b"
  shows "yaml_inv b'"
proof -
  from assms(1) obtain c st v where c: "yb_stack b = c # st" "append_at pos v (b\<lparr>yb_stack := st\<rparr>) = Inr b'"
    "(\<exists>items. c = Sequence items \<and> v = JArr items) \<or> (\<exists>items. c = Mapping items None \<and> v = JObj items)"
    by (auto simp: yaml_end_def split: list.splits collection.splits option.splits)
  show ?thesis using assms(2) c(1,3) by (intro append_at_inv [OF c(2)]) (auto simp: yaml_inv_def value_ok_def)
qed

lemma yaml_inv_documents [simp]: "yaml_inv (b\<lparr>yb_documents := n\<rparr>) = yaml_inv b"
  by (simp add: yaml_inv_def)

lemma yaml_step_inv:
  assumes "yaml_step number e pos b = Inr b'" "yaml_inv b"
  shows "yaml_inv b'"
proof (cases e)
  case (Scalar w plain anchor tagged)
  with assms(1) have c: "yb_nodes b < yaml_max_nodes" "length (yb_stack b) < yaml_max_depth"
    "append_at pos (yaml_scalar number w plain) (b\<lparr>yb_nodes := yb_nodes b + 1\<rparr>) = Inr b'"
    by (auto simp: bindE_Inr_iff count_node_Inr split: if_splits)
  show ?thesis using assms(2) c(1,2) by (intro append_at_inv [OF c(3)]) (auto simp: yaml_inv_def)
qed (use assms in \<open>auto intro: yaml_start_inv yaml_end_inv simp: Let_def split: if_splits\<close>)

lemma yaml_loop_inv: "yaml_loop number err ts b = Inr b' \<Longrightarrow> yaml_inv b \<Longrightarrow> yaml_inv b'"
proof (induction number err ts b rule: yaml_loop.induct)
  case (2 number err e pos ts b)
  then show ?case by (auto simp: bindE_Inr_iff split: if_splits dest: yaml_step_inv)
qed simp

lemma yaml_inv_init: "yaml_inv yaml_init"
  by (simp add: yaml_inv_def yaml_init_def root_nodes_def)

text \<open>
  C38: Whatever the document and whatever the parser reports, an accepted document is an object whose
  keys are unique at every level, none of them the merge key, that nests at most 24 levels and has at most
  8192 keys, scalars and collections.
\<close>

theorem yaml_documents_are_bounded:
  assumes "parse_workflow_yaml rd src = Inr v"
  shows "(\<exists>kvs. v = JObj kvs) \<and> yaml_normal v \<and> yaml_fits yaml_max_depth v \<and> yaml_nodes v \<le> yaml_max_nodes"
proof -
  from assms obtain tokens err b where b: "yaml_loop (yr_number rd) err tokens yaml_init = Inr b" "yaml_finish b = Inr v"
    by (auto simp: parse_workflow_yaml_def bindE_Inr_iff split: if_splits prod.splits)
  from yaml_loop_inv [OF b(1) yaml_inv_init] b(2) show ?thesis
    by (auto simp: yaml_inv_def yaml_finish_def value_ok_def root_nodes_def split: if_splits option.splits json.splits)
qed

section \<open>Documents written as events are read back\<close>

text \<open>The events of a document whose strings are quoted, with numbers written by \<open>digits\<close>.\<close>

fun events_of :: "(json_number \<Rightarrow> string) \<Rightarrow> json \<Rightarrow> yaml_event list" where
  "events_of digits JNull = [Scalar ''null'' True 0 False]"
| "events_of digits (JBool x) = [Scalar (if x then ''true'' else ''false'') True 0 False]"
| "events_of digits (JNum n) = [Scalar (digits n) True 0 False]"
| "events_of digits (JStr s) = [Scalar s False 0 False]"
| "events_of digits (JArr vs) = SequenceStart 0 False # concat (map (events_of digits) vs) @ [SequenceEnd]"
| "events_of digits (JObj kvs) = MappingStart 0 False
    # concat (map (\<lambda>kv. Scalar (fst kv) False 0 False # events_of digits (snd kv)) kvs) @ [MappingEnd]"

text \<open>The loop on events alone: positions only matter to errors.\<close>

fun yaml_run :: "(string \<Rightarrow> json_number option) \<Rightarrow> yaml_event list \<Rightarrow> yaml_builder \<Rightarrow> yaml_builder option" where
  "yaml_run number [] b = Some b"
| "yaml_run number (e # es) b = (case yaml_step number e (0, 0) b of
     Inl _ \<Rightarrow> None | Inr b' \<Rightarrow> yaml_run number es b')"

lemma yaml_run_append: "yaml_run number (xs @ ys) b = Option.bind (yaml_run number xs b) (yaml_run number ys)"
  by (induction xs arbitrary: b) (auto split: sum.splits)

lemma append_at_pos: "append_at pos v b = Inr b' \<longleftrightarrow> append_at (0, 0) v b = Inr b'"
  by (auto simp: append_at_def split: sum.splits)

lemma yaml_step_pos: "yaml_step number e pos b = Inr b' \<longleftrightarrow> yaml_step number e (0, 0) b = Inr b'"
  by (cases e) (auto simp: bindE_Inr_iff yaml_end_def append_at_pos [of pos]
    split: list.splits collection.splits option.splits)

lemma yaml_loop_run:
  "yaml_run number (map fst ts) b = Some b' \<Longrightarrow> StreamEnd \<notin> fst ` set ts \<Longrightarrow>
    yaml_loop number err (ts @ (StreamEnd, pos) # rest) b = Inr b'"
proof (induction ts arbitrary: b)
  case (Cons t ts)
  obtain e p where t: "t = (e, p)" by (cases t)
  from Cons.prems t obtain b1 where "yaml_step number e (0, 0) b = Inr b1" "yaml_run number (map fst ts) b1 = Some b'"
    by (auto split: sum.splits)
  with Cons t yaml_step_pos [of number e p] show ?case by (auto simp: bindE_Inr_iff)
qed simp

text \<open>
  Every number of the document is written as a plain text that the number reader reads as this number.  It is a
  condition on the document: \<open>serde_json\<close> reads integers back within 64 bits, and doubles from texts such as 1.5.
\<close>

fun numbers_of :: "json \<Rightarrow> json_number list" where
  "numbers_of (JNum n) = [n]"
| "numbers_of (JArr vs) = concat (map numbers_of vs)"
| "numbers_of (JObj kvs) = concat (map (\<lambda>kv. numbers_of (snd kv)) kvs)"
| "numbers_of _ = []"

definition reads_back :: "(string \<Rightarrow> json_number option) \<Rightarrow> (json_number \<Rightarrow> string) \<Rightarrow> json \<Rightarrow> bool" where
  "reads_back number digits v \<longleftrightarrow>
    (\<forall>n \<in> set (numbers_of v). number (digits n) = Some n \<and> digits n \<notin> {'''', ''~'', ''null'', ''true'', ''false''})"

lemma yaml_step_scalar:
  assumes "yaml_append (yaml_scalar number w plain) (yb_stack b) (yb_root b) = Inr (st, root)"
    "length (yb_stack b) < yaml_max_depth" "yb_nodes b < yaml_max_nodes"
  shows "yaml_step number (Scalar w plain 0 False) pos b
    = Inr (b\<lparr>yb_stack := st, yb_root := root, yb_nodes := yb_nodes b + 1\<rparr>)"
  using assms by (simp add: count_node_def append_at_def)

lemma yaml_run_items:
  assumes "\<And>v b st root. v \<in> set vs \<Longrightarrow> yaml_fits (yaml_max_depth - length (yb_stack b)) v \<Longrightarrow>
      yb_nodes b + yaml_nodes v \<le> yaml_max_nodes \<Longrightarrow> yaml_append v (yb_stack b) (yb_root b) = Inr (st, root) \<Longrightarrow>
      yaml_run number (events_of digits v) b
        = Some (b\<lparr>yb_stack := st, yb_root := root, yb_nodes := yb_nodes b + yaml_nodes v\<rparr>)"
    and "\<forall>v \<in> set vs. yaml_fits (yaml_max_depth - length (yb_stack b)) v"
    and "yb_nodes b + sum_list (map yaml_nodes vs) \<le> yaml_max_nodes" and "yb_stack b = Sequence items # st"
  shows "yaml_run number (concat (map (events_of digits) vs)) b
    = Some (b\<lparr>yb_stack := Sequence (items @ vs) # st, yb_nodes := yb_nodes b + sum_list (map yaml_nodes vs)\<rparr>)"
  using assms
proof (induction vs arbitrary: b items)
  case (Cons v vs)
  let ?b = "b\<lparr>yb_stack := Sequence (items @ [v]) # st, yb_nodes := yb_nodes b + yaml_nodes v\<rparr>"
  have "yaml_run number (events_of digits v) b = Some ?b"
    using Cons.prems(1) [of v b "Sequence (items @ [v]) # st" "yb_root b"] Cons.prems(2-4) by simp
  moreover have "yaml_run number (concat (map (events_of digits) vs)) ?b
    = Some (?b\<lparr>yb_stack := Sequence ((items @ [v]) @ vs) # st,
        yb_nodes := yb_nodes ?b + sum_list (map yaml_nodes vs)\<rparr>)"
    using Cons.prems by (intro Cons.IH) auto
  ultimately show ?case by (simp add: yaml_run_append add.assoc)
qed simp

lemma yaml_run_members:
  assumes "\<And>kv b st root. kv \<in> set kvs \<Longrightarrow> yaml_fits (yaml_max_depth - length (yb_stack b)) (snd kv) \<Longrightarrow>
      yb_nodes b + yaml_nodes (snd kv) \<le> yaml_max_nodes \<Longrightarrow>
      yaml_append (snd kv) (yb_stack b) (yb_root b) = Inr (st, root) \<Longrightarrow>
      yaml_run number (events_of digits (snd kv)) b
        = Some (b\<lparr>yb_stack := st, yb_root := root, yb_nodes := yb_nodes b + yaml_nodes (snd kv)\<rparr>)"
    and "\<forall>kv \<in> set kvs. yaml_fits (yaml_max_depth - length (yb_stack b)) (snd kv) \<and> fst kv \<noteq> ''<<''"
    and "yb_nodes b + sum_list (map (\<lambda>kv. 1 + yaml_nodes (snd kv)) kvs) \<le> yaml_max_nodes"
    and "yb_stack b = Mapping items None # st" and "sorted_wrt (<) (map fst (items @ kvs))"
  shows "yaml_run number (concat (map (\<lambda>kv. Scalar (fst kv) False 0 False # events_of digits (snd kv)) kvs)) b
    = Some (b\<lparr>yb_stack := Mapping (items @ kvs) None # st,
        yb_nodes := yb_nodes b + sum_list (map (\<lambda>kv. 1 + yaml_nodes (snd kv)) kvs)\<rparr>)"
  using assms
proof (induction kvs arbitrary: b items)
  case (Cons kv kvs)
  obtain k v where kv: "kv = (k, v)" by fastforce
  let ?k = "b\<lparr>yb_stack := Mapping items (Some k) # st, yb_nodes := yb_nodes b + 1\<rparr>"
  let ?b = "b\<lparr>yb_stack := Mapping (items @ [(k, v)]) None # st, yb_nodes := yb_nodes b + 1 + yaml_nodes v\<rparr>"
  have d: "length (yb_stack b) < yaml_max_depth"
    using Cons.prems(2) yaml_fits_pos [of "yaml_max_depth - length (yb_stack b)" v] kv by force
  have "yaml_step number (Scalar k False 0 False) (0, 0) b = Inr ?k"
    using Cons.prems(2-4) d kv yaml_step_scalar [of number k False b "Mapping items (Some k) # st" "yb_root b"]
    by (simp add: yaml_scalar_def del: yaml_step.simps)
  moreover have "\<forall>x \<in> set items. fst x < k" using Cons.prems(5) kv by (auto simp: sorted_wrt_append)
  then have "yaml_append v (yb_stack ?k) (yb_root ?k) = Inr (Mapping (items @ [(k, v)]) None # st, yb_root b)"
    by (auto simp: map_insert_last)
  then have "yaml_run number (events_of digits v) ?k = Some ?b"
    using Cons.prems(1) [of kv ?k] Cons.prems(2-4) kv by simp
  moreover have "yaml_run number (concat (map (\<lambda>kv. Scalar (fst kv) False 0 False # events_of digits (snd kv)) kvs)) ?b
    = Some (?b\<lparr>yb_stack := Mapping ((items @ [(k, v)]) @ kvs) None # st,
        yb_nodes := yb_nodes ?b + sum_list (map (\<lambda>kv. 1 + yaml_nodes (snd kv)) kvs)\<rparr>)"
    using Cons.prems kv by (intro Cons.IH) auto
  ultimately show ?case by (simp add: kv yaml_run_append add.assoc del: yaml_step.simps)
qed simp

lemma yaml_run_value:
  assumes "yaml_normal v" "reads_back number digits v"
    "yaml_fits (yaml_max_depth - length (yb_stack b)) v" "yb_nodes b + yaml_nodes v \<le> yaml_max_nodes"
    "yaml_append v (yb_stack b) (yb_root b) = Inr (st, root)"
  shows "yaml_run number (events_of digits v) b
    = Some (b\<lparr>yb_stack := st, yb_root := root, yb_nodes := yb_nodes b + yaml_nodes v\<rparr>)"
  using assms
proof (induction v arbitrary: b st root rule: yaml_normal.induct)
  case (1 vs)
  let ?b = "b\<lparr>yb_stack := Sequence [] # yb_stack b, yb_nodes := yb_nodes b + 1\<rparr>"
  have d: "length (yb_stack b) < yaml_max_depth" using 1(4) by auto
  then have "yaml_step number (SequenceStart 0 False) (0, 0) b = Inr ?b"
    using 1(5) by (simp add: yaml_start_def count_node_def)
  moreover have "yaml_run number (concat (map (events_of digits) vs)) ?b
    = Some (?b\<lparr>yb_stack := Sequence ([] @ vs) # yb_stack b, yb_nodes := yb_nodes ?b + sum_list (map yaml_nodes vs)\<rparr>)"
  proof (rule yaml_run_items)
    fix v st root and b :: yaml_builder
    assume "v \<in> set vs" "yaml_fits (yaml_max_depth - length (yb_stack b)) v"
      "yb_nodes b + yaml_nodes v \<le> yaml_max_nodes" "yaml_append v (yb_stack b) (yb_root b) = Inr (st, root)"
    then show "yaml_run number (events_of digits v) b
        = Some (b\<lparr>yb_stack := st, yb_root := root, yb_nodes := yb_nodes b + yaml_nodes v\<rparr>)"
      using 1 by (auto simp: reads_back_def)
  qed (use 1 in auto)
  ultimately show ?case
    using 1(6) by (simp add: yaml_run_append yaml_end_def append_at_def del: yaml_step.simps(4))
next
  case (2 kvs)
  let ?b = "b\<lparr>yb_stack := Mapping [] None # yb_stack b, yb_nodes := yb_nodes b + 1\<rparr>"
  have d: "length (yb_stack b) < yaml_max_depth" using 2(4) by auto
  then have "yaml_step number (MappingStart 0 False) (0, 0) b = Inr ?b"
    using 2(5) by (simp add: yaml_start_def count_node_def)
  moreover have "yaml_run number (concat (map (\<lambda>kv. Scalar (fst kv) False 0 False # events_of digits (snd kv)) kvs)) ?b
    = Some (?b\<lparr>yb_stack := Mapping ([] @ kvs) None # yb_stack b,
        yb_nodes := yb_nodes ?b + sum_list (map (\<lambda>kv. 1 + yaml_nodes (snd kv)) kvs)\<rparr>)"
  proof (rule yaml_run_members)
    fix kv st root and b :: yaml_builder
    assume "kv \<in> set kvs" "yaml_fits (yaml_max_depth - length (yb_stack b)) (snd kv)"
      "yb_nodes b + yaml_nodes (snd kv) \<le> yaml_max_nodes"
      "yaml_append (snd kv) (yb_stack b) (yb_root b) = Inr (st, root)"
    then show "yaml_run number (events_of digits (snd kv)) b
        = Some (b\<lparr>yb_stack := st, yb_root := root, yb_nodes := yb_nodes b + yaml_nodes (snd kv)\<rparr>)"
      using 2 by (auto simp: reads_back_def)
  qed (use 2 in auto)
  ultimately show ?case
    using 2(6) by (simp add: yaml_run_append yaml_end_def append_at_def del: yaml_step.simps(5))
qed (auto simp: reads_back_def yaml_scalar_def append_at_def count_node_def)

lemma events_of_no_end: "StreamEnd \<notin> set (events_of digits v)"
  by (induction v rule: events_of.induct) auto

text \<open>
  C37: Writing a workflow document and reading it back returns it.  A document is written as the event
  stream of one YAML document with quoted strings.  Then any object with ascending keys, no merge key, at
  most 24 levels and at most 8192 nodes, whose numbers are written as texts that the number reader reads as these
  numbers, is read back unchanged, whatever positions the parser reports.
\<close>

theorem yaml_roundtrip:
  assumes "reads_back (yr_number rd) digits (JObj kvs)"
    and "yaml_normal (JObj kvs)" "yaml_fits yaml_max_depth (JObj kvs)" "yaml_nodes (JObj kvs) \<le> yaml_max_nodes"
    and "src \<noteq> []" "length src \<le> workflow_document_max_bytes" "CHR 0x00 \<notin> set src"
    and "yr_parser rd (normalize_json_surrogate_pairs (yr_valid_json rd) src) = (tokens, err)"
    and "map fst tokens = [StreamStart, DocumentStart] @ events_of digits (JObj kvs) @ [DocumentEnd, StreamEnd]"
  shows "parse_workflow_yaml rd src = Inr (JObj kvs)"
proof -
  let ?b = "yaml_init\<lparr>yb_documents := 1\<rparr>"
  let ?es = "[StreamStart, DocumentStart] @ events_of digits (JObj kvs) @ [DocumentEnd]"
  have "yaml_run (yr_number rd) (events_of digits (JObj kvs)) ?b
    = Some (?b\<lparr>yb_stack := [], yb_root := Some (JObj kvs), yb_nodes := yb_nodes ?b + yaml_nodes (JObj kvs)\<rparr>)"
    using assms(3,4) by (intro yaml_run_value [OF assms(2,1)]) (auto simp: yaml_init_def)
  then have run: "yaml_run (yr_number rd) ?es yaml_init
    = Some (?b\<lparr>yb_root := Some (JObj kvs), yb_nodes := yaml_nodes (JObj kvs)\<rparr>)"
    by (simp add: yaml_run_append yaml_init_def del: events_of.simps yaml_nodes.simps)
  have "tokens \<noteq> []" using assms(9) by auto
  then obtain ts t where ts: "tokens = ts @ [t]" by (metis rev_exhaust)
  with assms(9) have es: "map fst ts = ?es" "fst t = StreamEnd" by (auto simp del: events_of.simps)
  have "StreamEnd \<notin> fst ` set ts"
    using arg_cong [OF es(1), of set] events_of_no_end [of digits "JObj kvs"] by (simp del: events_of.simps)
  then have "yaml_loop (yr_number rd) err (ts @ [(StreamEnd, snd t)]) yaml_init
    = Inr (?b\<lparr>yb_root := Some (JObj kvs), yb_nodes := yaml_nodes (JObj kvs)\<rparr>)"
    using run es(1) by (intro yaml_loop_run) (simp_all del: events_of.simps yaml_nodes.simps)
  moreover have "(StreamEnd, snd t) = t" using es(2) by (metis prod.collapse)
  ultimately show ?thesis using assms(5-8) ts
    by (simp add: parse_workflow_yaml_def yaml_finish_def yaml_init_def)
qed

text \<open>
  A concrete reader: it delivers the events of one document, and its numbers are the integers of 64 bits in decimal
  and the text 1.5.
\<close>

definition one_and_a_half :: json_number where
  "one_and_a_half = NFloat 0x3FF8000000000000"

definition demo_digits :: "json_number \<Rightarrow> string" where
  "demo_digits n = (case n of NInt i \<Rightarrow> decimal i | NFloat _ \<Rightarrow> ''1.5'')"

definition demo_number :: "string \<Rightarrow> json_number option" where
  "demo_number txt = (if txt = ''1.5'' then Some one_and_a_half
     else case parse_decimal txt of
       Some n \<Rightarrow> if - (2 ^ 63) \<le> n \<and> n < 2 ^ 64 then Some (NInt n) else None
     | None \<Rightarrow> None)"

definition demo_document :: json where
  "demo_document = JObj [(''id'', JStr ''a''), (''steps'', JArr [JInt 12, JNum one_and_a_half, JNull])]"

definition demo_source :: string where
  "demo_source = ''{ id: a, steps: [12, 1.5, null] }''"

definition demo_reader :: yaml_reader where
  "demo_reader = \<lparr>yr_parser = \<lambda>_. (map (\<lambda>e. (e, 1, 0))
      ([StreamStart, DocumentStart] @ events_of demo_digits demo_document @ [DocumentEnd, StreamEnd]), 1, 0),
    yr_valid_json = \<lambda>_. False, yr_number = demo_number\<rparr>"

lemma demo_texts: "demo_digits (NInt 12) = ''12''" "demo_digits one_and_a_half = ''1.5''"
  "demo_number ''12'' = Some (NInt 12)" "demo_number ''1.5'' = Some one_and_a_half"
  by (simp_all add: demo_digits_def demo_number_def one_and_a_half_def decimal_def decimal_nat.simps
      parse_decimal_def decimal_value_def digit_def char_of_def bit_0)

lemma demo_reads_back:
  "reads_back (yr_number demo_reader) demo_digits demo_document" "yaml_normal demo_document"
  "yaml_fits yaml_max_depth demo_document" "yaml_nodes demo_document \<le> yaml_max_nodes"
  "demo_source \<noteq> []" "length demo_source \<le> workflow_document_max_bytes" "CHR 0x00 \<notin> set demo_source"
  by (simp_all add: reads_back_def demo_texts demo_reader_def demo_document_def demo_source_def yaml_max_depth_def
    yaml_max_nodes_def workflow_document_max_bytes_def less_list_code)

theorem yaml_roundtrip_witness:
  "parse_workflow_yaml demo_reader demo_source = Inr demo_document"
  using yaml_roundtrip [of demo_reader demo_digits, OF demo_reads_back [unfolded demo_document_def]]
  by (simp add: demo_reader_def demo_document_def)

theorem yaml_documents_are_bounded_witness:
  "\<exists>v. parse_workflow_yaml demo_reader demo_source = Inr v \<and> yaml_normal v \<and> yaml_nodes v \<le> yaml_max_nodes"
proof -
  have "parse_workflow_yaml demo_reader demo_source = Inr demo_document"
    by (simp add: parse_workflow_yaml_def demo_reader_def demo_document_def demo_source_def
      workflow_document_max_bytes_def normalize_json_surrogate_pairs_def yaml_init_def yaml_start_def yaml_end_def
      count_node_def append_at_def yaml_scalar_def yaml_finish_def yaml_max_nodes_def yaml_max_depth_def
      less_list_code demo_texts)
  then show ?thesis using yaml_documents_are_bounded by blast
qed

end
