(* ===== verification/Worker_Requests.thy ===== *)
theory Worker_Requests
  imports Message_Store Workflow_Yaml
begin

text \<open>
  The requests of the terminal host that fail a dispatch, with the reads that precede the failure: a worker
  reporting its outcome (\<open>orchestration_worker_requests.rs\<close>, \<open>orchestration_completion.rs\<close>), the coordinator
  reading an escalation (\<open>coordinator_tick.rs\<close>) and a terminal that closed
  (\<open>orchestration_agent_spawn_requests.rs\<close>).  The store call that fails a dispatch does not look at its status;
  these handlers do, by looking the dispatch up as an active one.  A request runs inside the server actor, so no
  other request comes between its store calls; it reads one clock.  Logs, broadcasts, push notifications and the
  processes of the terminals are outside the store and are left out.
\<close>

section \<open>Requests and errors\<close>

text \<open>\<open>HostError::format\<close> for a malformed request, \<open>HostError::state\<close> for a refusal.\<close>

datatype host_error = HostFormat string | HostState store_error

type_synonym 'a host = "(db, host_error, 'a) txn"

definition state_error :: "'a store \<Rightarrow> 'a host" where
  "state_error m s = map_prod (map_sum HostState id) id (m s)"

text \<open>A call whose error the caller inspects instead of returning it.\<close>

definition tryT :: "('s, 'e, 'a) txn \<Rightarrow> ('s, 'f, 'e + 'a) txn" where
  "tryT m s = (case m s of (r, s') \<Rightarrow> (Inr r, s'))"

lemma caught_store: "snd (tryT m s) = snd (m s)" "snd (state_error n s) = snd (n s)"
  by (simp_all add: tryT_def state_error_def split: prod.split)

lemma preserves_caught: "preserves P m \<Longrightarrow> preserves P (tryT m)" "preserves P n \<Longrightarrow> preserves P (state_error n)"
  by (simp_all add: preserves_def caught_store)

lemma preserves_cases:
  "preserves P m \<Longrightarrow> (\<And>x. preserves P (f x)) \<Longrightarrow> preserves P (case x of None \<Rightarrow> m | Some x \<Rightarrow> f x)"
  "(\<And>e. preserves P (h e)) \<Longrightarrow> (\<And>y. preserves P (g y)) \<Longrightarrow> preserves P (case r of Inl e \<Rightarrow> h e | Inr y \<Rightarrow> g y)"
  by (simp_all split: option.split sum.split)

lemma keeps_at_caught: "keeps_at P s m \<Longrightarrow> keeps_at P s (tryT m)" "keeps_at P s n \<Longrightarrow> keeps_at P s (state_error n)"
  by (simp_all add: keeps_at_def caught_store)

lemma keeps_at_bind:
  assumes "keeps_at P s m" "\<And>x s'. m s = (Inr x, s') \<Longrightarrow> P s' \<Longrightarrow> keeps_at P s' (f x)"
  shows "keeps_at P s (bindT m f)"
  using assms by (auto simp: keeps_at_def bindT_def split: prod.splits sum.splits)

text \<open>
  What the requests take from libraries: the SHA-256 of a context token, the JSON reader and printer, and the
  compiled validator of a JSON schema, with the texts of their errors.
\<close>

record host_library =
  hl_hash :: "string \<Rightarrow> string"
  hl_parse :: "string \<Rightarrow> string + json"
  hl_print :: "json \<Rightarrow> string"
  hl_validator :: "json \<Rightarrow> string + (json \<Rightarrow> string + unit)"

definition optional_string :: "json \<Rightarrow> string \<Rightarrow> string option" where
  "optional_string payload key = (case Option.bind (json_get key payload) as_str of
     None \<Rightarrow> None | Some v \<Rightarrow> if trim v = [] then None else Some (trim v))"

definition workflow_launch_for_terminal :: "string \<Rightarrow> db \<Rightarrow> launch option" where
  "workflow_launch_for_terminal terminal s = List.find (\<lambda>l. l_terminal_handle l = terminal) (db_launches s)"

definition is_workflow_terminal :: "string \<Rightarrow> db \<Rightarrow> bool" where
  "is_workflow_terminal terminal s \<longleftrightarrow> workflow_launch_for_terminal terminal s \<noteq> None"

section \<open>Worker requests\<close>

definition record_dispatch_activity :: "env \<Rightarrow> dispatch \<Rightarrow> (db, 'e, activity_outcome) txn" where
  "record_dispatch_activity env dispatch =
    bindT (tryT (record_orchestration_activity env (d_id dispatch))) (\<lambda>recorded.
      case recorded of
        Inl _ \<Rightarrow> okT Ignored
      | Inr outcome \<Rightarrow>
          thenT (whenT (outcome = Revived)
             (thenT (tryT (resolve_stall_gate_as_resumed env (d_task_id dispatch))) (okT ())))
            (okT outcome))"

text \<open>
  The context token a worker has to show for a dispatch that was created with one; then the dispatch is accepted,
  or its lease renewed.
\<close>

definition check_context_token :: "string option \<Rightarrow> dispatch \<Rightarrow> unit host" where
  "check_context_token token_hash dispatch = (case d_context_token_hash dispatch of
     None \<Rightarrow> okT ()
   | Some expected_hash \<Rightarrow> (case token_hash of
       None \<Rightarrow> failT (HostState (Bail ''dispatch context token is required''))
     | Some provided \<Rightarrow> guardT (provided = expected_hash)
         (HostState (Bail ''dispatch context token is invalid or stale''))))"

definition touched :: "env \<Rightarrow> string \<Rightarrow> string \<Rightarrow> dispatch \<Rightarrow> dispatch host" where
  "touched env terminal token_hash dispatch =
    (if d_status dispatch = DAwaitingAcceptance then
       state_error (accept_orchestration_dispatch env (d_id dispatch) terminal token_hash)
     else thenT (record_dispatch_activity env dispatch)
       (getsT (\<lambda>s. case orchestration_dispatch_by_id (d_id dispatch) s of None \<Rightarrow> dispatch | Some d \<Rightarrow> d)))"

definition touch_worker_dispatch :: "host_library \<Rightarrow> env \<Rightarrow> json \<Rightarrow> dispatch host" where
  "touch_worker_dispatch lib env payload =
    bindT (liftT (of_option (HostFormat ''terminal is required; run inside an Alera terminal.'')
       (optional_string payload ''terminal''))) (\<lambda>terminal.
    bindT (getsT (active_orchestration_dispatch_for_handle terminal)) (\<lambda>found.
    bindT (liftT (of_option (HostState (Bail (''no active dispatch for terminal '' @ terminal))) found)) (\<lambda>dispatch.
    let token_hash = map_option (hl_hash lib) (optional_string payload ''contextToken'') in
    thenT (check_context_token token_hash dispatch)
      (touched env terminal (case token_hash of None \<Rightarrow> [] | Some h \<Rightarrow> h) dispatch))))"

text \<open>The result a worker reports: a summary, a kind, and three lists of evidence.\<close>

primrec array_fields :: "string list \<Rightarrow> (string \<times> json) list \<Rightarrow> host_error + (string \<times> json) list" where
  "array_fields [] result = Inr result"
| "array_fields (field # rest) result = (case map_of result field of
     None \<Rightarrow> array_fields rest (map_insert field (JArr []) result)
   | Some JNull \<Rightarrow> array_fields rest (map_insert field (JArr []) result)
   | Some (JArr _) \<Rightarrow> array_fields rest result
   | Some _ \<Rightarrow> Inl (HostFormat (''result.'' @ field @ '' must be an array.'')))"

definition completion_kind :: "(string \<times> json) list \<Rightarrow> host_error + (string \<times> json) list" where
  "completion_kind result = (case map_of result ''completionKind'' of
     None \<Rightarrow> Inr (map_insert ''completionKind'' (JStr ''success'') result)
   | Some JNull \<Rightarrow> Inr (map_insert ''completionKind'' (JStr ''success'') result)
   | Some v \<Rightarrow> if v \<in> {JStr ''success'', JStr ''failure''} then Inr result
       else Inl (HostFormat ''result.completionKind must be success or failure.''))"

definition normalized_completion_result :: "json \<Rightarrow> host_error + (string \<times> json) list" where
  "normalized_completion_result payload = (case json_get ''result'' payload of
     Some (JObj result) \<Rightarrow>
       bindE (of_option (HostFormat ''result.summary is required.'') (optional_string (JObj result) ''summary''))
         (\<lambda>summary. bindE (completion_kind (map_insert ''summary'' (JStr summary) result))
           (array_fields [''artifacts'', ''filesModified'', ''validation'']))
   | _ \<Rightarrow> Inl (HostFormat ''result must be an object.''))"

definition validate_result_schema :: "host_library \<Rightarrow> json \<Rightarrow> string option \<Rightarrow> host_error + unit" where
  "validate_result_schema lib result schema_raw = (case schema_raw of
     None \<Rightarrow> Inr ()
   | Some raw \<Rightarrow> (case hl_parse lib raw of
       Inl e \<Rightarrow> Inl (HostState (Bail (''stored result schema is invalid: '' @ e)))
     | Inr schema \<Rightarrow> (case hl_validator lib schema of
         Inl e \<Rightarrow> Inl (HostState (Bail (''stored result schema is invalid: '' @ e)))
       | Inr validate \<Rightarrow> (case validate result of
           Inl e \<Rightarrow> Inl (HostFormat (''result does not match schema: '' @ e))
         | Inr _ \<Rightarrow> Inr ()))))"

section \<open>Outcomes of a worker\<close>

datatype completion_preparation = Legacy | KnownSha string | Verify string

definition workflow_completion_preparation :: "dispatch \<Rightarrow> completion_preparation host" where
  "workflow_completion_preparation dispatch =
    (case d_completion_sha dispatch of
       Some sha \<Rightarrow> okT (KnownSha sha)
     | None \<Rightarrow> bindT (getsT (\<lambda>s. Option.bind (d_assignee_handle dispatch)
            (\<lambda>terminal. workflow_launch_for_terminal terminal s))) (\<lambda>found. case found of
         None \<Rightarrow> okT Legacy
       | Some launch \<Rightarrow>
           thenT (guardT (l_dispatch_id launch = d_id dispatch)
              (HostState (Bail ''workflow completion dispatch identity changed'')))
          (bindT (getsT (\<lambda>s. find_row w_id (l_workspace_id launch) (db_run_workspaces s))) (\<lambda>found.
           bindT (liftT (of_option (HostState (Bail ''workflow workspace not found'')) found)) (\<lambda>workspace.
           thenT (guardT (w_dispatch_id workspace = Some (d_id dispatch))
              (HostState (Bail ''workflow completion workspace identity changed'')))
             (okT (Verify (w_id workspace))))))))"

text \<open>
  The answer to a completion: settled now, or deferred to the check of the worktree, whose end makes the store call
  of its own.  \<open>busy\<close> tells whether eight such checks are running.
\<close>

datatype completion_reply = Settled dispatch | Deferred string

definition complete_or_defer_dispatch_result ::
  "env \<Rightarrow> bool \<Rightarrow> dispatch \<Rightarrow> string \<Rightarrow> string \<Rightarrow> completion_reply host" where
  "complete_or_defer_dispatch_result env busy dispatch assignee_handle result =
    bindT (workflow_completion_preparation dispatch) (\<lambda>preparation. case preparation of
      Legacy \<Rightarrow> bindT (state_error (complete_orchestration_dispatch env (d_id dispatch) assignee_handle result))
        (\<lambda>d. okT (Settled d))
    | KnownSha sha \<Rightarrow>
        bindT (state_error (complete_workflow_orchestration_dispatch env (d_id dispatch) assignee_handle result sha))
          (\<lambda>d. okT (Settled d))
    | Verify workspace_id \<Rightarrow>
        thenT (guardT (\<not> busy) (HostState (Bail ''workflow completions are busy; retry shortly'')))
          (okT (Deferred workspace_id)))"

definition orchestration_complete :: "host_library \<Rightarrow> env \<Rightarrow> bool \<Rightarrow> json \<Rightarrow> completion_reply host" where
  "orchestration_complete lib env busy payload =
    bindT (liftT (normalized_completion_result payload)) (\<lambda>result.
    bindT (touch_worker_dispatch lib env payload) (\<lambda>dispatch.
    bindT (liftT (of_option (HostState (Bail ''active dispatch has no assignee'')) (d_assignee_handle dispatch)))
      (\<lambda>assignee_handle.
    bindT (getsT (task_by_id (d_task_id dispatch))) (\<lambda>found.
    bindT (liftT (of_option (HostState (Bail ''dispatch task no longer exists'')) found)) (\<lambda>task.
    thenT (liftT (validate_result_schema lib (JObj result) (t_result_schema task)))
   (let result_json = hl_print lib (JObj result);
        summary = (case Option.bind (map_of result ''summary'') as_str of None \<Rightarrow> [] | Some v \<Rightarrow> v)
    in if map_of result ''completionKind'' = Some (JStr ''failure'')
       then bindT (state_error (fail_orchestration_dispatch_with_result env (d_id dispatch) summary (Some result_json)))
         (\<lambda>d. okT (Settled d))
       else complete_or_defer_dispatch_result env busy dispatch assignee_handle result_json))))))"

section \<open>The inbox of the coordinator\<close>

definition payload_value :: "host_library \<Rightarrow> message \<Rightarrow> json option" where
  "payload_value lib m = Option.bind (m_payload m)
     (\<lambda>text. case hl_parse lib text of Inl _ \<Rightarrow> None | Inr v \<Rightarrow> Some v)"

definition payload_string :: "json option \<Rightarrow> string \<Rightarrow> string option" where
  "payload_string payload key = (case Option.bind (Option.bind payload (json_get key)) as_str of
     None \<Rightarrow> None | Some v \<Rightarrow> if v = [] then None else Some v)"

text \<open>The task and the dispatch a message names, in its columns or in its payload.\<close>

definition named_task :: "host_library \<Rightarrow> message \<Rightarrow> string option" where
  "named_task lib m = coalesce (m_task_id m) (payload_string (payload_value lib m) ''taskId'')"

definition named_dispatch :: "host_library \<Rightarrow> message \<Rightarrow> string option" where
  "named_dispatch lib m = coalesce (m_dispatch_id m) (payload_string (payload_value lib m) ''dispatchId'')"

definition sender_owns :: "host_library \<Rightarrow> message \<Rightarrow> dispatch \<Rightarrow> bool" where
  "sender_owns lib m dispatch \<longleftrightarrow>
    d_assignee_handle dispatch = Some (m_from_handle m) \<and> named_dispatch lib m = Some (d_id dispatch)"

text \<open>One message; the result says whether it is marked as read.\<close>

definition process_escalation :: "host_library \<Rightarrow> env \<Rightarrow> message \<Rightarrow> bool store" where
  "process_escalation lib env m =
    thenT (case named_task lib m of
        None \<Rightarrow> okT ()
      | Some task_id \<Rightarrow> bindT (getsT (active_orchestration_dispatch_for_task task_id)) (\<lambda>active. case active of
            None \<Rightarrow> okT ()
          | Some dispatch \<Rightarrow> whenT (sender_owns lib m dispatch)
              (thenT (fail_orchestration_dispatch env (d_id dispatch) (m_subject m)) (okT ()))))
      (okT True)"

definition process_decision_gate :: "host_library \<Rightarrow> env \<Rightarrow> message \<Rightarrow> bool store" where
  "process_decision_gate lib env m =
    (case named_task lib m of
       None \<Rightarrow> okT False
     | Some task_id \<Rightarrow>
         let question = (case Option.bind (Option.bind (payload_value lib m) (json_get ''question'')) as_str of
               None \<Rightarrow> m_subject m | Some q \<Rightarrow> q)
         in bindT (getsT (active_orchestration_dispatch_for_task task_id)) (\<lambda>active.
            thenT (whenT (case active of None \<Rightarrow> False | Some dispatch \<Rightarrow> sender_owns lib m dispatch)
               (thenT (tryT (create_orchestration_gate env task_id question [])) (okT ())))
              (okT True)))"

definition process_message :: "host_library \<Rightarrow> env \<Rightarrow> message \<Rightarrow> bool store" where
  "process_message lib env m =
    (if m_type m = MEscalation then process_escalation lib env m
     else if m_type m = MDecisionGate then process_decision_gate lib env m
     else okT False)"

text \<open>The loop over the messages, each at its own time; it collects the ids to mark as read.\<close>

fun process_messages :: "host_library \<Rightarrow> (nat \<Rightarrow> env) \<Rightarrow> message list \<Rightarrow> string list \<Rightarrow> string list store" where
  "process_messages lib clock [] read_ids = okT read_ids"
| "process_messages lib clock (m # ms) read_ids =
    bindT (process_message lib (clock (length ms)) m) (\<lambda>mark_read.
      process_messages lib clock ms (if mark_read then read_ids @ [m_id m] else read_ids))"

definition coordinator_process_messages ::
  "host_library \<Rightarrow> (string \<Rightarrow> string \<Rightarrow> json option) \<Rightarrow> env \<Rightarrow> (nat \<Rightarrow> env) \<Rightarrow> string option \<Rightarrow> unit store" where
  "coordinator_process_messages lib extract env clock coordinator_handle = (case coordinator_handle of
     None \<Rightarrow> okT ()
   | Some handle \<Rightarrow>
       bindT (unread_orchestration_coordinator_messages extract env handle) (\<lambda>messages.
       bindT (process_messages lib clock messages []) (mark_orchestration_messages_read env)))"

section \<open>A terminal that closed\<close>

text \<open>
  What the tab of a terminal says about the task it was opened for: \<open>tab\<close> is the payload of the tab, if there is one.
\<close>

record owned_spawn =
  os_task_id :: string
  os_pending_readiness :: bool
  os_keep_on_failure :: bool
  os_startup_failure_recorded :: bool

definition owned_spawn_metadata :: "json option \<Rightarrow> owned_spawn option" where
  "owned_spawn_metadata tab =
    Option.bind (Option.bind tab (json_get ''orchestrationSpawn'')) (\<lambda>spawn.
    if json_get ''owned'' spawn \<noteq> Some (JBool True) then None
    else map_option (\<lambda>task_id. \<lparr>os_task_id = task_id,
           os_pending_readiness = (Option.bind (Option.bind (Option.bind tab (json_get ''pendingOrchestration''))
              (json_get ''task'')) as_str = Some task_id),
           os_keep_on_failure = (json_get ''keepOnFailure'' spawn = Some (JBool True)),
           os_startup_failure_recorded = (json_get ''startupFailureRecorded'' spawn = Some (JBool True))\<rparr>)
       (Option.bind (json_get ''task'' spawn) as_str))"

definition is_owned_orchestration_spawn :: "json option \<Rightarrow> string \<Rightarrow> bool" where
  "is_owned_orchestration_spawn tab task_id \<longleftrightarrow> map_option os_task_id (owned_spawn_metadata tab) = Some task_id"

text \<open>The payload of the tab with the failure written into it; a tab without a spawn record is left as it is.\<close>

definition mark_owned_spawn_failure :: "string \<Rightarrow> json option \<Rightarrow> json option" where
  "mark_owned_spawn_failure reason tab = (case tab of
     Some (JObj payload) \<Rightarrow>
       (let kept = filter (\<lambda>kv. fst kv \<noteq> ''pendingOrchestration'') payload in
        case map_of kept ''orchestrationSpawn'' of
          Some (JObj spawn) \<Rightarrow> Some (JObj (map_insert ''orchestrationSpawn''
             (JObj (map_insert ''startupFailureReason'' (JStr reason)
                (map_insert ''startupFailureRecorded'' (JBool True) spawn))) kept))
        | _ \<Rightarrow> tab)
   | _ \<Rightarrow> tab)"

text \<open>The result is the payload of the tab afterwards; every error is only logged.\<close>

definition fail_active_dispatch_for_closed_session ::
  "env \<Rightarrow> string \<Rightarrow> string \<Rightarrow> json option \<Rightarrow> (db, 'e, json option) txn" where
  "fail_active_dispatch_for_closed_session env session_id reason tab =
    bindT (getsT (active_orchestration_dispatch_for_handle session_id)) (\<lambda>found. case found of
      None \<Rightarrow> (case owned_spawn_metadata tab of
          None \<Rightarrow> okT tab
        | Some metadata \<Rightarrow>
            if os_pending_readiness metadata then
              bindT (tryT (record_orchestration_task_startup_failure env (os_task_id metadata) reason)) (\<lambda>r.
                case r of Inl _ \<Rightarrow> okT tab | Inr _ \<Rightarrow> okT (mark_owned_spawn_failure reason tab))
            else okT tab)
    | Some dispatch \<Rightarrow> bindT (getsT (is_workflow_terminal session_id)) (\<lambda>workflow.
        if workflow then okT tab
        else if d_status dispatch = DAwaitingAcceptance \<and> is_owned_orchestration_spawn tab (d_task_id dispatch) then
          bindT (tryT (fail_orchestration_startup env (d_id dispatch) reason)) (\<lambda>r.
            case r of Inl _ \<Rightarrow> okT tab | Inr _ \<Rightarrow> okT (mark_owned_spawn_failure reason tab))
        else thenT (tryT (fail_orchestration_dispatch env (d_id dispatch) reason)) (okT tab)))"

end
