(* ===== verification/Dispatch_Invariant.thy ===== *)
theory Dispatch_Invariant
  imports Worker_Requests
begin

text \<open>
  The invariant of the dispatch lock: ids are unique, an active dispatch belongs to a task that is dispatched
  or stalled, and no task and no terminal has two active dispatches.  Every operation of the task, dispatch,
  gate, cancellation and recovery stores keeps it, with one exception: failing a dispatch keeps it only for a dispatch
  that is active, which the handlers of \<open>Worker_Requests\<close> have looked up.  So the histories of this theory run those
  handlers whole.
\<close>

section \<open>The invariant\<close>

definition dispatch_inv :: "task list \<Rightarrow> dispatch list \<Rightarrow> bool" where
  "dispatch_inv ts ds \<longleftrightarrow>
    distinct (map t_id ts) \<and> distinct (map d_id ds)
    \<and> distinct (map d_task_id (filter active_dispatch ds))
    \<and> distinct (map d_assignee_handle (filter active_dispatch ds))
    \<and> (\<forall>d \<in> set ds. active_dispatch d \<longrightarrow>
        (\<exists>t. find_row t_id (d_task_id d) ts = Some t \<and> t_status t \<in> {TDispatched, TStalled}))"

abbreviation store_inv :: "db \<Rightarrow> bool" where
  "store_inv s \<equiv> dispatch_inv (db_tasks s) (db_dispatches s)"

text \<open>A dispatch statement of the sources keeps the identity of a row and never revives one.\<close>

definition closing :: "(dispatch \<Rightarrow> bool) \<Rightarrow> (dispatch \<Rightarrow> dispatch) \<Rightarrow> bool" where
  "closing p f \<longleftrightarrow> (\<forall>d. d_id (f d) = d_id d \<and> d_task_id (f d) = d_task_id d
    \<and> d_assignee_handle (f d) = d_assignee_handle d \<and> (p d \<longrightarrow> active_dispatch (f d) \<longrightarrow> active_dispatch d))"

lemma active_shrinks:
  assumes "\<And>d. key (f d) = key d" "\<And>d. p d \<Longrightarrow> active_dispatch (f d) \<Longrightarrow> active_dispatch d"
  shows "subseq (map key (filter active_dispatch (update_rows p f ds))) (map key (filter active_dispatch ds))"
  using assms by (induction ds) auto

lemma subseq_distinct: "subseq xs ys \<Longrightarrow> distinct ys \<Longrightarrow> distinct xs"
  by (auto simp: subseq_conv_nths)

lemma subseq_set: "subseq xs ys \<Longrightarrow> x \<in> set xs \<Longrightarrow> x \<in> set ys"
  by (auto simp: subseq_conv_nths dest: in_set_nthsD)

lemma dispatch_inv_close:
  assumes "dispatch_inv ts ds" "closing p f"
  shows "dispatch_inv ts (update_rows p f ds)"
proof -
  have f: "\<And>d. d_id (f d) = d_id d" "\<And>d. d_task_id (f d) = d_task_id d"
    "\<And>d. d_assignee_handle (f d) = d_assignee_handle d" "\<And>d. p d \<Longrightarrow> active_dispatch (f d) \<Longrightarrow> active_dispatch d"
    using assms(2) by (auto simp: closing_def)
  have "\<exists>t. find_row t_id (d_task_id d) ts = Some t \<and> t_status t \<in> {TDispatched, TStalled}"
    if "d \<in> set (update_rows p f ds)" "active_dispatch d" for d
  proof -
    have "d_task_id d \<in> set (map d_task_id (filter active_dispatch ds))"
      by (rule subseq_set [OF active_shrinks [where key = d_task_id and f = f and p = p, OF f(2,4)]])
        (use that in auto)
    then obtain d' where "d' \<in> set ds" "active_dispatch d'" "d_task_id d' = d_task_id d" by auto
    with assms(1) show ?thesis unfolding dispatch_inv_def by metis
  qed
  with assms(1) show ?thesis
    using subseq_distinct [OF active_shrinks [where key = d_task_id and f = f and p = p and ds = ds, OF f(2,4)]]
      subseq_distinct [OF active_shrinks [where key = d_assignee_handle and f = f and p = p and ds = ds, OF f(3,4)]]
    by (simp add: dispatch_inv_def map_update_rows f(1))
qed

text \<open>Task statements: the tasks held by an active dispatch stay dispatched or stalled.\<close>

lemma dispatch_inv_tasks:
  assumes inv: "dispatch_inv ts ds" and keyed: "distinct (map t_id ts')"
    and held: "\<And>i t. find_row t_id i ts = Some t \<Longrightarrow> t_status t \<in> {TDispatched, TStalled} \<Longrightarrow>
      i \<in> d_task_id ` set (filter active_dispatch ds) \<Longrightarrow>
      \<exists>t'. find_row t_id i ts' = Some t' \<and> t_status t' \<in> {TDispatched, TStalled}"
  shows "dispatch_inv ts' ds"
proof -
  have "\<exists>t. find_row t_id (d_task_id d) ts' = Some t \<and> t_status t \<in> {TDispatched, TStalled}"
    if "d \<in> set ds" "active_dispatch d" for d
  proof -
    obtain t where "find_row t_id (d_task_id d) ts = Some t" "t_status t \<in> {TDispatched, TStalled}"
      using inv \<open>d \<in> set ds\<close> \<open>active_dispatch d\<close> unfolding dispatch_inv_def by meson
    with held that show ?thesis by simp
  qed
  with inv keyed show ?thesis by (simp add: dispatch_inv_def)
qed

lemma dispatch_inv_update_tasks:
  assumes "dispatch_inv ts ds" "\<And>t. t_id (f t) = t_id t"
    and "\<And>t. p t \<Longrightarrow> t_status (f t) \<in> {TDispatched, TStalled} \<or> t_status (f t) = t_status t
      \<or> t_id t \<notin> d_task_id ` set (filter active_dispatch ds)"
  shows "dispatch_inv (update_rows p f ts) ds"
proof (rule dispatch_inv_tasks [OF assms(1)])
  show "distinct (map t_id (update_rows p f ts))"
    using assms(1,2) by (simp add: dispatch_inv_def map_update_rows)
  show "\<exists>t'. find_row t_id i (update_rows p f ts) = Some t' \<and> t_status t' \<in> {TDispatched, TStalled}"
    if "find_row t_id i ts = Some t" "t_status t \<in> {TDispatched, TStalled}"
      "i \<in> d_task_id ` set (filter active_dispatch ds)" for i t
    using that assms(3) [of t] find_row_Some [OF that(1)]
    by (cases "p t") (auto simp: find_update_rows assms(2))
qed

lemma dispatch_inv_moved:
  assumes "dispatch_inv ts ds" "list_all2 moved ts ts'" "distinct (map t_id ts')"
  shows "dispatch_inv ts' ds"
proof (rule dispatch_inv_tasks [OF assms(1,3)])
  show "\<exists>t'. find_row t_id i ts' = Some t' \<and> t_status t' \<in> {TDispatched, TStalled}"
    if "find_row t_id i ts = Some t" "t_status t \<in> {TDispatched, TStalled}" for i t
    using moved_all_find [OF assms(2), of i] that by (auto simp: option_rel_Some1 dest: moved_keeps(4))
qed

lemma dispatch_inv_append_task:
  assumes "dispatch_inv ts ds" "t_id t \<notin> t_id ` set ts"
  shows "dispatch_inv (ts @ [t]) ds"
  by (rule dispatch_inv_tasks [OF assms(1)])
    (use assms in \<open>auto simp: dispatch_inv_def find_row_append\<close>)

lemma dispatch_inv_append_dispatch:
  assumes "dispatch_inv ts ds" "d_id d \<notin> d_id ` set ds"
    and "find_row t_id (d_task_id d) ts = Some t" "t_status t \<in> {TDispatched, TStalled}"
    and "d_task_id d \<notin> d_task_id ` set (filter active_dispatch ds)"
    and "d_assignee_handle d \<notin> d_assignee_handle ` set (filter active_dispatch ds)"
  shows "dispatch_inv ts (ds @ [d])"
  using assms by (auto simp: dispatch_inv_def)

text \<open>A task that is neither dispatched nor stalled holds no active dispatch.\<close>

lemma inv_not_held:
  assumes "dispatch_inv ts ds" "find_row t_id i ts = Some t" "t_status t \<notin> {TDispatched, TStalled}"
  shows "i \<notin> d_task_id ` set (filter active_dispatch ds)"
  using assms unfolding dispatch_inv_def by fastforce

text \<open>Closing all the active dispatches of a task frees it.\<close>

lemma closed_not_held:
  assumes "\<And>d. d_task_id (f d) = d_task_id d" "\<And>d. \<not> active_dispatch (f d)"
  shows "i \<notin> d_task_id ` set (filter active_dispatch (update_rows (\<lambda>d. d_task_id d = i \<and> active_dispatch d) f ds))"
proof -
  have "\<forall>d \<in> set (update_rows (\<lambda>d. d_task_id d = i \<and> active_dispatch d) f ds). d_task_id d = i \<longrightarrow> \<not> active_dispatch d"
    by (rule update_rows_all) (use assms in auto)
  then show ?thesis by auto
qed

lemma closed_by_id_not_held:
  assumes inv: "dispatch_inv ts ds" and ctx: "find_row d_id i ds = Some ctx" "active_dispatch ctx"
    and f: "\<And>d. \<not> active_dispatch (f d)"
  shows "d_task_id ctx \<notin> d_task_id ` set (filter active_dispatch (update_rows (\<lambda>d. d_id d = i) f ds))"
proof -
  have mem: "ctx \<in> set (filter active_dispatch ds)" "d_id ctx = i"
    using find_row_Some [OF ctx(1)] ctx(2) by auto
  have inj: "inj_on d_task_id (set (filter active_dispatch ds))"
    using inv by (simp add: dispatch_inv_def distinct_map)
  have "\<forall>d \<in> set (update_rows (\<lambda>d. d_id d = i) f ds). active_dispatch d \<longrightarrow> d_task_id d \<noteq> d_task_id ctx"
  proof (rule update_rows_all)
    fix d
    assume "d \<in> set ds" "d_id d \<noteq> i"
    then show "active_dispatch d \<longrightarrow> d_task_id d \<noteq> d_task_id ctx"
      using inj_onD [OF inj _ _ mem(1), of d] mem(2) by auto
  qed (simp add: f)
  then show ?thesis by auto
qed

section \<open>Operations\<close>

lemma frame_preserves:
  assumes "\<And>s r s'. m s = (r, s') \<Longrightarrow> db_tasks s' = db_tasks s \<and> db_dispatches s' = db_dispatches s"
  shows "preserves store_inv m"
  by (rule preservesI) (use assms in auto)

lemma reads_preserve:
  "preserves P (require_task i m)" "preserves P (require_dispatch i m)" "preserves P (require_gate i m)"
  "preserves P (status_for_deps ds)"
  by (simp_all add: preserves_def require_task_def require_dispatch_def require_gate_def
      status_for_deps_def txn_run of_option_def split: option.split)

lemma reads_only:
  "readonly (require_task i m)" "readonly (require_dispatch i m)" "readonly (require_gate i m)" "readonly (getsT f)"
  using require_reads by (simp_all add: readonly_def require_gate_def txn_run of_option_def split: option.split)

lemma events_preserve:
  "preserves store_inv (record_run_event env e)"
  "preserves store_inv (record_dispatch_run_event env i k m p)"
  "preserves store_inv (record_task_run_event env i k m p)"
  "preserves store_inv (insert_orchestration_audit_event env a b c d)"
  "preserves store_inv (orchestration_id env pre)"
  "preserves store_inv (obsolete_queued_messages env q)"
  "preserves store_inv (insert_gate g)" "preserves store_inv (update_gates v h)"
  by (rule frame_preserves;
      auto simp: record_event_frame obsolete_queued_messages_def statement_frames orchestration_id_run)+

lemmas op_intros = preserves_intros reads_preserve events_preserve

lemma create_task_preserves: "preserves store_inv (create_orchestration_task_with_contract env n contract)"
  unfolding create_orchestration_task_with_contract_def
proof (intro op_intros preserves_atomic)
  fix i s x s'
  assume inv: "store_inv s" and run: "bindT (status_for_deps (nt_deps n))
    (\<lambda>status. insert_task env (task_of_new env i n status contract)) s = (Inr x, s')"
  then obtain t where "insert_task env t s = (Inr (), s')"
    by (auto simp: txn_simps status_for_deps_def)
  with inv show "store_inv s'"
    by (simp add: statement_rows statement_frames dispatch_inv_append_task insert_task_ok(1))
qed

lemma closing_status:
  assumes "\<And>d. d_id (f d) = d_id d" "\<And>d. d_task_id (f d) = d_task_id d"
    "\<And>d. d_assignee_handle (f d) = d_assignee_handle d" "\<And>d. \<not> active_dispatch (f d)"
  shows "closing p f"
  using assms by (simp add: closing_def)

lemma refresh_inv:
  assumes "dispatch_inv (db_tasks s) ds" "refresh_pending_dependents_after_task_status env x s = (Inr u, s')"
  shows "dispatch_inv (db_tasks s') ds"
  using refresh_ok [OF _ assms(2)] assms(1) dispatch_inv_moved by (auto simp: dispatch_inv_def)

text \<open>Closing the dispatches of a task together with a new status for it.\<close>

lemma inv_close_and_set:
  assumes "dispatch_inv ts ds"
    and "\<And>d. d_id (g d) = d_id d" "\<And>d. d_task_id (g d) = d_task_id d"
    "\<And>d. d_assignee_handle (g d) = d_assignee_handle d" "\<And>d. \<not> active_dispatch (g d)"
    and "\<And>t. t_id (f t) = t_id t" "\<And>t. p t \<Longrightarrow> t_id t = i"
  shows "dispatch_inv (update_rows p f ts) (update_rows (\<lambda>d. d_task_id d = i \<and> active_dispatch d) g ds)"
proof (rule dispatch_inv_update_tasks)
  show "dispatch_inv ts (update_rows (\<lambda>d. d_task_id d = i \<and> active_dispatch d) g ds)"
    using assms by (intro dispatch_inv_close closing_status)
  show "t_status (f t) \<in> {TDispatched, TStalled} \<or> t_status (f t) = t_status t
      \<or> t_id t \<notin> d_task_id ` set (filter active_dispatch (update_rows (\<lambda>d. d_task_id d = i \<and> active_dispatch d) g ds))"
    if "p t" for t
    using closed_not_held [where f = g and i = i and ds = ds, OF assms(3,5)] assms(7) [OF that] by simp
qed (rule assms)

lemma update_status_preserves: "preserves store_inv (update_orchestration_task_status env i st result)"
  unfolding update_orchestration_task_status_def
  apply (intro preserves_then reads_preserve preserves_atomic)
  subgoal premises prems for s x s'
  proof (cases "st \<in> {TCompleted, TFailed}")
    case True
    with prems(2) obtain n s1 s2 s3 k where
      1: "update_tasks env (\<lambda>t. t_id t = i) (\<lambda>t. t\<lparr>t_status := st, t_result := coalesce result (t_result t),
          t_completed_at := Some (env_now env)\<rparr>) s = (Inr n, s1)" and
      2: "refresh_pending_dependents_after_task_status env i s1 = (Inr (), s2)" and
      3: "whenT (st = TFailed) (record_task_run_event env i ETaskFailed
          (case result of None \<Rightarrow> [] | Some r \<Rightarrow> r) None) s2 = (Inr (), s3)" and
      4: "update_dispatches (\<lambda>d. d_task_id d = i \<and> active_dispatch d)
          (\<lambda>d. d\<lparr>d_status := (if st = TCompleted then DCompleted else DFailed),
            d_completed_at := Some (env_now env)\<rparr>) s3 = (Inr k, s')"
      by (auto simp: txn_simps require_task_Inr guard_contract_status_update_def)
    have s3: "db_tasks s3 = db_tasks s2" "db_dispatches s3 = db_dispatches s2"
      using 3 by (auto simp: txn_simps record_event_frame split: if_splits)
    have "dispatch_inv (db_tasks s1) (db_dispatches s')"
      using prems(1) 1 2 4 s3
      by (auto simp: statement_rows statement_frames refresh_frame intro!: inv_close_and_set)
    with 2 4 s3 show ?thesis by (simp add: statement_frames refresh_inv)
  next
    case False
    show ?thesis
    proof (cases "st = TDispatched")
      case True
      with prems show ?thesis
        by (auto simp: txn_simps require_task_Inr guard_contract_status_update_def statement_rows
            statement_frames intro!: dispatch_inv_update_tasks)
    next
      case other: False
      with False prems show ?thesis
        by (auto simp: txn_simps require_task_Inr guard_contract_status_update_def statement_rows
            statement_frames intro!: inv_close_and_set)
    qed
  qed
  done

lemma transfer_preserves: "preserves store_inv (transfer_orchestration_task_coordinator env i a c m force)"
  unfolding transfer_orchestration_task_coordinator_def
  apply (intro op_intros preserves_atomic)
  subgoal premises prems for t s x s'
    using prems
    by (auto simp: txn_simps statement_rows statement_frames closing_def
        intro!: dispatch_inv_close dispatch_inv_update_tasks)
  done

lemma update_dispatches_preserves: "closing p f \<Longrightarrow> preserves store_inv (update_dispatches p f)"
proof (rule preservesI)
  fix s r s'
  assume "closing p f" "store_inv s" "update_dispatches p f s = (r, s')"
  then show "store_inv s'"
    by (cases r) (auto simp: statement_rows statement_frames dispatch_inv_close dest: update_dispatches_error)
qed

lemma update_tasks_preserves:
  assumes "\<And>t. t_id (f t) = t_id t" "\<And>t. t_status (f t) = t_status t \<or> t_status (f t) \<in> {TDispatched, TStalled}"
  shows "preserves store_inv (update_tasks env p f)"
proof (rule preservesI)
  fix s r s'
  assume inv: "store_inv s" and run: "update_tasks env p f s = (r, s')"
  show "store_inv s'"
  proof (cases r)
    case (Inl e)
    with inv run show ?thesis by (auto dest: atomic_unchanged)
  next
    case (Inr n)
    with inv run show ?thesis
      using assms by (auto simp: statement_rows statement_frames intro!: dispatch_inv_update_tasks)
  qed
qed

lemma bind_manual_preserves: "preserves store_inv (bind_manual_tasks_to_run env r w c)"
  unfolding bind_manual_tasks_to_run_def
  by (intro op_intros update_tasks_preserves update_dispatches_preserves) (simp_all add: closing_def)

lemma accept_preserves: "preserves store_inv (accept_orchestration_dispatch env i a h)"
  unfolding accept_orchestration_dispatch_def
  by (intro op_intros preserves_transaction update_dispatches_preserves) (auto simp: closing_def active_dispatch_def)

lemma update_runs_frame:
  assumes run: "update_runs ok sets p f s = (r, s')"
  shows "db_tasks s' = db_tasks s \<and> db_dispatches s' = db_dispatches s"
proof (cases r)
  case (Inl e)
  have "before_run_update ok sets v t = (x, t') \<Longrightarrow> t' = t" for v t x t'
    by (auto simp: before_run_update_def txn_run)
  then have "forT rs (\<lambda>r. before_run_update ok sets (f r)) t = (x, t') \<Longrightarrow> t' = t" for rs t x t'
    by (rule forT_readonly) blast
  with run Inl show ?thesis
    by (auto simp: update_runs_def bindT_Inl_iff thenT_def txn_simps) (auto simp: txn_run)
next
  case (Inr n)
  with run show ?thesis using update_runs_ok(2) [of ok sets p f s n s'] by simp
qed

lemma update_runs_preserves: "preserves store_inv (update_runs ok sets p f)"
  by (rule frame_preserves) (rule update_runs_frame)

lemma update_launches_preserves: "preserves store_inv (update_launches p f)"
  by (rule frame_preserves) (auto simp: update_launches_run)

lemma refusal_preserves:
  assumes "preserves P m"
  shows "preserves P (\<lambda>s. case m s of
       (Inr n, s') \<Rightarrow> (Inr (n > (0::nat)), s')
     | (Inl (TriggerAbort e), s') \<Rightarrow>
         if contains_text ''workflow dispatch'' e then (Inr False, s') else (Inl (TriggerAbort e), s')
     | (Inl e, s') \<Rightarrow> (Inl e, s'))"
proof (rule preservesI)
  fix s r s'
  assume inv: "P s"
  assume "(case m s of (Inr n, s') \<Rightarrow> (Inr (n > (0::nat)), s')
     | (Inl (TriggerAbort e), s') \<Rightarrow>
         if contains_text ''workflow dispatch'' e then (Inr False, s') else (Inl (TriggerAbort e), s')
     | (Inl e, s') \<Rightarrow> (Inl e, s')) = (r, s')"
  then have "s' = snd (m s)"
    by (auto split: prod.splits sum.splits store_error.splits if_splits)
  with assms inv show "P s'" by (simp add: preserves_def)
qed

lemma revive_preserves: "preserves store_inv (revive_stalled_dispatch env i)"
  unfolding revive_stalled_dispatch_def
  by (intro op_intros refusal_preserves update_dispatches_preserves update_tasks_preserves)
    (auto simp: closing_def active_dispatch_def)

lemma activity_preserves: "preserves store_inv (record_orchestration_activity env i)"
  unfolding record_orchestration_activity_def
  by (intro op_intros preserves_transaction revive_preserves update_runs_preserves update_dispatches_preserves)
    (simp add: closing_def)

lemma stall_context_preserves: "preserves store_inv (stall_context env ctx)"
  unfolding stall_context_def
  by (intro op_intros preserves_transaction update_dispatches_preserves update_tasks_preserves)
    (auto simp: closing_def active_dispatch_def)

lemma stall_expired_preserves: "preserves store_inv (stall_expired_orchestration_dispatches env threshold)"
  unfolding stall_expired_orchestration_dispatches_def
  by (intro op_intros stall_context_preserves)

text \<open>A new dispatch for a task that holds none, on a terminal that holds none.\<close>

lemma create_run_dispatch_inv:
  assumes inv: "store_inv s" and run: "create_run_dispatch env n s = (Inr u, s')"
    and tsk: "task_by_id (nd_task_id n) s = Some t" "t_status t \<notin> {TDispatched, TStalled}"
    and idle: "Some (assignee (nd_target n)) \<notin> d_assignee_handle ` set (filter active_dispatch (db_dispatches s))"
  shows "store_inv s'"
proof -
  let ?d = "dispatch_of_new env n" and ?f = "\<lambda>t. t\<lparr>t_status := TDispatched\<rparr>"
  let ?ts = "update_rows (\<lambda>t. t_id t = nd_task_id n) ?f (db_tasks s)"
  have d: "d_task_id ?d = nd_task_id n" "d_assignee_handle ?d = Some (assignee (nd_target n))"
    by (simp_all add: dispatch_of_new_def Let_def)
  from run obtain k s1 s2 where 1: "insert_dispatch ?d s = (Inr (), s1)"
    and 2: "update_tasks env (\<lambda>t. t_id t = nd_task_id n) ?f s1 = (Inr k, s2)"
    and 3: "db_tasks s' = db_tasks s2" "db_dispatches s' = db_dispatches s2"
    by (rule create_run_dispatch_phases)
  have rows: "db_tasks s' = ?ts" "db_dispatches s' = db_dispatches s @ [?d]"
    using 1 2 3 by (simp_all add: statement_rows statement_frames)
  have "dispatch_inv ?ts (db_dispatches s @ [?d])"
  proof (rule dispatch_inv_append_dispatch)
    show "dispatch_inv ?ts (db_dispatches s)"
      using inv by (intro dispatch_inv_update_tasks) simp_all
    show "d_id ?d \<notin> d_id ` set (db_dispatches s)" by (rule insert_dispatch_ok(1) [OF 1])
    show "find_row t_id (d_task_id ?d) ?ts = Some (?f t)"
      using tsk(1) find_row_Some [OF tsk(1)] by (simp add: d find_update_rows)
    show "d_task_id ?d \<notin> d_task_id ` set (filter active_dispatch (db_dispatches s))"
      unfolding d by (rule inv_not_held [OF inv tsk])
    show "d_assignee_handle ?d \<notin> d_assignee_handle ` set (filter active_dispatch (db_dispatches s))"
      unfolding d by (rule idle)
  qed simp
  then show ?thesis by (simp add: rows)
qed

lemma create_scoped_preserves:
  "preserves store_inv (create_scoped_orchestration_dispatch env task_id handle run w c h p)"
  unfolding create_scoped_orchestration_dispatch_def
  apply (intro preserves_bind reads_preserve preserves_atomic)
  subgoal premises prems for s x s'
  proof -
    let ?n = "\<lambda>i. \<lparr>nd_id = i, nd_task_id = task_id, nd_run_id = run, nd_workspace_id = w,
          nd_context_token_hash = h, nd_failure_count = carried_failures (db_dispatches s) task_id,
          nd_target = Terminal handle c p\<rparr>"
    obtain t i v where t: "task_by_id task_id s = Some t" "t_status t = TReady"
      and idle: "\<not> (\<exists>d \<in> set (db_dispatches s). d_assignee_handle d = Some handle \<and> active_dispatch d)"
      and v: "v = s\<lparr>db_draws := db_draws s + 1\<rparr>"
      and run: "create_run_dispatch env (?n i) v = (Inr (), s')"
      using prems(2) by (auto simp: txn_simps require_task_Inr orchestration_id_run)
    show ?thesis
      by (rule create_run_dispatch_inv [OF _ run, of t]) (use prems(1) t idle v in auto)
  qed
  done

lemma create_dispatch_preserves: "preserves store_inv (create_orchestration_dispatch env task_id handle)"
  unfolding create_orchestration_dispatch_def
  by (intro op_intros create_scoped_preserves accept_preserves)

text \<open>Ending one active dispatch by its id, with a new status for its task.\<close>

lemma inv_end_dispatch:
  assumes inv: "dispatch_inv ts ds" and ctx: "find_row d_id i ds = Some ctx" "active_dispatch ctx"
    and g: "\<And>d. d_id (g d) = d_id d" "\<And>d. d_task_id (g d) = d_task_id d"
      "\<And>d. d_assignee_handle (g d) = d_assignee_handle d" "\<And>d. \<not> active_dispatch (g d)"
    and f: "\<And>t. t_id (f t) = t_id t"
  shows "dispatch_inv (update_rows (\<lambda>t. t_id t = d_task_id ctx) f ts) (update_rows (\<lambda>d. d_id d = i) g ds)"
proof (rule dispatch_inv_update_tasks)
  show "dispatch_inv ts (update_rows (\<lambda>d. d_id d = i) g ds)"
    by (intro dispatch_inv_close inv closing_status g)
  show "t_status (f t) \<in> {TDispatched, TStalled} \<or> t_status (f t) = t_status t
      \<or> t_id t \<notin> d_task_id ` set (filter active_dispatch (update_rows (\<lambda>d. d_id d = i) g ds))"
    if "t_id t = d_task_id ctx" for t
    using closed_by_id_not_held [OF inv ctx g(4)] that by simp
qed (rule f)

lemma fail_startup_txn_inv:
  assumes inv: "store_inv s" and ctx: "dispatch_by_id (d_id ctx) s = Some ctx"
    and run: "fail_startup_txn env ctx error s = (Inr u, s')"
  shows "store_inv s'"
proof -
  from run obtain n s1 k s2 t where st: "d_status ctx = DAwaitingAcceptance" and
    rows: "update_dispatches (\<lambda>d. d_id d = d_id ctx) (startup_failed_dispatch env error) s = (Inr n, s1)"
      "update_tasks env (\<lambda>t. t_id t = d_task_id ctx) (startup_failed_task env) s1 = (Inr k, s2)"
      "db_tasks s' = db_tasks s2" "db_dispatches s' = db_dispatches s2"
    by (rule fail_startup_phases)
  have "active_dispatch ctx" using st by (simp add: active_dispatch_def)
  from inv_end_dispatch [OF inv ctx this] rows show ?thesis
    by (simp add: statement_rows statement_frames startup_failed_dispatch_def startup_failed_task_def Let_def)
qed

lemma fail_startup_preserves: "preserves store_inv (fail_orchestration_startup env i error)"
  unfolding fail_orchestration_startup_def
  apply (intro preserves_at keeps_at_read keeps_at_if reads_only; assumption?)
   apply (simp add: keeps_at_def okT_def)
  apply (rule keeps_at_committed, assumption, rule reads_only)
   prefer 2 apply (simp add: fail_startup_txn_def atomic_Inl_iff)
  subgoal premises prems for s ctx u s'
    using fail_startup_txn_inv [OF prems(1) _ prems(4)] prems(2) find_row_Some
    by (fastforce simp: require_dispatch_Inr)
  done

text \<open>A dispatch that is failed while it is active; every caller looks the dispatch up as an active one.\<close>

lemma fail_dispatch_inv:
  assumes inv: "store_inv s" and ctx: "dispatch_by_id i s = Some ctx" "active_dispatch ctx"
  shows "keeps_at store_inv s (fail_orchestration_dispatch_with_result env i error result)"
  unfolding fail_orchestration_dispatch_with_result_def
proof (rule keeps_at_committed [where P = store_inv, OF inv reads_only(2)])
  fix u s'
  assume "fail_dispatch_txn env i error result s = (Inr u, s')"
  then obtain n s1 k s2 l s3 s4 where
    1: "update_dispatches (\<lambda>d. d_id d = i) (failed_dispatch env error ctx) s = (Inr n, s1)"
      "update_tasks env (\<lambda>t. t_id t = d_task_id ctx) (failed_task env result ctx) s1 = (Inr k, s2)"
      "obsolete_queued_messages env (\<lambda>m. m_dispatch_id m = Some i) s2 = (Inr l, s3)" and
    2: "whenT (circuit_broken ctx) (refresh_pending_dependents_after_task_status env (d_task_id ctx)) s3 = (Inr (), s4)"
      "db_tasks s' = db_tasks s4" "db_dispatches s' = db_dispatches s4"
    by (rule fail_phases [OF _ ctx(1)])
  have "store_inv s3"
    using inv_end_dispatch [OF inv ctx] 1
    by (simp add: statement_rows statement_frames obsolete_queued_messages_def failed_dispatch_def failed_task_def)
  with 2 show "store_inv s'" by (auto simp: txn_simps refresh_frame refresh_inv split: if_splits)
qed (simp add: fail_dispatch_txn_def atomic_Inl_iff)

lemma attention_preserves: "preserves store_inv (clear_resolved_workflow_launch_attention env i)"
  unfolding clear_resolved_workflow_launch_attention_def by (rule update_launches_preserves)

lemma complete_txn_inv:
  assumes inv: "store_inv s" and ctx: "dispatch_by_id (d_id ctx) s = Some ctx" "active_dispatch ctx"
    and run: "complete_dispatch_txn env ctx a result sha b s = (Inr j, s')"
  shows "store_inv s'"
proof -
  from run obtain t n s1 k s2 s3 s4 where
    1: "update_dispatches (\<lambda>d. d_id d = d_id ctx) (completed_dispatch env sha) s = (Inr n, s1)"
      "update_tasks env (\<lambda>t. t_id t = d_task_id ctx) (completed_task env result) s1 = (Inr k, s2)"
      "db_tasks s3 = db_tasks s2" "db_dispatches s3 = db_dispatches s2" and
    2: "refresh_pending_dependents_after_task_status env (d_task_id ctx) s3 = (Inr (), s4)"
      "obsolete_queued_messages env (\<lambda>m. m_dispatch_id m = Some (d_id ctx)) s4 = (Inr j, s')"
    by (rule complete_phases)
  have "store_inv s3"
    using inv_end_dispatch [OF inv ctx] 1
    by (simp add: statement_rows statement_frames completed_dispatch_def completed_task_def)
  with 2 show ?thesis
    by (simp add: refresh_frame refresh_inv obsolete_queued_messages_def statement_frames)
qed

lemma complete_preserves: "preserves store_inv (complete_orchestration_dispatch_at_sha env i a result sha)"
  unfolding complete_orchestration_dispatch_at_sha_def
  apply (intro preserves_at keeps_at_read keeps_at_guard keeps_at_if reads_only; assumption?)
   apply (rule keeps_at_preserves, intro op_intros attention_preserves, assumption)
  apply (rule keeps_at_committed, assumption, rule reads_only)
   prefer 2 apply (simp add: complete_dispatch_txn_def atomic_Inl_iff)
  subgoal premises prems for s ctx b j s'
  proof -
    have "dispatch_by_id i s = Some ctx" "active_dispatch ctx"
      using prems by (auto simp: require_dispatch_Inr active_dispatch_def)
    then show ?thesis using complete_txn_inv [OF prems(1) _ _ prems(7)] find_row_Some by fastforce
  qed
  done

section \<open>Gates\<close>

lemma insert_task_gate_frame:
  assumes "insert_task_gate env k i q opts s = (Inr g, s')"
  shows "db_tasks s' = db_tasks s" "db_dispatches s' = db_dispatches s"
  using assms
  by (auto simp: insert_task_gate_def txn_simps require_task_Inr orchestration_id_run statement_frames
      record_event_frame split: option.splits)

lemma create_gate_preserves: "preserves store_inv (create_orchestration_gate env i q opts)"
  unfolding create_orchestration_gate_def
  apply (intro preserves_bind reads_preserve preserves_atomic)
  subgoal premises prems for s g s'
    using prems
    by (auto simp: txn_simps require_task_Inr statement_rows statement_frames insert_task_gate_frame
        intro!: inv_close_and_set)
  done

lemma create_stall_gate_preserves: "preserves store_inv (create_orchestration_stall_gate env i q)"
  unfolding create_orchestration_stall_gate_def
  apply (intro preserves_bind reads_preserve preserves_atomic)
  subgoal premises prems for s g s'
    using prems by (auto simp: txn_simps require_task_Inr insert_task_gate_frame split: option.splits)
  done

lemma resolve_stall_gate_preserves: "preserves store_inv (resolve_stall_gate_as_resumed env i)"
  unfolding resolve_stall_gate_as_resumed_def
  by (auto split: nat.split option.split intro!: op_intros preserves_transaction)

lemma resume_preserves: "preserves store_inv (resume_stalled_orchestration_dispatch env i)"
  unfolding resume_stalled_orchestration_dispatch_def
  by (intro op_intros preserves_transaction update_dispatches_preserves update_tasks_preserves)
    (auto simp: closing_def active_dispatch_def)

section \<open>Cancellation and recovery\<close>

lemma cancel_one_inv:
  assumes "store_inv s" "cancel_one env i reason k s = (Inr u, s')"
  shows "store_inv s'"
proof -
  let ?f = "\<lambda>t. t\<lparr>t_status := TCancelled, t_result := coalesce (t_result t)
      (Some (if k = i then reason else ''dependency cancelled: '' @ i)),
      t_cancelled_at := Some (env_now env), t_completed_at := Some (env_now env)\<rparr>"
  from assms(2) obtain n s1 s2 m s3 l s4 j where
    1: "update_tasks env (\<lambda>t. t_id t = k \<and> t_status t \<notin> {TCompleted, TFailed, TCancelled}) ?f s = (Inr n, s1)" and
    2: "db_tasks s2 = db_tasks s1" "db_dispatches s2 = db_dispatches s1" and
    3: "update_dispatches (\<lambda>d. d_task_id d = k \<and> active_dispatch d)
        (\<lambda>d. d\<lparr>d_status := DCancelled, d_completed_at := Some (env_now env)\<rparr>) s2 = (Inr m, s3)" and
    4: "update_messages env (\<lambda>m. m_task_id m = Some k \<and> m_state m = SQueued)
        (\<lambda>m. m\<lparr>m_state := SObsolete, m_obsolete_at := Some (env_now env)\<rparr>) s3 = (Inr l, s4)"
      "update_gates (\<lambda>g. g_task_id g = Some k \<and> g_status g = GPending)
        (\<lambda>g. g\<lparr>g_status := GTimeout, g_resolved_at := Some (env_now env)\<rparr>) s4 = (Inr j, s')"
    by (rule cancel_one_phases)
  have "db_tasks s' = db_tasks s3" "db_dispatches s' = db_dispatches s3"
    using 4 by (simp_all add: statement_frames)
  with 2 show ?thesis
    using assms(1) 1 3 by (auto simp: statement_rows statement_frames intro!: inv_close_and_set)
qed

lemma cancel_preserves: "preserves store_inv (cancel_orchestration_task env i reason)"
  unfolding cancel_orchestration_task_def
  apply (intro preserves_then reads_preserve preserves_atomic)
  subgoal premises prems for s u s'
  proof -
    consider "s' = s" | ks where "forT ks (cancel_one env i reason) s = (Inr (), s')"
      using prems(2) by (auto simp: txn_simps require_task_Inr split: if_splits)
    then show ?thesis
    proof cases
      case 2
      from forT_invariant [where P = "\<lambda>_. store_inv", OF 2 prems(1) cancel_one_inv] show ?thesis .
    qed (use prems(1) in simp)
  qed
  done

lemma recover_preserves: "preserves store_inv (recover_stalled_orchestration_task env i st a reason force)"
  unfolding recover_stalled_orchestration_task_def
  by (intro op_intros cancel_preserves update_status_preserves)

lemma startup_failure_preserves: "preserves store_inv (record_orchestration_task_startup_failure env i error)"
  unfolding record_orchestration_task_startup_failure_def
  apply (rule preserves_at, rule keeps_at_read, assumption, rule reads_only)
  subgoal premises prems for s held
  proof -
    have "store_inv s'" if "update_tasks env (\<lambda>t. t_id t = i \<and> t_status t = TReady \<and> \<not> held)
        (\<lambda>t. (startup_failed_task env t)\<lparr>t_result := Some error\<rparr>) s = (r, s')" for r s'
    proof (cases r)
      case (Inl e)
      with that prems(1) show ?thesis by (auto dest: atomic_unchanged)
    next
      case (Inr n)
      have "\<not> held \<Longrightarrow> i \<notin> d_task_id ` set (filter active_dispatch (db_dispatches s))"
        using prems(2) by (auto simp: getsT_def)
      with that Inr prems(1) show ?thesis
        by (auto simp: statement_rows statement_frames startup_failed_task_def Let_def intro!: dispatch_inv_update_tasks)
    qed
    then show ?thesis
      by (auto simp: keeps_at_def bindT_def thenT_def guardT_def require_task_def getsT_def liftT_def
          split: prod.split sum.split)
  qed
  done

section \<open>Requests that fail a dispatch\<close>

text \<open>A dispatch that is on record and active; accepting it and renewing its lease keep it so.\<close>

definition held :: "string \<Rightarrow> db \<Rightarrow> bool" where
  "held i s \<longleftrightarrow> (\<exists>d. dispatch_by_id i s = Some d \<and> active_dispatch d)"

lemma held_frame:
  assumes "\<And>s r s'. m s = (r, s') \<Longrightarrow> db_dispatches s' = db_dispatches s"
  shows "preserves (held i) m"
  by (rule preservesI) (use assms in \<open>auto simp: held_def\<close>)

lemma find_row_update:
  assumes "\<And>d. key (f d) = key d"
  shows "find_row key i (update_rows p f ds) = map_option (\<lambda>d. if p d then f d else d) (find_row key i ds)"
  using assms by (induction ds) auto

lemma update_dispatches_held:
  assumes "\<And>d. d_id (f d) = d_id d" "\<And>d. p d \<Longrightarrow> active_dispatch d \<Longrightarrow> active_dispatch (f d)"
  shows "preserves (held i) (update_dispatches p f)"
proof (rule preservesI)
  fix s r s'
  assume held: "held i s" and run: "update_dispatches p f s = (r, s')"
  from held obtain d where "dispatch_by_id i s = Some d" "active_dispatch d" by (auto simp: held_def)
  with held run assms show "held i s'"
    by (cases r) (auto simp: held_def statement_rows find_row_update split: if_splits dest: update_dispatches_error)
qed

lemma update_tasks_held: "preserves (held i) (update_tasks env p f)"
proof (rule held_frame)
  fix s r s'
  assume "update_tasks env p f s = (r, s')"
  then show "db_dispatches s' = db_dispatches s"
    by (cases r) (auto simp: statement_frames dest: atomic_unchanged)
qed

lemma events_held:
  "preserves (held i) (record_run_event env e)"
  "preserves (held i) (record_dispatch_run_event env k a m p)"
  "preserves (held i) (update_gates v h)"
  by (rule held_frame; auto simp: record_event_frame statement_frames)+

lemmas held_intros = preserves_intros reads_preserve events_held update_tasks_held update_dispatches_held

lemma accept_held: "preserves (held i) (accept_orchestration_dispatch env k a h)"
  unfolding accept_orchestration_dispatch_def
  by (intro held_intros preserves_transaction) (auto simp: active_dispatch_def)

lemma activity_held: "preserves (held i) (record_orchestration_activity env k)"
  unfolding record_orchestration_activity_def revive_stalled_dispatch_def
  by (intro held_intros preserves_transaction refusal_preserves held_frame [OF update_runs_frame [THEN conjunct2]])
    (auto simp: active_dispatch_def)

lemma resolve_stall_gate_held: "preserves (held i) (resolve_stall_gate_as_resumed env k)"
  unfolding resolve_stall_gate_as_resumed_def
  by (auto intro!: held_intros preserves_transaction split: option.split nat.split)

lemma record_dispatch_activity_keeps:
  "preserves (held i) (record_dispatch_activity env d)" "preserves store_inv (record_dispatch_activity env d)"
  unfolding record_dispatch_activity_def
  by (intro preserves_intros preserves_cases preserves_caught activity_held resolve_stall_gate_held
      activity_preserves resolve_stall_gate_preserves)+

lemma latest_Some: "latest p rows = Some r \<Longrightarrow> r \<in> set rows \<and> p r"
  using nth_mem [of _ "rev rows"] by (auto simp: latest_def find_Some_iff)

lemma active_held:
  assumes "store_inv s" "d \<in> set (db_dispatches s)" "active_dispatch d"
  shows "held (d_id d) s"
proof -
  have "distinct (map d_id (db_dispatches s))" using assms(1) by (simp add: dispatch_inv_def)
  with assms(2) have "dispatch_by_id (d_id d) s = Some d" by (simp add: find_row_unique)
  with assms(3) show ?thesis by (simp add: held_def)
qed

lemma read_held:
  assumes "store_inv s"
  shows "active_orchestration_dispatch_for_handle h s = Some d \<Longrightarrow> held (d_id d) s"
    and "active_orchestration_dispatch_for_task k s = Some d \<Longrightarrow> held (d_id d) s"
  using assms by (auto simp: active_orchestration_dispatch_for_handle_def active_orchestration_dispatch_for_task_def
      dest!: latest_Some intro!: active_held)

lemma fail_held:
  assumes "store_inv s" "held i s"
  shows "keeps_at store_inv s (fail_orchestration_dispatch_with_result env i error result)"
    and "keeps_at store_inv s (fail_orchestration_dispatch env i error)"
  using assms(2) fail_dispatch_inv [OF assms(1)] by (auto simp: held_def fail_orchestration_dispatch_def)

lemma check_context_token_store: "check_context_token h d s = (r, s') \<Longrightarrow> s' = s"
  by (auto simp: check_context_token_def okT_def failT_def guardT_def split: option.splits)

lemma touch_preserves: "preserves store_inv (touch_worker_dispatch lib env payload)"
  unfolding touch_worker_dispatch_def touched_def Let_def
  by (intro preserves_intros preserves_caught accept_preserves record_dispatch_activity_keeps
      frame_preserves [where m = "check_context_token h d" for h d])
    (auto dest: check_context_token_store)

lemma required_Inr: "liftT (of_option e x) s = (Inr y, s') \<longleftrightarrow> x = Some y \<and> s' = s"
  by (auto simp: liftT_def of_option_def split: option.splits)

lemma getsT_Inr: "getsT f s = (Inr y, s') \<longleftrightarrow> y = f s \<and> s' = s"
  by (auto simp: getsT_def)

lemma state_error_Inr: "state_error m s = (Inr y, s') \<longleftrightarrow> m s = (Inr y, s')"
  by (cases "m s"; cases "fst (m s)") (auto simp: state_error_def)

lemma touch_held:
  assumes "store_inv s" "touch_worker_dispatch lib env payload s = (Inr d, s')"
  shows "held (d_id d) s'"
proof -
  define token where "token = (case map_option (hl_hash lib) (optional_string payload ''contextToken'') of
      None \<Rightarrow> [] | Some h \<Rightarrow> h)"
  from assms(2) obtain terminal c s1 where
    c: "active_orchestration_dispatch_for_handle terminal s = Some c" and
    check: "check_context_token (map_option (hl_hash lib) (optional_string payload ''contextToken'')) c s = (Inr (), s1)"
    and later: "touched env terminal token c s1 = (Inr d, s')"
    unfolding touch_worker_dispatch_def Let_def token_def [symmetric]
    by (simp add: bindT_Inr_iff thenT_def required_Inr getsT_Inr) blast
  have run: "touched env terminal token c s = (Inr d, s')"
    using later check_context_token_store [OF check] by simp
  have held: "held (d_id c) s" by (rule read_held(1) [OF assms(1) c])
  show ?thesis
  proof (cases "d_status c = DAwaitingAcceptance")
    case True
    with run have acc: "accept_orchestration_dispatch env (d_id c) terminal token s = (Inr d, s')"
      by (simp add: touched_def state_error_Inr)
    have "held (d_id c) s'" by (rule preservesD [OF accept_held held acc])
    moreover have "d_id d = d_id c"
      using acc by (auto simp: accept_orchestration_dispatch_def txn_simps thenT_def require_dispatch_def
          required_Inr getsT_Inr dest: find_row_Some)
    ultimately show ?thesis by simp
  next
    case False
    with run obtain o1 where act: "(record_dispatch_activity env c :: activity_outcome host) s = (Inr o1, s')"
      and d: "d = (case orchestration_dispatch_by_id (d_id c) s' of None \<Rightarrow> c | Some d \<Rightarrow> d)"
      by (auto simp: touched_def thenT_def bindT_Inr_iff getsT_Inr)
    have "held (d_id c) s'" by (rule preservesD [OF record_dispatch_activity_keeps(1) held act])
    then obtain x where x: "dispatch_by_id (d_id c) s' = Some x" "active_dispatch x" by (auto simp: held_def)
    with d have "d = x" by (simp add: orchestration_dispatch_by_id_def)
    moreover have "d_id x = d_id c" using find_row_Some [OF x(1)] by simp
    ultimately show ?thesis using x by (simp add: held_def)
  qed
qed

lemma complete_workflow_preserves:
  "preserves store_inv (complete_workflow_orchestration_dispatch env i handle result sha)"
  unfolding complete_workflow_orchestration_dispatch_def by (intro op_intros complete_preserves)

lemma complete_or_defer_preserves: "preserves store_inv (complete_or_defer_dispatch_result env busy d a result)"
proof -
  have "preserves store_inv (workflow_completion_preparation d)"
    unfolding workflow_completion_preparation_def by (intro preserves_intros preserves_cases)
  moreover have "preserves store_inv (complete_orchestration_dispatch env i h r)" for i h r
    unfolding complete_orchestration_dispatch_def by (rule complete_preserves)
  ultimately show ?thesis
    unfolding complete_or_defer_dispatch_result_def
    by (auto intro!: preserves_intros preserves_caught complete_workflow_preserves split: completion_preparation.split)
qed

lemma readonly_basic: "readonly (liftT r)" "readonly (getsT f)"
  by (simp_all add: readonly_def liftT_def getsT_def)

text \<open>A failure of a dispatch that is held, in the two ways the handlers go on afterwards.\<close>

lemma fail_then_keeps:
  assumes "store_inv s" "held i s"
  shows "(\<And>x. preserves store_inv (f x)) \<Longrightarrow>
      keeps_at store_inv s (bindT (state_error (fail_orchestration_dispatch_with_result env i e r)) f)"
    and "(\<And>x. preserves store_inv (g x)) \<Longrightarrow> keeps_at store_inv s (bindT (fail_orchestration_dispatch env i e) g)"
    and "(\<And>x. preserves store_inv (h x)) \<Longrightarrow> keeps_at store_inv s (bindT (tryT (fail_orchestration_dispatch env i e)) h)"
  by (rule keeps_at_bind; use assms in \<open>blast intro: keeps_at_caught fail_held keeps_at_preserves\<close>)+

lemma orchestration_complete_preserves: "preserves store_inv (orchestration_complete lib env busy payload)"
  unfolding orchestration_complete_def Let_def thenT_def
  apply (rule preserves_at, rule keeps_at_read, assumption, rule readonly_basic, rule keeps_at_bind,
      rule keeps_at_preserves [OF touch_preserves], assumption)
  subgoal premises prems for s result d s'
    by (intro keeps_at_read [where P = store_inv, OF prems(4)] readonly_basic keeps_at_if preserves_basic
        fail_then_keeps(1) [OF prems(4) touch_held [OF prems(1,3)]]
        keeps_at_preserves [OF complete_or_defer_preserves prems(4)])
  done

lemma escalation_preserves: "preserves store_inv (process_escalation lib env m)"
proof -
  have fail: "preserves store_inv (bindT (getsT (active_orchestration_dispatch_for_task k)) (\<lambda>active. case active of
      None \<Rightarrow> okT () | Some d \<Rightarrow> whenT (b d) (thenT (fail_orchestration_dispatch env (d_id d) e) (okT ()))))" for k b e
  proof (rule preserves_at, rule keeps_at_read, assumption, rule readonly_basic)
    fix s active
    assume inv: "store_inv s" and "getsT (active_orchestration_dispatch_for_task k) s = (Inr active, s)"
    then have "held (d_id d) s" if "active = Some d" for d
      using that read_held(2) by (auto simp: getsT_Inr)
    with inv show "keeps_at store_inv s (case active of
        None \<Rightarrow> okT () | Some d \<Rightarrow> whenT (b d) (thenT (fail_orchestration_dispatch env (d_id d) e) (okT ())))"
      by (cases active)
        (simp_all add: whenT_def thenT_def fail_then_keeps(2) keeps_at_preserves preserves_basic)
  qed
  show ?thesis
    unfolding process_escalation_def
    by (rule preserves_then) (use fail in \<open>simp_all add: preserves_basic split: option.split\<close>)
qed

lemma messages_preserve:
  "preserves store_inv (expire_orchestration_messages env)"
  "preserves store_inv (unread_orchestration_coordinator_messages extract env handle)"
  "preserves store_inv (mark_orchestration_messages_read env ids)"
proof -
  have up: "preserves store_inv (update_messages env p f)" for p f
    by (rule frame_preserves) (auto simp: statement_frames)
  show "preserves store_inv (expire_orchestration_messages env)"
    unfolding expire_orchestration_messages_def by (intro preserves_intros up)
  then show "preserves store_inv (unread_orchestration_coordinator_messages extract env handle)"
    unfolding unread_orchestration_coordinator_messages_def by (intro preserves_intros)
  show "preserves store_inv (mark_orchestration_messages_read env ids)"
    unfolding mark_orchestration_messages_read_def by (intro preserves_intros up)
qed

lemma process_message_preserves: "preserves store_inv (process_message lib env m)"
  unfolding process_message_def process_decision_gate_def Let_def
  by (intro preserves_intros preserves_cases preserves_caught escalation_preserves create_gate_preserves)

lemma process_messages_preserves: "preserves store_inv (process_messages lib clock ms ids)"
  by (induction ms arbitrary: ids) (auto intro!: preserves_intros process_message_preserves)

lemma coordinator_messages_preserve:
  "preserves store_inv (coordinator_process_messages lib extract env clock handle)"
  unfolding coordinator_process_messages_def
  by (intro preserves_intros preserves_cases messages_preserve process_messages_preserves)

lemma closed_session_preserves:
  "preserves store_inv (fail_active_dispatch_for_closed_session env session reason tab)"
  unfolding fail_active_dispatch_for_closed_session_def thenT_def
  apply (rule preserves_at, rule keeps_at_read, assumption, rule readonly_basic)
  subgoal premises prems for s found
  proof (cases found)
    case None
    then show ?thesis
      by (auto intro!: keeps_at_preserves [where P = store_inv, OF _ prems(1)] preserves_intros preserves_caught startup_failure_preserves
          split: option.split sum.split)
  next
    case (Some d)
    with prems(2) have held: "held (d_id d) s" by (auto simp: getsT_Inr intro: read_held(1) [OF prems(1)])
    have startup: "preserves store_inv (bindT (tryT (fail_orchestration_startup env (d_id d) reason))
        (\<lambda>r. case r of Inl _ \<Rightarrow> okT tab | Inr _ \<Rightarrow> okT (mark_owned_spawn_failure reason tab)))"
      by (intro preserves_intros preserves_cases preserves_caught fail_startup_preserves)
    show ?thesis
      unfolding Some option.case
      by (intro keeps_at_read [where P = store_inv, OF prems(1)] readonly_basic keeps_at_if preserves_basic
          keeps_at_preserves [OF startup prems(1)] fail_then_keeps(3) [OF prems(1) held]
          keeps_at_preserves [where P = store_inv, OF preserves_basic(1) prems(1)])
  qed
  done

section \<open>Histories\<close>

text \<open>
  What the server does to the two tables, one step at a time, successful or not.  \<open>call\<close>: a call of the task,
  dispatch, gate, cancellation and recovery stores, with any arguments, except the two that only run inside a larger
  handler.  \<open>completion\<close>, \<open>inbox\<close> and \<open>closed\<close>: the handlers that fail a dispatch, whole.  \<open>launch\<close>: the dispatch of a
  workflow attempt in the transaction of \<open>reserve_workflow_launch\<close> (\<open>run_launch_store.rs\<close>), which has found the task
  pending or ready, has drawn the handle of the terminal as a fresh UUID and has written the launch and the attempt to
  their own tables.  \<open>elsewhere\<close>: the writers that touch neither table (messages, runs, launches, journals).
\<close>

fun direct_call :: "store_call \<Rightarrow> bool" where
  "direct_call (FailDispatch _ _ _) = False"
| "direct_call (DispatchAttempt _) = False"
| "direct_call _ = True"

inductive store_step :: "db \<Rightarrow> db \<Rightarrow> bool" where
  call: "direct_call c \<Longrightarrow> store_step s (snd (run_call env c s))"
| completion: "store_step s (snd (orchestration_complete lib env busy payload s))"
| inbox: "store_step s (snd (coordinator_process_messages lib extract env clock handle s))"
| closed: "store_step s (snd ((fail_active_dispatch_for_closed_session env session reason tab :: json option store) s))"
| launch: "task_by_id (nd_task_id n) s = Some t \<Longrightarrow> t_status t \<in> {TPending, TReady} \<Longrightarrow>
    Some (assignee (nd_target n)) \<notin> d_assignee_handle ` set (db_dispatches s) \<Longrightarrow>
    db_tasks s' = db_tasks s \<Longrightarrow> db_dispatches s' = db_dispatches s \<Longrightarrow>
    store_step s (snd (run_call env (DispatchAttempt n) s'))"
| elsewhere: "db_tasks s' = db_tasks s \<Longrightarrow> db_dispatches s' = db_dispatches s \<Longrightarrow> store_step s s'"

inductive_cases store_stepE: "store_step s s'"

lemma attempt_inv:
  assumes "store_inv s" "task_by_id (nd_task_id n) s = Some t" "t_status t \<in> {TPending, TReady}"
    "Some (assignee (nd_target n)) \<notin> d_assignee_handle ` set (db_dispatches s)"
  shows "store_inv (snd (run_call env (DispatchAttempt n) s))"
proof -
  have "store_inv s'" if "create_run_dispatch env n s = (Inr u, s')" for u s'
    by (rule create_run_dispatch_inv [OF assms(1) that assms(2)]) (use assms(3,4) in auto)
  then show ?thesis
    using assms(1) by (auto simp: atomic_def split: prod.split sum.split)
qed

lemmas operations_preserve = create_task_preserves update_status_preserves transfer_preserves
  bind_manual_preserves create_dispatch_preserves create_scoped_preserves accept_preserves activity_preserves
  fail_startup_preserves stall_expired_preserves complete_workflow_preserves
  complete_preserves [of _ _ _ _ None, folded complete_orchestration_dispatch_def]
  create_gate_preserves create_stall_gate_preserves
  resolve_stall_gate_preserves resume_preserves cancel_preserves recover_preserves startup_failure_preserves

lemma call_preserves: "direct_call c \<Longrightarrow> preserves store_inv (run_call env c)"
  by (cases c) (simp_all add: preserves_then preserves_basic operations_preserve)

lemmas step_preserves = call_preserves orchestration_complete_preserves coordinator_messages_preserve
  closed_session_preserves

lemma store_step_inv: "store_step s s' \<Longrightarrow> store_inv s \<Longrightarrow> store_inv s'"
proof (induction rule: store_step.induct)
  case (launch n s t s' env)
  then show ?case by (intro attempt_inv [of s' n t]) simp_all
qed (simp_all add: step_preserves [unfolded preserves_def])

lemma history_inv: "store_step\<^sup>*\<^sup>* s s' \<Longrightarrow> store_inv s \<Longrightarrow> store_inv s'"
  by (induction rule: rtranclp_induct) (auto dest: store_step_inv)

lemma store_inv_empty: "store_inv empty_db"
  by (simp add: dispatch_inv_def empty_db_def)

lemma distinct_key: "distinct (map f xs) \<Longrightarrow> x \<in> set xs \<Longrightarrow> y \<in> set xs \<Longrightarrow> f x = f y \<Longrightarrow> x = y"
  by (auto simp: distinct_map inj_on_def)

text \<open>
  The status check of the handlers is needed: the store call behind them fails a dispatch that has ended as well and
  makes its task ready again, although another dispatch of the task runs.
\<close>

lemma late_failure_breaks_the_lock:
  "map d_task_id (filter active_dispatch (db_dispatches (run_calls (demo_calls @ map (Pair demo_env)
     [CreateDispatch ''task_1'' ''term_1'', FailDispatch ''ctx_001'' ''lost'' None,
      CreateDispatch ''task_1'' ''term_2'', FailDispatch ''ctx_001'' ''lost'' None,
      CreateDispatch ''task_1'' ''term_3'']) empty_db))) = [''task_1'', ''task_1'']"
  by code_simp

text \<open>
  C10: The dispatch lock.  After any sequence of the steps above, in any order, successful or failed (the calls of
  the task, dispatch, gate, cancellation and recovery stores with any arguments; the requests and the inbox that fail
  a dispatch after reading it as active; launches to fresh terminals), two active dispatches never share a task and
  never share a terminal, and the task of an active dispatch exists and is dispatched or stalled.
\<close>

theorem dispatch_lock:
  assumes "store_step\<^sup>*\<^sup>* empty_db s" "d \<in> set (db_dispatches s)" "active_dispatch d"
  shows "(\<forall>d' \<in> set (db_dispatches s). active_dispatch d' \<and>
        (d_task_id d' = d_task_id d \<or> d_assignee_handle d' = d_assignee_handle d) \<longrightarrow> d' = d)
    \<and> (\<exists>t. task_by_id (d_task_id d) s = Some t \<and> t_status t \<in> {TDispatched, TStalled})"
proof -
  let ?ds = "filter active_dispatch (db_dispatches s)"
  have "store_inv s" by (rule history_inv [OF assms(1) store_inv_empty])
  then have inv: "distinct (map d_task_id ?ds)" "distinct (map d_assignee_handle ?ds)"
    and held: "\<exists>t. task_by_id (d_task_id d) s = Some t \<and> t_status t \<in> {TDispatched, TStalled}"
    using assms(2,3) unfolding dispatch_inv_def by blast+
  have "d \<in> set ?ds" using assms(2,3) by simp
  with held show ?thesis
    using distinct_key [OF inv(1), of _ d] distinct_key [OF inv(2), of _ d] by auto
qed

text \<open>A task is dispatched to a terminal that closes, and then to another one.\<close>

definition demo_closed :: db where
  "demo_closed = snd ((fail_active_dispatch_for_closed_session demo_env ''term_1'' ''exited'' None :: json option store)
     (run_calls (demo_calls @ [(demo_env, CreateDispatch ''task_1'' ''term_1'')]) empty_db))"

definition demo_dispatched :: db where
  "demo_dispatched = run_calls [(demo_env, CreateDispatch ''task_1'' ''term_2'')] demo_closed"

lemma history_step:
  assumes "store_step\<^sup>*\<^sup>* s0 (run_calls cs s)" "direct_call c"
  shows "store_step\<^sup>*\<^sup>* s0 (run_calls (cs @ [(env, c)]) s)"
  using rtranclp.rtrancl_into_rtrancl [OF assms(1) call [OF assms(2)]] by (simp add: run_calls_def)

lemma demo_dispatched_reachable: "store_step\<^sup>*\<^sup>* empty_db demo_dispatched"
proof -
  have "store_step\<^sup>*\<^sup>* empty_db (run_calls (demo_calls @ [(demo_env, CreateDispatch ''task_1'' ''term_1'')]) empty_db)"
    unfolding demo_calls_def
    by (intro history_step history_step [where cs = "[]", simplified]) (simp_all add: run_calls_def)
  then have "store_step\<^sup>*\<^sup>* empty_db demo_closed"
    unfolding demo_closed_def by (rule rtranclp.rtrancl_into_rtrancl) (rule closed)
  then show ?thesis
    unfolding demo_dispatched_def
    by (intro history_step [where cs = "[]", simplified append_Nil]) (simp_all add: run_calls_def)
qed

theorem dispatch_lock_witness:
  "store_step\<^sup>*\<^sup>* empty_db demo_dispatched \<and> map d_status (db_dispatches demo_dispatched) = [DFailed, DDispatched]
    \<and> map_option t_status (task_by_id (d_task_id (last (db_dispatches demo_dispatched))) demo_dispatched)
        \<in> {Some TDispatched, Some TStalled}"
proof -
  have status: "map d_status (db_dispatches demo_dispatched) = [DFailed, DDispatched]" by code_simp
  then obtain c d where d: "db_dispatches demo_dispatched = [c, d]" and "d_status d = DDispatched" by auto
  then have "active_dispatch d" by (simp add: active_dispatch_def)
  with dispatch_lock [OF demo_dispatched_reachable, of d] d demo_dispatched_reachable status show ?thesis
    by auto
qed

end
