(* ===== verification/Dispatch_Laws.thy ===== *)
theory Dispatch_Laws
  imports Task_Settlement
begin

text \<open>
  What the operations on a dispatch do to its task: the circuit breaker that counts failures over the
  dispatches of a task, the acceptance that only the assignee with the token can give, the completion that
  can be repeated, startup failures and the lease.
\<close>

section \<open>Statements over many rows\<close>

text \<open>Updating the rows of one key after the other is updating the rows of all of them at once.\<close>

lemma update_rows_accumulate:
  assumes "\<And>r. key (f r) = key r" "\<And>r. \<not> q (f r)"
  shows "update_rows (\<lambda>r. key r = y \<and> q r) f (update_rows (\<lambda>r. key r \<in> set ys \<and> q r) f rows)
    = update_rows (\<lambda>r. key r \<in> set (ys @ [y]) \<and> q r) f rows"
  using assms by (induction rows) auto

lemma update_rows_cong: "(\<And>r. p r = p' r) \<Longrightarrow> (\<And>r. p' r \<Longrightarrow> f r = g r) \<Longrightarrow> update_rows p f rows = update_rows p' g rows"
  by (induction rows) auto

lemma filter_update_commute:
  assumes "\<And>r. q (f r) = q r"
  shows "filter q (update_rows p f rows) = update_rows p f (filter q rows)"
  using assms by (induction rows) auto

lemma update_rows_accumulate_same:
  assumes "\<And>r. key (f r) = key r" "\<And>r. f (f r) = f r"
  shows "update_rows (\<lambda>r. key r = y) f (update_rows (\<lambda>r. key r \<in> set ys) f rows)
    = update_rows (\<lambda>r. key r \<in> set (ys @ [y])) f rows"
  using assms by (induction rows) auto

section \<open>The circuit breaker\<close>

lemma update_task_lookup:
  assumes "update_tasks env (\<lambda>t. t_id t = i) f s = (Inr n, s')" "\<And>t. t_id (f t) = t_id t"
  shows "task_by_id i s' = map_option f (task_by_id i s)"
  using tasks_table.lookup_update [OF assms, of i] find_row_Some [of t_id i "db_tasks s"]
  by (cases "task_by_id i s") auto

lemma carried_failures_append:
  assumes "d_task_id d = i" "carried_failures ds i \<le> d_failure_count d"
  shows "carried_failures (ds @ [d]) i = d_failure_count d"
  using assms by (auto simp: carried_failures_def split: list.splits)

text \<open>A task that no longer waits is untouched by the refresh of the waiting ones.\<close>

lemma refresh_keeps_settled:
  assumes "distinct (map t_id (db_tasks s))" "refresh_pending_dependents_after_task_status env x s = (Inr u, s')"
    and "\<And>t. task_by_id i s = Some t \<Longrightarrow> t_status t \<noteq> TPending"
  shows "task_by_id i s' = task_by_id i s"
  using moved_all_find [OF refresh_ok(2) [OF assms(1,2)], of i] assms(3)
  by (cases "task_by_id i s") (auto simp: option_rel_Some1 dest: moved_keeps(4))

lemma create_scoped_ok:
  assumes "create_scoped_orchestration_dispatch env task_id h run w c ht p s = (Inr d, s')"
  shows "d_task_id d = task_id" "d_failure_count d = carried_failures (db_dispatches s) task_id"
    "d_assignee_handle d = Some h" "d_status d = DAwaitingAcceptance" "d_context_token_hash d = ht"
    "db_dispatches s' = db_dispatches s @ [d]" "d_id d \<notin> d_id ` set (db_dispatches s)"
    "db_tasks s' = update_rows (\<lambda>t. t_id t = task_id) (\<lambda>t. t\<lparr>t_status := TDispatched\<rparr>) (db_tasks s)"
    "\<exists>t. task_by_id task_id s = Some t \<and> t_status t = TReady"
proof -
  let ?v = "s\<lparr>db_draws := db_draws s + 1\<rparr>"
  from assms obtain t i where t: "task_by_id task_id s = Some t" "t_status t = TReady"
    and run: "create_run_dispatch env (scoped_dispatch i task_id h run w c ht p
        (carried_failures (db_dispatches s) task_id)) ?v = (Inr (), s')"
    and d: "dispatch_by_id i s' = Some d"
    by (rule create_scoped_phases)
  define new where "new = dispatch_of_new env (scoped_dispatch i task_id h run w c ht p
        (carried_failures (db_dispatches s) task_id))"
  have new: "d_id new = i" "d_task_id new = task_id" "d_failure_count new = carried_failures (db_dispatches s) task_id"
    "d_assignee_handle new = Some h" "d_status new = DAwaitingAcceptance" "d_context_token_hash new = ht"
    by (simp_all add: new_def dispatch_of_new_def scoped_dispatch_def)
  from run obtain k s1 s2 where 1: "insert_dispatch new ?v = (Inr (), s1)"
    and 2: "update_tasks env (\<lambda>t. t_id t = task_id) (\<lambda>t. t\<lparr>t_status := TDispatched\<rparr>) s1 = (Inr k, s2)"
    and 3: "db_tasks s' = db_tasks s2" "db_dispatches s' = db_dispatches s2"
    unfolding new_def by (rule create_run_dispatch_phases) (simp add: scoped_dispatch_def)
  have rows: "db_dispatches s' = db_dispatches s @ [new]" "i \<notin> d_id ` set (db_dispatches s)"
    using 1 2 3 insert_dispatch_ok(1) [OF 1] by (simp_all add: statement_rows statement_frames new)
  then have "d = new"
    using d find_row_None [of d_id i "db_dispatches s"] by (simp add: find_row_append new split: option.splits)
  with new rows show "d_task_id d = task_id" "d_failure_count d = carried_failures (db_dispatches s) task_id"
    "d_assignee_handle d = Some h" "d_status d = DAwaitingAcceptance" "d_context_token_hash d = ht"
    "db_dispatches s' = db_dispatches s @ [d]" "d_id d \<notin> d_id ` set (db_dispatches s)" by simp_all
  show "db_tasks s' = update_rows (\<lambda>t. t_id t = task_id) (\<lambda>t. t\<lparr>t_status := TDispatched\<rparr>) (db_tasks s)"
    using 1 2 3 by (simp add: statement_rows statement_frames)
qed (use assms in \<open>auto elim: create_scoped_phases\<close>)

lemma fail_ok:
  assumes "fail_orchestration_dispatch_with_result env i error result s = (Inr d, s')"
    and "dispatch_by_id i s = Some ctx" "distinct (map t_id (db_tasks s))"
  shows "db_dispatches s' = update_rows (\<lambda>d. d_id d = i) (failed_dispatch env error ctx) (db_dispatches s)"
    "d = failed_dispatch env error ctx ctx"
    "task_by_id (d_task_id ctx) s' = map_option (failed_task env result ctx) (task_by_id (d_task_id ctx) s)"
proof -
  obtain u where txn: "fail_dispatch_txn env i error result s = (Inr u, s')" and d: "dispatch_by_id i s' = Some d"
    using assms(1) by (auto simp: fail_orchestration_dispatch_with_result_def txn_simps require_dispatch_Inr)
  from txn obtain n s1 k s2 l s3 s4 where
    1: "update_dispatches (\<lambda>d. d_id d = i) (failed_dispatch env error ctx) s = (Inr n, s1)"
      "update_tasks env (\<lambda>t. t_id t = d_task_id ctx) (failed_task env result ctx) s1 = (Inr k, s2)"
      "obsolete_queued_messages env (\<lambda>m. m_dispatch_id m = Some i) s2 = (Inr l, s3)" and
    2: "whenT (circuit_broken ctx) (refresh_pending_dependents_after_task_status env (d_task_id ctx)) s3 = (Inr (), s4)"
      "db_tasks s' = db_tasks s4" "db_dispatches s' = db_dispatches s4"
    by (rule fail_phases [OF _ assms(2)])
  have s3: "db_tasks s3 = update_rows (\<lambda>t. t_id t = d_task_id ctx) (failed_task env result ctx) (db_tasks s)"
    using 1 by (simp add: statement_rows statement_frames obsolete_queued_messages_def)
  have ids: "t_id (failed_task env result ctx t) = t_id t" for t by (simp add: failed_task_def)
  show ds: "db_dispatches s' = update_rows (\<lambda>d. d_id d = i) (failed_dispatch env error ctx) (db_dispatches s)"
    using 1 2 by (auto simp: statement_rows statement_frames obsolete_queued_messages_def txn_simps refresh_frame
        split: if_splits)
  show "d = failed_dispatch env error ctx ctx"
    using d assms(2) find_row_Some [OF assms(2)] unfolding ds
    by (simp add: find_update_rows failed_dispatch_def)
  have row: "task_by_id (d_task_id ctx) s3 = map_option (failed_task env result ctx) (task_by_id (d_task_id ctx) s)"
    using update_task_lookup [OF 1(2) ids] update_dispatches_frame(1) [OF 1(1)] 1(3)
    by (simp add: obsolete_queued_messages_def statement_frames)
  show "task_by_id (d_task_id ctx) s' = map_option (failed_task env result ctx) (task_by_id (d_task_id ctx) s)"
  proof (cases "circuit_broken ctx")
    case True
    have "distinct (map t_id (db_tasks s3))" using assms(3) by (simp add: s3 map_update_rows ids)
    moreover have "refresh_pending_dependents_after_task_status env (d_task_id ctx) s3 = (Inr (), s4)"
      using 2(1) True by (simp add: txn_simps)
    ultimately have "task_by_id (d_task_id ctx) s4 = task_by_id (d_task_id ctx) s3"
      by (rule refresh_keeps_settled) (use True in \<open>auto simp: row failed_task_def\<close>)
    with row 2(2) show ?thesis by simp
  qed (use 2 row in \<open>simp add: txn_simps\<close>)
qed

text \<open>
  C12: The circuit breaker counts over the dispatches of a task.  When a task is dispatched to a terminal and
  that dispatch fails, the failures carried by the task's dispatches have grown by exactly one; below the
  third the task is ready again and the dispatch is \<open>failed\<close>, from the third on the task is failed, the
  dispatch is \<open>circuit_broken\<close>, and the task can no longer be dispatched.
\<close>

theorem circuit_breaker:
  assumes "distinct (map t_id (db_tasks s))"
    and "create_scoped_orchestration_dispatch env i h run w c ht p s = (Inr d, s1)"
    and "fail_orchestration_dispatch_with_result env' (d_id d) error result s1 = (Inr d', s2)"
  shows "carried_failures (db_dispatches s2) i = carried_failures (db_dispatches s) i + 1
    \<and> (if carried_failures (db_dispatches s) i + 1 < 3
       then d_status d' = DFailed \<and> map_option t_status (task_by_id i s2) = Some TReady
       else d_status d' = DCircuitBroken \<and> map_option t_status (task_by_id i s2) = Some TFailed
         \<and> isl (fst (create_scoped_orchestration_dispatch env'' i h' run' w' c' ht' p' s2)))"
proof -
  note new = create_scoped_ok [OF assms(2)]
  have ctx: "dispatch_by_id (d_id d) s1 = Some d"
    using new(7) find_row_None [of d_id "d_id d" "db_dispatches s"] by (simp add: new(6) find_row_append)
  have keyed: "distinct (map t_id (db_tasks s1))" using assms(1) by (simp add: new(8) map_update_rows)
  note failed = fail_ok [OF assms(3) ctx keyed]
  have "update_rows (\<lambda>x. d_id x = d_id d) (failed_dispatch env' error d) (db_dispatches s) = db_dispatches s"
    by (rule update_rows_none) (metis image_eqI new(7))
  then have ds: "db_dispatches s2 = db_dispatches s @ [d']"
    unfolding failed(1) new(6) by (simp add: failed(2))
  have count: "d_failure_count d' = carried_failures (db_dispatches s) i + 1" "d_task_id d' = i"
    using new by (simp_all add: failed(2) failed_dispatch_def)
  have broken: "circuit_broken d \<longleftrightarrow> \<not> carried_failures (db_dispatches s) i + 1 < 3"
    using new by (auto simp: circuit_broken_def orchestration_circuit_breaker_threshold_def)
  obtain t where "task_by_id i s1 = Some t"
    using new(8,9) by (auto simp: find_update_rows)
  then have status: "map_option t_status (task_by_id i s2) = Some (if circuit_broken d then TFailed else TReady)"
    using failed(3) new(1) by (simp add: failed_task_def)
  have "isl (fst (create_scoped_orchestration_dispatch env'' i h' run' w' c' ht' p' s2))" if "circuit_broken d"
  proof (cases "create_scoped_orchestration_dispatch env'' i h' run' w' c' ht' p' s2")
    case (Pair r s3)
    with create_scoped_ok(9) status that show ?thesis by (cases r) fastforce+
  qed
  with status broken count carried_failures_append [of d' i "db_dispatches s"] show ?thesis
    unfolding ds by (auto simp: failed(2) failed_dispatch_def)
qed

theorem circuit_breaker_witness:
  "case create_scoped_orchestration_dispatch demo_env ''a'' ''term'' None ''w'' ''c'' None ''keep-open'' demo_db of
     (Inl _, _) \<Rightarrow> False
   | (Inr d, s1) \<Rightarrow> (case fail_orchestration_dispatch_with_result demo_env (d_id d) ''boom'' None s1 of
       (Inl _, _) \<Rightarrow> False
     | (Inr d', s2) \<Rightarrow> carried_failures (db_dispatches s2) ''a'' = 1 \<and> d_status d' = DFailed)"
proof -
  let ?c = "create_scoped_orchestration_dispatch demo_env ''a'' ''term'' None ''w'' ''c'' None ''keep-open'' demo_db"
  have "\<not> isl (fst ?c) \<and> \<not> isl (fst (fail_orchestration_dispatch_with_result demo_env (d_id (projr (fst ?c))) ''boom'' None (snd ?c)))
      \<and> carried_failures (db_dispatches demo_db) ''a'' = 0"
    by code_simp
  moreover obtain d s1 where c: "?c = (Inr d, s1)" using calculation by (cases ?c; cases "fst ?c") auto
  moreover obtain d' s2 where f: "fail_orchestration_dispatch_with_result demo_env (d_id d) ''boom'' None s1 = (Inr d', s2)"
    using calculation by (cases "fail_orchestration_dispatch_with_result demo_env (d_id d) ''boom'' None s1"; 
      cases "fst (fail_orchestration_dispatch_with_result demo_env (d_id d) ''boom'' None s1)") auto
  moreover have "distinct (map t_id (db_tasks demo_db))" by (simp add: demo_defs)
  ultimately show ?thesis using circuit_breaker [OF _ c f] by simp
qed

section \<open>Acceptance\<close>

definition acceptable :: "string \<Rightarrow> string \<Rightarrow> dispatch \<Rightarrow> bool" where
  "acceptable assignee_handle context_token_hash d \<longleftrightarrow> d_assignee_handle d = Some assignee_handle
    \<and> (d_context_token_hash d = Some context_token_hash \<or> d_context_token_hash d = None)
    \<and> d_status d \<in> {DAwaitingAcceptance, DDispatched}"

definition accepted_dispatch :: "env \<Rightarrow> dispatch \<Rightarrow> dispatch" where
  "accepted_dispatch env d = d\<lparr>d_status := DDispatched,
     d_accepted_at := coalesce (d_accepted_at d) (Some (env_now env)), d_last_activity_at := Some (env_now env)\<rparr>"

lemma update_one_row:
  assumes "update_dispatches (\<lambda>d. d_id d = i \<and> q d) f s = (Inr n, s')" "n \<noteq> 0"
    and "distinct (map d_id (db_dispatches s))" "\<And>d. d_id (f d) = d_id d"
  obtains d where "dispatch_by_id i s = Some d" "q d"
    "\<forall>k. dispatch_by_id k s' = (if k = i then Some (f d) else dispatch_by_id k s)"
proof -
  have "n = 1" "\<exists>d. dispatch_by_id i s = Some d \<and> d_id d = i \<and> q d"
    using dispatches_table.update_by_key [OF assms(3,1), of i] assms(2) by auto
  then obtain d where d: "dispatch_by_id i s = Some d" "q d" by blast
  moreover have "dispatch_by_id k s' = (if k = i then Some (f d) else dispatch_by_id k s)" for k
    using dispatches_table.lookup_update [OF assms(1,4), of k] d find_row_Some [of d_id k "db_dispatches s"]
    by (cases "dispatch_by_id k s") auto
  ultimately show thesis using that by blast
qed

lemma accept_txn_ok:
  assumes "distinct (map d_id (db_dispatches s))"
    and "update_dispatches (\<lambda>d. d_id d = i \<and> d_assignee_handle d = Some a
            \<and> (d_context_token_hash d = Some h \<or> d_context_token_hash d = None)
            \<and> d_status d \<in> {DAwaitingAcceptance, DDispatched})
         (\<lambda>d. d\<lparr>d_status := DDispatched, d_accepted_at := coalesce (d_accepted_at d) (Some (env_now env)),
                 d_last_activity_at := Some (env_now env)\<rparr>) s = (Inr n, s')" "n \<noteq> 0"
  obtains d where "dispatch_by_id i s = Some d" "acceptable a h d"
    "\<forall>k. dispatch_by_id k s' = (if k = i then Some (accepted_dispatch env d) else dispatch_by_id k s)"
  by (rule update_one_row [OF assms(2,3,1)]) (auto simp: acceptable_def accepted_dispatch_def elim!: that)

text \<open>
  C23: Only the worker a task was handed to can accept it.  An acceptance that succeeds names a dispatch that
  is awaiting acceptance or already accepted, comes from its assignee, and carries the hash of its context
  token if it has one; it changes that dispatch alone, to \<open>dispatched\<close>, keeping the time of the first
  acceptance, and no task.  Every other acceptance is refused and leaves the store as it was.
\<close>

theorem acceptance_is_authenticated:
  assumes "distinct (map d_id (db_dispatches s))"
    and "accept_orchestration_dispatch env i a h s = (r, s')"
  shows "case r of
      Inl e \<Rightarrow> s' = s
    | Inr d' \<Rightarrow> db_tasks s' = db_tasks s \<and> (\<exists>d. dispatch_by_id i s = Some d \<and> acceptable a h d
        \<and> d' = accepted_dispatch env d
        \<and> (\<forall>k. dispatch_by_id k s' = (if k = i then Some d' else dispatch_by_id k s)))"
proof -
  from assms(2) [unfolded accept_orchestration_dispatch_def] require_reads(2) show ?thesis
  proof (cases rule: transaction_cases)
    case (refused e v)
    then show ?thesis by simp
  next
    case (committed u)
    then obtain n s1 where up: "update_dispatches (\<lambda>d. d_id d = i \<and> d_assignee_handle d = Some a
            \<and> (d_context_token_hash d = Some h \<or> d_context_token_hash d = None)
            \<and> d_status d \<in> {DAwaitingAcceptance, DDispatched})
         (\<lambda>d. d\<lparr>d_status := DDispatched, d_accepted_at := coalesce (d_accepted_at d) (Some (env_now env)),
                 d_last_activity_at := Some (env_now env)\<rparr>) s = (Inr n, s1)" "n \<noteq> 0"
      and s': "db_dispatches s' = db_dispatches s1" "db_tasks s' = db_tasks s1"
      unfolding bindT_Inr_iff thenT_Inr_iff basic_Inr_iff
      by (auto simp: whenT_Inr_iff record_event_frame split: if_splits)
    obtain d where d: "dispatch_by_id i s = Some d" "acceptable a h d"
      "\<forall>k. dispatch_by_id k s1 = (if k = i then Some (accepted_dispatch env d) else dispatch_by_id k s)"
      by (rule accept_txn_ok [OF assms(1) up])
    have "r = Inr (accepted_dispatch env d)"
      using committed(2) d(3) s' by (simp add: require_dispatch_def of_option_def txn_run)
    moreover have "db_tasks s' = db_tasks s" using s'(2) up(1) by (simp add: statement_frames)
    ultimately show ?thesis using d s'(1) by auto
  qed
qed

text \<open>A task handed to a terminal.\<close>

definition demo_handed :: db where
  "demo_handed = snd (create_scoped_orchestration_dispatch demo_env ''a'' ''term'' None ''w'' ''c'' None ''keep-open'' demo_db)"

theorem acceptance_is_authenticated_witness:
  "distinct (map d_id (db_dispatches demo_handed))
    \<and> (case accept_orchestration_dispatch demo_env ''ctx_1'' ''term'' [] demo_handed of
         (Inl _, _) \<Rightarrow> False
       | (Inr d', s') \<Rightarrow> dispatch_by_id ''ctx_1'' s' = Some d' \<and> d_status d' = DDispatched)"
proof -
  let ?r = "accept_orchestration_dispatch demo_env ''ctx_1'' ''term'' [] demo_handed"
  have run: "map d_id (db_dispatches demo_handed) = [''ctx_1''] \<and> \<not> isl (fst ?r)" by code_simp
  then have keyed: "distinct (map d_id (db_dispatches demo_handed))" by simp
  obtain d' s' where r: "?r = (Inr d', s')" using run by (cases ?r; cases "fst ?r") auto
  from acceptance_is_authenticated [OF keyed r] keyed show ?thesis
    by (auto simp: r accepted_dispatch_def)
qed

section \<open>Completion\<close>

lemma complete_txn_ok:
  assumes "distinct (map t_id (db_tasks s))"
    and "dispatch_by_id (d_id ctx) s = Some ctx" "complete_dispatch_txn env ctx a result sha b s = (Inr j, s')"
  shows "dispatch_by_id (d_id ctx) s' = Some (completed_dispatch env sha ctx)"
    "\<exists>t. task_by_id (d_task_id ctx) s = Some t \<and> contract_admits env t result
      \<and> task_by_id (d_task_id ctx) s' = Some (completed_task env result t)"
    "map l_dispatch_id (db_launches s') = map l_dispatch_id (db_launches s)"
    "\<forall>m \<in> set (db_messages s'). m_dispatch_id m = Some (d_id ctx) \<longrightarrow> m_state m \<noteq> SQueued"
proof -
  from assms(3) obtain t n s1 k s2 s3 s4 where
    t: "task_by_id (d_task_id ctx) s = Some t" "contract_admits env t result" and
    1: "update_dispatches (\<lambda>d. d_id d = d_id ctx) (completed_dispatch env sha) s = (Inr n, s1)"
      "update_tasks env (\<lambda>t. t_id t = d_task_id ctx) (completed_task env result) s1 = (Inr k, s2)"
      "db_tasks s3 = db_tasks s2" "db_dispatches s3 = db_dispatches s2" "db_messages s3 = db_messages s2"
      "map l_dispatch_id (db_launches s3) = map l_dispatch_id (db_launches s2)" and
    2: "refresh_pending_dependents_after_task_status env (d_task_id ctx) s3 = (Inr (), s4)" and
    3: "update_messages env (\<lambda>m. m_dispatch_id m = Some (d_id ctx) \<and> m_state m = SQueued)
        (\<lambda>m. m\<lparr>m_state := SObsolete, m_obsolete_at := Some (env_now env)\<rparr>) s4 = (Inr j, s')"
    unfolding obsolete_queued_messages_def [symmetric] by (rule complete_phases)
  have ids: "t_id (completed_task env result u) = t_id u" for u by (simp add: completed_task_def)
  have s3: "db_tasks s3 = update_rows (\<lambda>t. t_id t = d_task_id ctx) (completed_task env result) (db_tasks s)"
    using 1 by (simp add: statement_rows statement_frames)
  have "task_by_id (d_task_id ctx) s3 = Some (completed_task env result t)"
    using update_task_lookup [OF 1(2) ids] update_dispatches_frame(1) [OF 1(1)] 1(3) t(1) by simp
  moreover from this have "task_by_id (d_task_id ctx) s4 = task_by_id (d_task_id ctx) s3"
    by (intro refresh_keeps_settled [OF _ 2]) (use assms(1) in \<open>auto simp: s3 map_update_rows ids completed_task_def\<close>)
  ultimately show "\<exists>t. task_by_id (d_task_id ctx) s = Some t \<and> contract_admits env t result
      \<and> task_by_id (d_task_id ctx) s' = Some (completed_task env result t)"
    using t 3 by (simp add: statement_frames)
  show "dispatch_by_id (d_id ctx) s' = Some (completed_dispatch env sha ctx)"
    using 1 2 3 assms(2) by (simp add: statement_rows statement_frames refresh_frame find_update_rows completed_dispatch_def)
  show "map l_dispatch_id (db_launches s') = map l_dispatch_id (db_launches s)"
    using 1 2 3 by (simp add: statement_frames refresh_frame)
  show "\<forall>m \<in> set (db_messages s'). m_dispatch_id m = Some (d_id ctx) \<longrightarrow> m_state m \<noteq> SQueued"
    unfolding update_messages_rows [OF 3] by (rule update_rows_all) auto
qed

lemma complete_cases:
  assumes "complete_orchestration_dispatch_at_sha env i a result sha s = (Inr d, s')"
  obtains (replayed) l where "dispatch_by_id i s = Some d" "dispatch_launched (db_launches s) i \<longleftrightarrow> sha \<noteq> None"
      "d_status d = DCompleted" "d_assignee_handle d = Some a" "d_completion_sha d = sha"
      "map_option t_status (task_by_id (d_task_id d) s) = Some TCompleted"
      "(if sha \<noteq> None then clear_resolved_workflow_launch_attention env i else okT 0) s = (Inr l, s')"
    | (first) ctx j where "dispatch_by_id i s = Some ctx" "dispatch_launched (db_launches s) i \<longleftrightarrow> sha \<noteq> None"
      "d_status ctx \<in> {DDispatched, DStalled}" "d_assignee_handle ctx = Some a" "d_id ctx = i"
      "complete_dispatch_txn env ctx a result sha (sha \<noteq> None) s = (Inr j, s')" "dispatch_by_id i s' = Some d"
proof -
  obtain ctx where ctx: "dispatch_by_id i s = Some ctx" "dispatch_launched (db_launches s) i \<longleftrightarrow> sha \<noteq> None"
    using assms by (auto simp: complete_orchestration_dispatch_at_sha_def txn_simps require_dispatch_Inr)
  show thesis
  proof (cases "d_status ctx = DCompleted")
    case True
    with assms ctx replayed show ?thesis
      by (auto simp: complete_orchestration_dispatch_at_sha_def txn_simps require_dispatch_Inr)
  next
    case False
    with assms ctx first find_row_Some [OF ctx(1)] show ?thesis
      by (simp add: complete_orchestration_dispatch_at_sha_def txn_simps require_dispatch_Inr) blast
  qed
qed

lemma complete_replay:
  assumes "dispatch_by_id i s = Some d" "dispatch_launched (db_launches s) i \<longleftrightarrow> sha \<noteq> None"
    and "d_status d = DCompleted" "d_assignee_handle d = Some a" "d_completion_sha d = sha"
    and "map_option t_status (task_by_id (d_task_id d) s) = Some TCompleted"
  shows "\<exists>s'. complete_orchestration_dispatch_at_sha env i a result sha s = (Inr d, s')
    \<and> db_tasks s' = db_tasks s \<and> db_dispatches s' = db_dispatches s \<and> db_messages s' = db_messages s"
proof -
  have "\<exists>l s'. (if sha \<noteq> None then clear_resolved_workflow_launch_attention env i else okT 0) s = (Inr l, s')"
    by (auto simp: clear_resolved_workflow_launch_attention_def update_launches_run okT_def)
  then obtain l s' where run: "(if sha \<noteq> None then clear_resolved_workflow_launch_attention env i else okT 0) s = (Inr l, s')"
    by blast
  have "complete_orchestration_dispatch_at_sha env i a result sha s = (Inr d, s')"
    unfolding complete_orchestration_dispatch_at_sha_def bindT_Inr_iff thenT_Inr_iff require_dispatch_Inr basic_Inr_iff
    using assms run by (auto simp: txn_simps)
  with attention_frame [OF run] show ?thesis by blast
qed

text \<open>
  C22: A completion is final and can be repeated.  A completion that succeeds leaves the dispatch completed, by
  its assignee and at the result SHA it names, which a dispatch has exactly when it was launched; its task is
  completed; unless it was completed before, the result satisfied the task's role contract and became the
  task's result, and no message of the dispatch is left queued.  The same assignee may send the completion
  again, with any result text: it gets the same dispatch and changes no task, dispatch or message.
\<close>

theorem completion_is_final:
  assumes "distinct (map t_id (db_tasks s))"
    and "complete_orchestration_dispatch_at_sha env i a result sha s = (Inr d, s')"
  shows "dispatch_by_id i s' = Some d \<and> d_status d = DCompleted \<and> d_assignee_handle d = Some a
    \<and> d_completion_sha d = sha \<and> (dispatch_launched (db_launches s) i \<longleftrightarrow> sha \<noteq> None)
    \<and> (\<exists>t. task_by_id (d_task_id d) s' = Some t \<and> t_status t = TCompleted
        \<and> (dispatch_by_id i s = Some d \<or> t_result t = Some result \<and> contract_admits env t result
          \<and> (\<forall>m \<in> set (db_messages s'). m_dispatch_id m = Some i \<longrightarrow> m_state m \<noteq> SQueued)))
    \<and> (\<exists>s''. complete_orchestration_dispatch_at_sha env' i a result' sha s' = (Inr d, s'')
        \<and> db_tasks s'' = db_tasks s' \<and> db_dispatches s'' = db_dispatches s' \<and> db_messages s'' = db_messages s')"
  using assms(2)
proof (cases rule: complete_cases)
  case (replayed l)
  have s': "db_tasks s' = db_tasks s" "db_dispatches s' = db_dispatches s"
    "dispatch_launched (db_launches s') i \<longleftrightarrow> sha \<noteq> None"
    using attention_frame [OF replayed(7)] replayed(2) by (simp_all add: dispatch_launched_def flip: set_map)
  show ?thesis
    using complete_replay [OF _ s'(3) replayed(3-5)] replayed s' by auto
next
  case (first ctx j)
  have ctx: "dispatch_by_id (d_id ctx) s = Some ctx" using first by simp
  note ok = complete_txn_ok [OF assms(1) ctx first(6)]
  have d: "d = completed_dispatch env sha ctx" using ok(1) first(5,7) by simp
  obtain t where t: "contract_admits env t result" "task_by_id (d_task_id d) s' = Some (completed_task env result t)"
    using ok(2) by (auto simp: d completed_dispatch_def)
  have launched: "dispatch_launched (db_launches s') i \<longleftrightarrow> sha \<noteq> None"
    using ok(3) first(2) by (simp add: dispatch_launched_def flip: set_map)
  have row: "d_status d = DCompleted" "d_assignee_handle d = Some a" "d_completion_sha d = sha"
    using first(4) by (simp_all add: d completed_dispatch_def)
  show ?thesis
    using complete_replay [OF first(7) launched row] first(2,5,7) row t ok(4)
    by (auto simp: completed_task_def contract_admits_def)
qed

definition demo_accepted :: db where
  "demo_accepted = snd (accept_orchestration_dispatch demo_env ''ctx_1'' ''term'' [] demo_handed)"

theorem completion_is_final_witness:
  "case complete_orchestration_dispatch_at_sha demo_env ''ctx_1'' ''term'' ''done'' None demo_accepted of
     (Inl _, _) \<Rightarrow> False
   | (Inr d, s') \<Rightarrow> d_status d = DCompleted \<and> (\<exists>t. task_by_id (d_task_id d) s' = Some t \<and> t_status t = TCompleted)"
proof -
  let ?r = "complete_orchestration_dispatch_at_sha demo_env ''ctx_1'' ''term'' ''done'' None demo_accepted"
  have run: "map t_id (db_tasks demo_accepted) = [''a'', ''b''] \<and> \<not> isl (fst ?r)" by code_simp
  then obtain d s' where r: "?r = (Inr d, s')" by (cases ?r; cases "fst ?r") auto
  have "distinct (map t_id (db_tasks demo_accepted))" using run by simp
  from completion_is_final [where env' = demo_env and result' = "''again''", OF this r] show ?thesis by (auto simp: r)
qed

section \<open>Startup failures and the lease\<close>

text \<open>
  C25: Startup failures are counted on the task and stall it at the third.  When the start of a dispatch that
  awaits acceptance fails, the dispatch is \<open>startup_failed\<close> with the error, and the task has one more startup
  failure: it is ready again below three of them and stalled from the third on.  Reporting the failure of the
  same dispatch again changes nothing, and a dispatch that was already accepted is refused.
\<close>

theorem startup_failure:
  assumes "dispatch_by_id i s = Some ctx"
    and "fail_orchestration_startup env i error s = (r, s')"
  shows "case r of
      Inl e \<Rightarrow> s' = s \<and> d_status ctx \<noteq> DStartupFailed
    | Inr d \<Rightarrow> (if d_status ctx = DStartupFailed then d = ctx \<and> s' = s
        else d_status ctx = DAwaitingAcceptance \<and> d = startup_failed_dispatch env error ctx
          \<and> (\<exists>t t'. task_by_id (d_task_id ctx) s = Some t \<and> task_by_id (d_task_id ctx) s' = Some t'
              \<and> t_startup_failure_count t' = t_startup_failure_count t + 1
              \<and> t_status t' = (if t_startup_failure_count t + 1 < 3 then TReady else TStalled)))"
proof (cases "d_status ctx = DStartupFailed")
  case True
  with assms show ?thesis
    by (auto simp: fail_orchestration_startup_def require_dispatch_def of_option_def txn_run)
next
  case False
  have i: "d_id ctx = i" using find_row_Some [OF assms(1)] by simp
  have "thenT (fail_startup_txn env ctx error) (require_dispatch i ''dispatch context not found after startup failure'') s = (r, s')"
    using assms False
    by (simp add: fail_orchestration_startup_def bindT_def require_dispatch_def of_option_def getsT_def liftT_def)
  then show ?thesis
  proof (cases rule: committed_cases [OF _ require_reads(2), consumes 1, case_names atomic refused committed])
    case (refused e)
    with False show ?thesis by simp
  next
    case (committed u)
    from committed(1) obtain n s1 k s2 t' where st: "d_status ctx = DAwaitingAcceptance" and
      1: "update_dispatches (\<lambda>d. d_id d = i) (startup_failed_dispatch env error) s = (Inr n, s1)" and
      2: "update_tasks env (\<lambda>t. t_id t = d_task_id ctx) (startup_failed_task env) s1 = (Inr k, s2)" and
      3: "task_by_id (d_task_id ctx) s2 = Some t'" "db_tasks s' = db_tasks s2" "db_dispatches s' = db_dispatches s2"
      unfolding i [symmetric] by (rule fail_startup_phases)
    have "dispatch_by_id i s' = Some (startup_failed_dispatch env error ctx)"
      using 1 2 3(3) assms(1) i
      by (simp add: statement_rows statement_frames find_update_rows startup_failed_dispatch_def)
    then have "r = Inr (startup_failed_dispatch env error ctx)"
      using committed(2) by (simp add: require_dispatch_def of_option_def txn_run)
    moreover obtain t where "task_by_id (d_task_id ctx) s = Some t" "t' = startup_failed_task env t"
      using 3(1) update_task_lookup [OF 2] update_dispatches_frame(1) [OF 1]
      by (auto simp: startup_failed_task_def Let_def)
    ultimately show ?thesis
      using False st 3 by (simp add: startup_failed_task_def Let_def)
  qed (simp add: fail_startup_txn_def atomic_Inl_iff)
qed

theorem startup_failure_witness:
  "case fail_orchestration_startup demo_env ''ctx_1'' ''no shell'' demo_handed of
     (Inl _, _) \<Rightarrow> False
   | (Inr d, s') \<Rightarrow> d_status d = DStartupFailed"
proof -
  let ?r = "fail_orchestration_startup demo_env ''ctx_1'' ''no shell'' demo_handed"
  have run: "map_option d_status (dispatch_by_id ''ctx_1'' demo_handed) = Some DAwaitingAcceptance \<and> \<not> isl (fst ?r)"
    by code_simp
  then obtain ctx d s' where ctx: "dispatch_by_id ''ctx_1'' demo_handed = Some ctx" and r: "?r = (Inr d, s')"
    by (cases ?r; cases "fst ?r") auto
  with run startup_failure [OF ctx r] show ?thesis by (simp add: startup_failed_dispatch_def)
qed

definition stalled_dispatch :: "dispatch \<Rightarrow> dispatch" where
  "stalled_dispatch d = d\<lparr>d_status := DStalled\<rparr>"

definition stalled_task :: "env \<Rightarrow> task \<Rightarrow> task" where
  "stalled_task env t = t\<lparr>t_status := TStalled, t_stalled_at := Some (env_now env)\<rparr>"

lemma stall_context_ok:
  assumes "stall_context env ctx s = (Inr u, s')"
  shows "db_dispatches s' = update_rows (\<lambda>d. d_id d = d_id ctx \<and> d_status d = DDispatched) stalled_dispatch (db_dispatches s)"
    "db_tasks s' = update_rows (\<lambda>t. t_id t = d_task_id ctx) (stalled_task env) (db_tasks s)"
proof -
  obtain n s1 v s2 k where
    1: "update_dispatches (\<lambda>d. d_id d = d_id ctx \<and> d_status d = DDispatched) stalled_dispatch s = (Inr n, s1)" and
    2: "whenT (n > 0) (record_dispatch_run_event env (d_id ctx) ETaskStalled ''No activity within the lease.'' None) s1 = (Inr v, s2)" and
    3: "update_tasks env (\<lambda>t. t_id t = d_task_id ctx) (stalled_task env) s2 = (Inr k, s')"
    using assms
    unfolding stall_context_def stalled_dispatch_def [abs_def] stalled_task_def [abs_def] atomic_Inr_iff
      bindT_Inr_iff thenT_Inr_iff basic_Inr_iff by blast
  have "db_tasks s2 = db_tasks s1" "db_dispatches s2 = db_dispatches s1"
    using 2 by (auto simp: whenT_Inr_iff record_event_frame split: if_splits)
  with 1 3 show "db_dispatches s' = update_rows (\<lambda>d. d_id d = d_id ctx \<and> d_status d = DDispatched) stalled_dispatch (db_dispatches s)"
    "db_tasks s' = update_rows (\<lambda>t. t_id t = d_task_id ctx) (stalled_task env) (db_tasks s)"
    by (simp_all add: statement_rows statement_frames)
qed

lemma stall_loop:
  assumes "forT ctxs (stall_context env) s = (Inr u, s')"
  shows "db_dispatches s' = update_rows (\<lambda>d. d_id d \<in> set (map d_id ctxs) \<and> d_status d = DDispatched)
      stalled_dispatch (db_dispatches s)
    \<and> db_tasks s' = update_rows (\<lambda>t. t_id t \<in> set (map d_task_id ctxs)) (stalled_task env) (db_tasks s)"
proof (rule forT_invariant [where P = "\<lambda>ys v. db_dispatches v = update_rows
      (\<lambda>d. d_id d \<in> set (map d_id ys) \<and> d_status d = DDispatched) stalled_dispatch (db_dispatches s)
    \<and> db_tasks v = update_rows (\<lambda>t. t_id t \<in> set (map d_task_id ys)) (stalled_task env) (db_tasks s)", OF assms])
  fix ys :: "dispatch list" and y and v v' :: db
  assume "db_dispatches v = update_rows (\<lambda>d. d_id d \<in> set (map d_id ys) \<and> d_status d = DDispatched)
      stalled_dispatch (db_dispatches s)
    \<and> db_tasks v = update_rows (\<lambda>t. t_id t \<in> set (map d_task_id ys)) (stalled_task env) (db_tasks s)"
    and "stall_context env y v = (Inr (), v')"
  then show "db_dispatches v' = update_rows (\<lambda>d. d_id d \<in> set (map d_id (ys @ [y])) \<and> d_status d = DDispatched)
      stalled_dispatch (db_dispatches s)
    \<and> db_tasks v' = update_rows (\<lambda>t. t_id t \<in> set (map d_task_id (ys @ [y]))) (stalled_task env) (db_tasks s)"
    using stall_context_ok [of env y v "()" v']
    by (simp add: update_rows_accumulate update_rows_accumulate_same stalled_dispatch_def stalled_task_def
        del: set_append set_map)
qed (simp add: update_rows_none)

text \<open>
  C24: The lease sweep stalls exactly the silent workers.  A sweep returns the accepted dispatches whose last
  sign of life is older than the threshold, in row order; afterwards exactly these are stalled, with the
  tasks they hold, no other dispatch or task has changed, and a second sweep with the same threshold finds
  nothing.
\<close>

theorem lease_sweep:
  assumes "distinct (map d_id (db_dispatches s))"
    and "stall_expired_orchestration_dispatches env threshold s = (Inr ctxs, s')"
  shows "ctxs = filter (lease_expired threshold) (db_dispatches s)
    \<and> db_dispatches s' = update_rows (lease_expired threshold) stalled_dispatch (db_dispatches s)
    \<and> db_tasks s' = update_rows (\<lambda>t. t_id t \<in> d_task_id ` set ctxs) (stalled_task env) (db_tasks s)
    \<and> stall_expired_orchestration_dispatches env' threshold s' = (Inr [], s')"
proof -
  have ctxs: "ctxs = filter (lease_expired threshold) (db_dispatches s)"
    and run: "forT ctxs (stall_context env) s = (Inr (), s')"
    using assms(2) by (auto simp: stall_expired_orchestration_dispatches_def txn_simps)
  have "(d_id d \<in> set (map d_id ctxs) \<and> d_status d = DDispatched) = lease_expired threshold d"
    if d: "d \<in> set (db_dispatches s)" for d
  proof
    assume "d_id d \<in> set (map d_id ctxs) \<and> d_status d = DDispatched"
    then obtain c where "c \<in> set (db_dispatches s)" "lease_expired threshold c" "d_id c = d_id d"
      unfolding ctxs by auto
    with find_row_unique [OF assms(1) d] find_row_unique [OF assms(1), of c] show "lease_expired threshold d" by simp
  qed (use d in \<open>auto simp: ctxs lease_expired_def\<close>)
  then have ds: "db_dispatches s' = update_rows (lease_expired threshold) stalled_dispatch (db_dispatches s)"
    using stall_loop [OF run] by (simp add: update_rows_def cong: map_cong if_cong)
  have "\<forall>d \<in> set (db_dispatches s'). \<not> lease_expired threshold d"
    unfolding ds by (rule update_rows_all) (auto simp: lease_expired_def stalled_dispatch_def)
  then have "filter (lease_expired threshold) (db_dispatches s') = []" by (simp add: filter_empty_conv)
  then have "stall_expired_orchestration_dispatches env' threshold s' = (Inr [], s')"
    by (simp add: stall_expired_orchestration_dispatches_def txn_run)
  with ctxs ds stall_loop [OF run] show ?thesis by simp
qed

theorem lease_sweep_witness:
  "case stall_expired_orchestration_dispatches demo_env 9 demo_accepted of
     (Inl _, _) \<Rightarrow> False
   | (Inr ctxs, s') \<Rightarrow> ctxs \<noteq> [] \<and> stall_expired_orchestration_dispatches demo_env 9 s' = (Inr [], s')"
proof -
  let ?r = "stall_expired_orchestration_dispatches demo_env 9 demo_accepted"
  have run: "map d_id (db_dispatches demo_accepted) = [''ctx_1''] \<and> \<not> isl (fst ?r) \<and> projr (fst ?r) \<noteq> []"
    by code_simp
  then obtain ctxs s' where r: "?r = (Inr ctxs, s')" by (cases ?r; cases "fst ?r") auto
  have "distinct (map d_id (db_dispatches demo_accepted))" using run by simp
  from lease_sweep [where env' = demo_env, OF this r] run show ?thesis by (simp add: r)
qed

end
