(* ===== verification/Cancellation_Laws.thy ===== *)
theory Cancellation_Laws
  imports Dispatch_Laws
begin

text \<open>
  What cancelling a task does: the worklist of \<open>cancel_orchestration_task\<close> ends within its fuel
  (\<open>cancel_closure_terminates\<close>) and collects exactly the tasks that transitively wait for the cancelled one
  (\<open>cancel_closure_exact\<close>), and the statements run over it, one task after the other, amount to one
  simultaneous update of each table (\<open>update_rows_accumulate\<close>).
\<close>

section \<open>The tasks that wait\<close>

definition waits :: "task list \<Rightarrow> (string \<times> string) set" where
  "waits rows = {(a, b). \<exists>t \<in> set rows. t_id t = b \<and> a \<in> set (t_deps t)}"

text \<open>The cancelled task and everything that can still be cancelled and waits for it, however indirectly.\<close>

definition waiting_on :: "db \<Rightarrow> string \<Rightarrow> string set" where
  "waiting_on s i = (waits (filter cancellable (db_tasks s)))\<^sup>* `` {i}"

lemma waiting_on_self: "i \<in> waiting_on s i"
  by (simp add: waiting_on_def)

lemma waiting_on_step:
  assumes "a \<in> waiting_on s i" "t \<in> set (db_tasks s)" "cancellable t" "a \<in> set (t_deps t)"
  shows "t_id t \<in> waiting_on s i"
  using assms by (auto simp: waiting_on_def waits_def intro: rtrancl_into_rtrancl)

lemma push_waiting_set:
  "set (push_waiting c rows acc) = set acc \<union> {b. (c, b) \<in> waits rows}"
  unfolding push_waiting_def by (induction rows arbitrary: acc) (auto simp: waits_def)

lemma push_waiting_distinct: "distinct acc \<Longrightarrow> distinct (push_waiting c rows acc)"
  unfolding push_waiting_def by (induction rows arbitrary: acc) auto

lemma push_waiting_extends: "\<exists>more. push_waiting c rows acc = acc @ more"
proof (induction rows arbitrary: acc)
  case (Cons t rows)
  have "push_waiting c (t # rows) acc =
      push_waiting c rows (if c \<in> set (t_deps t) \<and> t_id t \<notin> set acc then acc @ [t_id t] else acc)"
    by (simp add: push_waiting_def)
  with Cons [of acc] Cons [of "acc @ [t_id t]"] show ?case by (auto split: if_splits)
qed (simp add: push_waiting_def)

text \<open>The state of the loop: the list has no duplicates, holds only waiting tasks, and is closed below the cursor.\<close>

definition closure_inv :: "task list \<Rightarrow> string \<Rightarrow> nat \<Rightarrow> string list \<Rightarrow> bool" where
  "closure_inv rows i cursor acc \<longleftrightarrow> distinct acc \<and> cursor \<le> length acc \<and> i \<in> set acc
    \<and> set acc \<subseteq> (waits rows)\<^sup>* `` {i} \<and> set acc \<subseteq> insert i (t_id ` set rows)
    \<and> (\<forall>a \<in> set (take cursor acc). \<forall>b. (a, b) \<in> waits rows \<longrightarrow> b \<in> set acc)"

lemma closure_inv_start: "closure_inv rows i 0 [i]"
  by (simp add: closure_inv_def)

lemma closure_inv_step:
  assumes "closure_inv rows i cursor acc" "cursor < length acc"
  shows "closure_inv rows i (cursor + 1) (push_waiting (acc ! cursor) rows acc)"
proof -
  let ?c = "acc ! cursor"
  obtain more where more: "push_waiting ?c rows acc = acc @ more" using push_waiting_extends by blast
  have set: "set (acc @ more) = set acc \<union> {b. (?c, b) \<in> waits rows}"
    using push_waiting_set [of ?c rows acc] more by simp
  have c: "(i, ?c) \<in> (waits rows)\<^sup>*"
    using assms(1) nth_mem [OF assms(2)] unfolding closure_inv_def by blast
  have "take (cursor + 1) (acc @ more) = take cursor acc @ [?c]"
    using assms(2) by (simp add: take_Suc_conv_app_nth)
  moreover have "set (acc @ more) \<subseteq> (waits rows)\<^sup>* `` {i}"
    using assms(1) c unfolding set closure_inv_def by (auto intro: rtrancl_into_rtrancl)
  moreover have "set (acc @ more) \<subseteq> insert i (t_id ` set rows)"
    using assms(1) unfolding set closure_inv_def by (auto simp: waits_def)
  moreover have "distinct (acc @ more)"
    using assms(1) push_waiting_distinct [of acc ?c rows] more by (simp add: closure_inv_def)
  ultimately show ?thesis
    using assms unfolding more closure_inv_def set by auto
qed

lemma closure_inv_length:
  assumes "closure_inv rows i cursor acc"
  shows "length acc \<le> Suc (length rows)"
proof -
  have "length acc = card (set acc)" using assms by (simp add: closure_inv_def distinct_card)
  also have "\<dots> \<le> card (insert i (t_id ` set rows))"
    using assms by (intro card_mono) (auto simp: closure_inv_def)
  also have "\<dots> \<le> Suc (card (t_id ` set rows))" by (simp add: card_insert_le_m1 card_insert_if)
  also have "\<dots> \<le> Suc (length rows)"
    using card_image_le [of "set rows" t_id] card_length [of rows] by simp
  finally show ?thesis .
qed

lemma closure_inv_done:
  assumes "closure_inv rows i cursor acc" "\<not> cursor < length acc"
  shows "distinct acc" "set acc = (waits rows)\<^sup>* `` {i}"
proof -
  have "(i, b) \<in> (waits rows)\<^sup>* \<Longrightarrow> b \<in> set acc" for b
    by (induction rule: rtrancl_induct) (use assms in \<open>auto simp: closure_inv_def\<close>)
  with assms show "distinct acc" "set acc = (waits rows)\<^sup>* `` {i}" by (auto simp: closure_inv_def)
qed

lemma cancel_closure_run:
  assumes "closure_inv rows i cursor acc" "Suc (length rows) \<le> fuel + cursor"
  shows "\<exists>ks. cancel_closure fuel rows cursor acc = Some ks \<and> distinct ks \<and> set ks = (waits rows)\<^sup>* `` {i}"
  using assms
proof (induction fuel arbitrary: cursor acc)
  case 0
  then have "\<not> cursor < length acc" using closure_inv_length [OF 0(1)] by simp
  then show ?case using closure_inv_done [OF 0(1)] by (simp add: cancel_closure.simps)
next
  case (Suc fuel)
  show ?case
  proof (cases "cursor < length acc")
    case True
    from Suc.IH [OF closure_inv_step [OF Suc(2) True]] Suc(3) True show ?thesis
      by (simp add: cancel_closure.simps [of "Suc fuel"])
  next
    case False
    then show ?thesis using closure_inv_done [OF Suc(2)] by (simp add: cancel_closure.simps)
  qed
qed

lemma cancel_closure_terminates: "cancel_closure (Suc (length rows)) rows 0 [i] \<noteq> None"
  using cancel_closure_run [OF closure_inv_start, of rows "Suc (length rows)" i] by auto

lemma cancel_closure_exact:
  assumes "cancel_closure (Suc (length rows)) rows 0 [i] = Some ks"
  shows "distinct ks" "set ks = (waits rows)\<^sup>* `` {i}"
  using cancel_closure_run [OF closure_inv_start, of rows "Suc (length rows)" i] assms by auto

section \<open>One update per table\<close>

definition cancelled_task :: "env \<Rightarrow> string \<Rightarrow> string \<Rightarrow> task \<Rightarrow> task" where
  "cancelled_task env i reason t = t\<lparr>t_status := TCancelled,
     t_result := coalesce (t_result t) (Some (if t_id t = i then reason else ''dependency cancelled: '' @ i)),
     t_cancelled_at := Some (env_now env), t_completed_at := Some (env_now env)\<rparr>"

definition open_task :: "task \<Rightarrow> bool" where
  "open_task t \<longleftrightarrow> t_status t \<notin> {TCompleted, TFailed, TCancelled}"

text \<open>The tables after the tasks with the given ids have been cancelled.\<close>

definition tasks_cancelled :: "env \<Rightarrow> string \<Rightarrow> string \<Rightarrow> string set \<Rightarrow> db \<Rightarrow> db \<Rightarrow> bool" where
  "tasks_cancelled env i reason C s s' \<longleftrightarrow>
    db_tasks s' = update_rows (\<lambda>t. t_id t \<in> C \<and> open_task t) (cancelled_task env i reason) (db_tasks s)
    \<and> db_dispatches s' = update_rows (\<lambda>d. d_task_id d \<in> C \<and> active_dispatch d)
        (\<lambda>d. d\<lparr>d_status := DCancelled, d_completed_at := Some (env_now env)\<rparr>) (db_dispatches s)
    \<and> db_messages s' = update_rows (\<lambda>m. m_task_id m \<in> Some ` C \<and> m_state m = SQueued)
        (\<lambda>m. m\<lparr>m_state := SObsolete, m_obsolete_at := Some (env_now env)\<rparr>) (db_messages s)
    \<and> task_gates s' = update_rows (\<lambda>g. g_task_id g \<in> Some ` C \<and> g_status g = GPending)
        (\<lambda>g. g\<lparr>g_status := GTimeout, g_resolved_at := Some (env_now env)\<rparr>) (task_gates s)"

text \<open>The statements of \<open>cancel_one\<close> on each table.\<close>

lemma cancel_one_run:
  assumes "cancel_one env i reason k s = (Inr u, s')"
  shows "tasks_cancelled env i reason {k} s s'"
proof -
  let ?f = "\<lambda>t. t\<lparr>t_status := TCancelled, t_result := coalesce (t_result t)
      (Some (if k = i then reason else ''dependency cancelled: '' @ i)),
      t_cancelled_at := Some (env_now env), t_completed_at := Some (env_now env)\<rparr>"
  from assms obtain n s1 s2 m s3 l s4 j where
    1: "update_tasks env (\<lambda>t. t_id t = k \<and> t_status t \<notin> {TCompleted, TFailed, TCancelled}) ?f s = (Inr n, s1)" and
    s2: "db_tasks s2 = db_tasks s1" "db_dispatches s2 = db_dispatches s1" "db_messages s2 = db_messages s1"
      "db_gates s2 = db_gates s1" and
    3: "update_dispatches (\<lambda>d. d_task_id d = k \<and> active_dispatch d)
        (\<lambda>d. d\<lparr>d_status := DCancelled, d_completed_at := Some (env_now env)\<rparr>) s2 = (Inr m, s3)" and
    4: "update_messages env (\<lambda>m. m_task_id m = Some k \<and> m_state m = SQueued)
        (\<lambda>m. m\<lparr>m_state := SObsolete, m_obsolete_at := Some (env_now env)\<rparr>) s3 = (Inr l, s4)" and
    5: "update_gates (\<lambda>g. g_task_id g = Some k \<and> g_status g = GPending)
        (\<lambda>g. g\<lparr>g_status := GTimeout, g_resolved_at := Some (env_now env)\<rparr>) s4 = (Inr j, s')"
    by (rule cancel_one_phases)
  have "db_tasks s' = update_rows (\<lambda>t. t_id t \<in> {k} \<and> open_task t) (cancelled_task env i reason) (db_tasks s)"
  proof -
    have "db_tasks s' = update_rows (\<lambda>t. t_id t = k \<and> t_status t \<notin> {TCompleted, TFailed, TCancelled}) ?f (db_tasks s)"
      using 1 3 4 5 s2 by (simp add: statement_rows statement_frames)
    also have "\<dots> = update_rows (\<lambda>t. t_id t \<in> {k} \<and> open_task t) (cancelled_task env i reason) (db_tasks s)"
      by (rule update_rows_cong) (auto simp: cancelled_task_def open_task_def)
    finally show ?thesis .
  qed
  moreover have "task_gates s' = update_rows (\<lambda>g. g_task_id g \<in> Some ` {k} \<and> g_status g = GPending)
      (\<lambda>g. g\<lparr>g_status := GTimeout, g_resolved_at := Some (env_now env)\<rparr>) (task_gates s)"
  proof -
    have "task_gates s4 = task_gates s"
      using update_tasks_frame(2) [OF 1] 3 4 s2 by (simp add: statement_frames task_gates_def)
    with 5 show ?thesis
      by (simp add: statement_rows task_gates_def filter_update_commute)
  qed
  ultimately show ?thesis
    using 1 3 4 5 s2 by (simp add: tasks_cancelled_def statement_rows statement_frames)
qed

lemma tasks_cancelled_step:
  assumes "tasks_cancelled env i reason (set ys) s v" "tasks_cancelled env i reason {y} v s'"
  shows "tasks_cancelled env i reason (set (ys @ [y])) s s'"
proof -
  have some: "x \<in> Some ` set ys \<longleftrightarrow> x \<in> set (map Some ys)" "x \<in> Some ` {y} \<longleftrightarrow> x = Some y"
    "x \<in> Some ` set (ys @ [y]) \<longleftrightarrow> x \<in> set (map Some ys @ [Some y])" for x :: "string option"
    by auto
  show ?thesis
    using assms unfolding tasks_cancelled_def some singleton_iff
    by (simp add: update_rows_accumulate cancelled_task_def open_task_def
        del: set_append set_map)
qed

lemma cancel_loop:
  assumes "forT ks (cancel_one env i reason) s = (Inr u, s')"
  shows "tasks_cancelled env i reason (set ks) s s'"
proof (rule forT_invariant [where P = "\<lambda>ys. tasks_cancelled env i reason (set ys) s", OF assms])
  show "tasks_cancelled env i reason (set []) s s"
    by (simp add: tasks_cancelled_def update_rows_none)
next
  fix ys y v v'
  assume "tasks_cancelled env i reason (set ys) s v" "cancel_one env i reason y v = (Inr (), v')"
  then show "tasks_cancelled env i reason (set (ys @ [y])) s v'"
    by (intro tasks_cancelled_step cancel_one_run)
qed

text \<open>A cancellation that goes through is the loop over the tasks that wait.\<close>

lemma cancel_run:
  assumes "cancel_orchestration_task env i reason s = (Inr t, s')"
    and "task_by_id i s = Some t0" "t_status t0 \<noteq> TCancelled"
  shows "tasks_cancelled env i reason (waiting_on s i) s s'" "task_by_id i s' = Some t" "open_task t0"
proof -
  obtain ks where ks: "cancel_closure (Suc (length (filter cancellable (db_tasks s)))) (filter cancellable (db_tasks s)) 0 [i] = Some ks"
    and run: "forT ks (cancel_one env i reason) s = (Inr (), s')"
    and t: "task_by_id i s' = Some t" and op: "open_task t0"
    using assms unfolding cancel_orchestration_task_def open_task_def
    by (auto simp: txn_simps require_task_Inr of_option_def split: if_splits option.splits)
  have "set ks = waiting_on s i"
    using cancel_closure_exact(2) [OF ks] by (simp add: waiting_on_def)
  with cancel_loop [OF run] t op
  show "tasks_cancelled env i reason (waiting_on s i) s s'" "task_by_id i s' = Some t" "open_task t0" by simp_all
qed

section \<open>Properties\<close>

text \<open>
  Cancelling ends.  The worklist that collects the tasks to cancel never runs out of its one step per
  cancellable task, whatever the dependencies are, cyclic ones included.
\<close>

theorem cancellation_terminates: "fst (cancel_orchestration_task env i reason s) \<noteq> Inl LoopBound"
proof -
  have obs: "fails_within (- {LoopBound}) (obsolete_queued_messages env p)" for p
    unfolding obsolete_queued_messages_def by (rule statement_errors)
  have one: "fails_within (- {LoopBound}) (cancel_one env i reason k)" for k
    unfolding cancel_one_def Let_def
    by (intro fails_within_intros update_tasks_errors statement_errors obs record_event_errors)
  have req: "fails_within (- {LoopBound}) (require_task i m)" for m
    by (auto simp: fails_within_def require_task_def of_option_def txn_run split: option.splits)
  have collect: "fails_within (- {LoopBound})
      (liftT (of_option LoopBound (cancel_closure (Suc (length rows)) rows 0 [i])))" for rows
    using cancel_closure_terminates [of rows i]
    by (auto simp: fails_within_def liftT_def of_option_def split: option.splits)
  have "fails_within (- {LoopBound}) (cancel_orchestration_task env i reason)"
    unfolding cancel_orchestration_task_def
    by (auto intro!: fails_within_intros one req collect)
  then show ?thesis
    by (metis ComplD fails_withinD insertI1 prod.collapse)
qed

text \<open>
  C13: Cancelling a task cancels exactly what waits for it.  A successful cancellation of a task that was not
  cancelled before changes the tables as one simultaneous update over the task and every task that can still
  be cancelled and transitively depends on it: these tasks become cancelled with their reason, their active
  dispatches are cancelled, their queued messages obsolete, their pending decision and stall gates timed out,
  and nothing else in these tables changes.
\<close>

theorem cancellation_is_exact:
  assumes "cancel_orchestration_task env i reason s = (Inr t, s')"
    and "task_by_id i s = Some t0" "t_status t0 \<noteq> TCancelled"
  shows "t = cancelled_task env i reason t0 \<and> tasks_cancelled env i reason (waiting_on s i) s s'"
proof -
  note run = cancel_run [OF assms]
  then have "task_by_id i s' = map_option (\<lambda>t. if t_id t \<in> waiting_on s i \<and> open_task t
      then cancelled_task env i reason t else t) (task_by_id i s)"
    unfolding tasks_cancelled_def by (subst find_update_rows [symmetric]) (auto simp: cancelled_task_def)
  with run assms(2) find_row_Some [OF assms(2)] waiting_on_self show ?thesis by auto
qed

text \<open>A task, one that waits for it, and one that does not.\<close>

definition demo_chain :: db where
  "demo_chain = empty_db\<lparr>db_tasks := [demo_task ''a'' TReady [], demo_task ''b'' TPending [''a''],
     demo_task ''c'' TReady []]\<rparr>"

theorem cancellation_is_exact_witness:
  "case cancel_orchestration_task demo_env ''a'' ''stop'' demo_chain of
     (Inl _, _) \<Rightarrow> False
   | (Inr t, s') \<Rightarrow> t_status t = TCancelled \<and> map_option t_status (task_by_id ''b'' s') = Some TCancelled"
proof -
  let ?r = "cancel_orchestration_task demo_env ''a'' ''stop'' demo_chain"
  have "\<not> isl (fst ?r)" by code_simp
  then obtain t s' where r: "?r = (Inr t, s')" by (cases ?r; cases "fst ?r") auto
  define W where "W = waiting_on demo_chain ''a''"
  have tasks: "db_tasks demo_chain = [demo_task ''a'' TReady [], demo_task ''b'' TPending [''a''], demo_task ''c'' TReady []]"
    by (simp add: demo_chain_def empty_db_def)
  have "''b'' \<in> W"
    using waiting_on_step [OF waiting_on_self, of "demo_task ''b'' TPending [''a'']" demo_chain "''a''"]
    by (simp add: W_def tasks demo_task_def cancellable_def)
  moreover have "tasks_cancelled demo_env ''a'' ''stop'' W demo_chain s'" "t_status t = TCancelled"
    using cancellation_is_exact [OF r, of "demo_task ''a'' TReady []"]
    by (simp_all add: tasks W_def demo_task_def cancelled_task_def)
  ultimately show ?thesis
    by (simp add: r tasks_cancelled_def tasks demo_task_def open_task_def cancelled_task_def)
qed

end
