(* ===== verification/Gate_Laws.thy ===== *)
theory Gate_Laws
  imports Dispatch_Laws
begin

text \<open>
  What the gates of a task do: a decision gate blocks its task and takes the worker off it, and a stalled
  task has at most one pending gate however often it is asked for.
\<close>

lemma require_gate_Inr: "require_gate i m s = (Inr g, s') \<longleftrightarrow> find_row g_id i (db_gates s) = Some g \<and> s' = s"
  by (auto simp: require_gate_def of_option_def txn_simps split: option.splits)

text \<open>A gate is appended with the next id; the other tables of the store stay.\<close>

lemma insert_task_gate_ok:
  assumes "insert_task_gate env k i q opts s = (Inr gid, s')"
  shows "\<exists>t. task_by_id i s = Some t
      \<and> db_gates s' = db_gates s @ [new_gate env gid (t_run_id t) (Some i) k [] q opts None]"
    "gid \<notin> g_id ` set (db_gates s)" "db_tasks s' = db_tasks s" "db_dispatches s' = db_dispatches s"
proof -
  let ?v = "s\<lparr>db_draws := db_draws s + 1\<rparr>"
  obtain t s1 where t: "task_by_id i s = Some t"
    and 1: "insert_gate (new_gate env gid (t_run_id t) (Some i) k [] q opts None) ?v = (Inr (), s1)"
    and 2: "db_gates s' = db_gates s1" "db_tasks s' = db_tasks s1" "db_dispatches s' = db_dispatches s1"
    using assms
    by (auto simp: insert_task_gate_def txn_simps require_task_Inr orchestration_id_run record_event_frame
        split: option.splits)
  show "\<exists>t. task_by_id i s = Some t
      \<and> db_gates s' = db_gates s @ [new_gate env gid (t_run_id t) (Some i) k [] q opts None]"
    "db_tasks s' = db_tasks s" "db_dispatches s' = db_dispatches s"
    using t 1 2 by (simp_all add: statement_rows statement_frames)
  show "gid \<notin> g_id ` set (db_gates s)" using insert_gate_ok(1) [OF 1] by (simp add: new_gate_def)
qed

lemma new_gate_fields [simp]:
  "g_id (new_gate env i run tsk k sc q opts p) = i" "g_kind (new_gate env i run tsk k sc q opts p) = k"
  "g_task_id (new_gate env i run tsk k sc q opts p) = tsk" "g_status (new_gate env i run tsk k sc q opts p) = GPending"
  "g_question (new_gate env i run tsk k sc q opts p) = q" "g_options (new_gate env i run tsk k sc q opts p) = opts"
  by (simp_all add: new_gate_def)

text \<open>A task statement that changes no result and touches no completed task leaves every gate.\<close>

lemma quiet_update_keeps_gates:
  assumes "update_tasks env p f s = (Inr n, s')"
    and "\<And>t. t \<in> set (db_tasks s) \<Longrightarrow> p t \<Longrightarrow> t_result (f t) = t_result t \<and> t_status t \<noteq> TCompleted"
  shows "db_gates s' = db_gates s"
proof -
  have event: "obeys (same db_gates) (task_state_event env t)" for t
    unfolding task_state_event_def insert_runtime_event_def
    by (intro keeps.holds_intros random_text_keeps keeps.holds_modify) (simp_all add: same_def)
  have "obeys (same db_gates) (after_task_update env t (f t))" if "t \<in> set (filter p (db_tasks s))" for t
    using assms(2) [of t] that unfolding after_task_update_def
    by (auto simp: whenT_def intro!: keeps.holds_intros event)
  then have after: "obeys (same db_gates) (forT (filter p (db_tasks s)) (\<lambda>t. after_task_update env t (f t)))"
    by (rule keeps.holds_for)
  obtain s1 where 1: "forT (filter p (db_tasks s)) (\<lambda>t. before_task_update t (f t)) s = (Inr (), s1)"
    and 2: "forT (filter p (db_tasks s)) (\<lambda>t. after_task_update env t (f t))
      (s1\<lparr>db_tasks := update_rows p f (db_tasks s1),
          db_board_revision := db_board_revision s1 + length (filter p (db_tasks s1))\<rparr>) = (Inr (), s')"
    using assms(1) unfolding update_tasks_def by (auto simp: txn_simps)
  from obeysD [OF after 2] before_task_updates_run [OF 1] show ?thesis by (simp add: same_def)
qed

section \<open>Decision gates\<close>

text \<open>
  C26: A decision gate blocks its task and releases the worker.  A gate is opened only on a task that is ready
  or dispatched; it is pending, with the question and the options asked for.  The task is blocked, every
  active dispatch of it is completed, so its terminal can take other work, and no dispatch of another task
  and no other task has changed.
\<close>

theorem decision_gate_blocks:
  assumes "distinct (map t_id (db_tasks s))"
    and "create_orchestration_gate env i question options s = (Inr g, s')"
  shows "(g_task_id g, g_kind g, g_status g, g_question g, g_options g) = (Some i, KDecision, GPending, question, options)
    \<and> db_gates s' = db_gates s @ [g]
    \<and> (\<exists>t. task_by_id i s = Some t \<and> t_status t \<in> {TReady, TDispatched})
    \<and> db_tasks s' = update_rows (\<lambda>t. t_id t = i) (\<lambda>t. t\<lparr>t_status := TBlocked\<rparr>) (db_tasks s)
    \<and> db_dispatches s' = update_rows (\<lambda>d. d_task_id d = i \<and> active_dispatch d)
        (\<lambda>d. d\<lparr>d_status := DCompleted, d_completed_at := Some (env_now env)\<rparr>) (db_dispatches s)"
proof -
  obtain t gid s1 n s2 k where t: "task_by_id i s = Some t" "t_status t \<in> {TReady, TDispatched}" and
    1: "insert_task_gate env KDecision i question options s = (Inr gid, s1)" and
    2: "update_dispatches (\<lambda>d. d_task_id d = i \<and> active_dispatch d)
         (\<lambda>d. d\<lparr>d_status := DCompleted, d_completed_at := Some (env_now env)\<rparr>) s1 = (Inr n, s2)" and
    3: "update_tasks env (\<lambda>t. t_id t = i) (\<lambda>t. t\<lparr>t_status := TBlocked\<rparr>) s2 = (Inr k, s')" and
    g: "find_row g_id gid (db_gates s') = Some g"
    using assms(2) by (auto simp: create_orchestration_gate_def txn_simps require_task_Inr require_gate_Inr)
  obtain run where gates: "db_gates s1 = db_gates s @ [new_gate env gid run (Some i) KDecision [] question options None]"
    and fresh: "gid \<notin> g_id ` set (db_gates s)" and frame: "db_tasks s1 = db_tasks s" "db_dispatches s1 = db_dispatches s"
    using insert_task_gate_ok [OF 1] by blast
  have s2: "db_tasks s2 = db_tasks s" "db_gates s2 = db_gates s1" using 2 frame by (simp_all add: statement_frames)
  have "u = t" if "u \<in> set (db_tasks s)" "t_id u = i" for u
    using find_row_unique [OF assms(1) that(1)] t(1) that(2) by simp
  then have "db_gates s' = db_gates s2"
    by (intro quiet_update_keeps_gates [OF 3]) (use t(2) s2 in auto)
  then have gs: "db_gates s' = db_gates s @ [new_gate env gid run (Some i) KDecision [] question options None]"
    by (simp add: s2 gates)
  have "g = new_gate env gid run (Some i) KDecision [] question options None"
    using g fresh find_row_None [of g_id gid "db_gates s"] unfolding gs by (simp add: find_row_append)
  with gs t 2 3 frame show ?thesis by (simp add: statement_rows statement_frames)
qed

theorem decision_gate_blocks_witness:
  "distinct (map t_id (db_tasks demo_accepted)) \<and>
   (case create_orchestration_gate demo_env ''a'' ''ship it?'' [''yes'', ''no''] demo_accepted of
     (Inl _, _) \<Rightarrow> False
   | (Inr g, s') \<Rightarrow> g_status g = GPending \<and> map_option t_status (task_by_id ''a'' s') = Some TBlocked)"
proof -
  let ?r = "create_orchestration_gate demo_env ''a'' ''ship it?'' [''yes'', ''no''] demo_accepted"
  have run: "map t_id (db_tasks demo_accepted) = [''a'', ''b''] \<and> \<not> isl (fst ?r)" by code_simp
  then obtain g s' where r: "?r = (Inr g, s')" by (cases ?r; cases "fst ?r") auto
  have keyed: "distinct (map t_id (db_tasks demo_accepted))" using run by simp
  note ok = decision_gate_blocks [OF keyed r]
  then obtain t where t: "task_by_id ''a'' demo_accepted = Some t" by blast
  from ok have "task_by_id ''a'' s' = Some (t\<lparr>t_status := TBlocked\<rparr>)"
    using t find_row_Some [OF t] by (simp add: find_update_rows)
  with ok keyed show ?thesis by (simp add: r)
qed

section \<open>Stall gates\<close>

lemma find_append: "List.find p (xs @ ys) = (case List.find p xs of None \<Rightarrow> List.find p ys | Some x \<Rightarrow> Some x)"
  by (induction xs) auto

text \<open>
  A stalled task is asked about once.  A stall gate is opened only on a stalled task, and the gate returned
  is a pending gate of that task; asking again, with any question, returns the same gate and writes nothing.
\<close>

theorem stall_gate_is_asked_once:
  assumes "distinct (map g_id (db_gates s))"
    and "create_orchestration_stall_gate env i question s = (Inr g, s')"
  shows "g \<in> set (db_gates s') \<and> pending_task_gate i g
    \<and> map_option t_status (task_by_id i s') = Some TStalled
    \<and> create_orchestration_stall_gate env' i question' s' = (Inr g, s')"
proof -
  obtain t gid where t: "task_by_id i s = Some t" "t_status t = TStalled"
    and g: "find_row g_id gid (db_gates s') = Some g"
    and run: "(case List.find (pending_task_gate i) (db_gates s) of
          Some g \<Rightarrow> okT (g_id g)
        | None \<Rightarrow> insert_task_gate env KStall i question stall_gate_options) s = (Inr gid, s')"
    using assms(2) by (auto simp: create_orchestration_stall_gate_def txn_simps require_task_Inr require_gate_Inr)
  have found: "List.find (pending_task_gate i) (db_gates s') = Some g \<and> task_by_id i s' = Some t
      \<and> find_row g_id (g_id g) (db_gates s') = Some g"
  proof (cases "List.find (pending_task_gate i) (db_gates s)")
    case None
    with run obtain run_id where gs: "db_gates s' = db_gates s @ [new_gate env gid run_id (Some i) KStall [] question stall_gate_options None]"
      and "gid \<notin> g_id ` set (db_gates s)" "db_tasks s' = db_tasks s"
      using insert_task_gate_ok [of env KStall i question stall_gate_options s gid s'] by auto
    moreover from this g have "g = new_gate env gid run_id (Some i) KStall [] question stall_gate_options None"
      using find_row_None [of g_id gid "db_gates s"] by (simp add: find_row_append)
    moreover have "List.find (pending_task_gate i) (db_gates s @ xs) = List.find (pending_task_gate i) xs" for xs
      using None by (simp add: find_append)
    ultimately show ?thesis using g t(1) by (simp add: pending_task_gate_def)
  next
    case (Some g')
    then have "gid = g_id g'" "s' = s" using run by (auto simp: okT_def)
    moreover have "g' \<in> set (db_gates s)" using Some by (auto simp: find_Some_iff)
    ultimately show ?thesis using g find_row_unique [OF assms(1)] Some t(1) by auto
  qed
  then have "pending_task_gate i g" "g \<in> set (db_gates s')" by (auto simp: find_Some_iff)
  with found t(2) show ?thesis
    by (simp add: create_orchestration_stall_gate_def txn_run require_task_def require_gate_def of_option_def)
qed

text \<open>An accepted task whose worker went quiet.\<close>

definition demo_stalled :: db where
  "demo_stalled = snd (stall_expired_orchestration_dispatches demo_env 9 demo_accepted)"

theorem stall_gate_is_asked_once_witness:
  "distinct (map g_id (db_gates demo_stalled)) \<and>
   (case create_orchestration_stall_gate demo_env ''a'' ''quiet'' demo_stalled of
     (Inl _, _) \<Rightarrow> False
   | (Inr g, s') \<Rightarrow> create_orchestration_stall_gate demo_env ''a'' ''still quiet'' s' = (Inr g, s'))"
proof -
  let ?r = "create_orchestration_stall_gate demo_env ''a'' ''quiet'' demo_stalled"
  have run: "map g_id (db_gates demo_stalled) = [] \<and> \<not> isl (fst ?r)" by code_simp
  then obtain g s' where r: "?r = (Inr g, s')" by (cases ?r; cases "fst ?r") auto
  have keyed: "distinct (map g_id (db_gates demo_stalled))" using run by simp
  from stall_gate_is_asked_once [where env' = demo_env and question' = "''still quiet''", OF keyed r] keyed
  show ?thesis by (simp add: r)
qed

end
