(* ===== verification/Mailbox.thy ===== *)
theory Mailbox
  imports Message_Store
begin

text \<open>
  What the message store promises, and that it keeps the promise.  The specification is a mailbox of letters
  with a small lifecycle (\<open>letter_step\<close>); the message table with its SQL statements refines it: every call of
  the orchestration store and of the message store, failed calls included, is a finite run of mailbox steps
  under the abstraction \<open>mail_abs\<close>.  The delivery laws are proved for the mailbox and carried over.
\<close>

section \<open>The specification\<close>

record letter =
  l_from :: string
  l_to :: string
  l_subject :: string
  l_body :: string
  l_kind :: message_type
  l_delivery :: message_delivery
  l_posted :: nat
  l_deadline :: "timestamp option"
  l_phase :: message_state
  l_seen :: bool
  l_handed :: bool

record mailbox =
  mb_last :: nat
  mb_letters :: "string \<rightharpoonup> letter"

text \<open>
  A letter waits in the queue; it is handed over, read, withdrawn before it was handed over, or expires after
  its deadline.  A letter from an external inbox does not expire once handed over, and one that was handed over
  although it had expired counts as delivered.  A mark on a letter in any other phase leaves the phase alone.
\<close>

inductive letter_step :: "timestamp \<Rightarrow> letter \<Rightarrow> letter \<Rightarrow> bool" for now where
  hand: "l_phase l = SQueued \<or> (l_phase l = SExpired \<and> external (l_from l)) \<Longrightarrow>
    letter_step now l (l\<lparr>l_phase := SDelivered, l_handed := True\<rparr>)"
| hand_late: "\<not> (l_phase l = SQueued \<or> (l_phase l = SExpired \<and> external (l_from l))) \<Longrightarrow>
    letter_step now l (l\<lparr>l_handed := True\<rparr>)"
| consume: "l_phase l \<noteq> SObsolete \<Longrightarrow> letter_step now l (l\<lparr>l_phase := SRead, l_seen := True\<rparr>)"
| consume_withdrawn: "l_phase l = SObsolete \<Longrightarrow> letter_step now l (l\<lparr>l_seen := True\<rparr>)"
| expire: "l_deadline l = Some at \<Longrightarrow> at \<le> now \<Longrightarrow>
    l_phase l = SQueued \<or> (l_phase l = SDelivered \<and> \<not> external (l_from l)) \<Longrightarrow>
    letter_step now l (l\<lparr>l_phase := SExpired\<rparr>)"
| withdraw: "l_phase l = SQueued \<Longrightarrow> letter_step now l (l\<lparr>l_phase := SObsolete\<rparr>)"

text \<open>\<open>erase\<close> tells whether letters may be forgotten.\<close>

inductive mail_step :: "timestamp \<Rightarrow> bool \<Rightarrow> mailbox \<Rightarrow> mailbox \<Rightarrow> bool" for now erase where
  post: "mb_letters box i = None \<Longrightarrow> l_posted l = mb_last box + 1 \<Longrightarrow> l_phase l = SQueued \<Longrightarrow>
    \<not> l_seen l \<Longrightarrow> \<not> l_handed l \<Longrightarrow>
    mail_step now erase box (box\<lparr>mb_last := mb_last box + 1, mb_letters := (mb_letters box)(i \<mapsto> l)\<rparr>)"
| change: "mb_letters box i = Some l \<Longrightarrow> letter_step now l l' \<Longrightarrow>
    mail_step now erase box (box\<lparr>mb_letters := (mb_letters box)(i \<mapsto> l')\<rparr>)"
| forget: "erase \<Longrightarrow> mail_step now erase box (box\<lparr>mb_letters := (mb_letters box)(i := None)\<rparr>)"

inductive_cases letter_stepE: "letter_step now l l'"
inductive_cases mail_stepE: "mail_step now erase box box'"

text \<open>A letter that still has to be offered to its recipient.\<close>

definition pending :: "letter \<Rightarrow> bool" where
  "pending l \<longleftrightarrow> l_phase l = SQueued \<and> \<not> l_seen l \<and> \<not> l_handed l"

definition offered :: "nat \<Rightarrow> mailbox \<Rightarrow> bool" where
  "offered n box \<longleftrightarrow> (\<exists>i l. mb_letters box i = Some l \<and> l_posted l = n \<and> pending l)"

lemma letter_step_settles: "letter_step now l l' \<Longrightarrow> \<not> pending l' \<and> l_posted l' = l_posted l"
  by (erule letter_stepE) (auto simp: pending_def)

lemma letter_step_keeps:
  "letter_step now l l' \<Longrightarrow> l_to l' = l_to l \<and> l_from l' = l_from l \<and> l_subject l' = l_subject l
    \<and> l_body l' = l_body l \<and> l_kind l' = l_kind l \<and> l_deadline l' = l_deadline l"
  by (erule letter_stepE) auto

lemma mail_step_withdraws_offer:
  assumes "mail_step now erase box box'" "n \<le> mb_last box" "\<not> offered n box"
  shows "n \<le> mb_last box' \<and> \<not> offered n box'"
  using assms(1)
proof (cases rule: mail_step.cases)
  case (post i l)
  with assms(2,3) show ?thesis by (auto simp: offered_def)
next
  case (change i l l')
  with assms(2,3) letter_step_settles [OF change(3)] show ?thesis by (auto simp: offered_def)
next
  case (forget i)
  with assms(2,3) show ?thesis by (auto simp: offered_def)
qed

lemma mail_steps_last: "(mail_step now erase)\<^sup>*\<^sup>* box box' \<Longrightarrow> mb_last box \<le> mb_last box'"
  by (induction rule: rtranclp_induct) (auto elim!: mail_stepE)

text \<open>The clock moves between steps of a history.\<close>

definition mail_move :: "mailbox \<Rightarrow> mailbox \<Rightarrow> bool" where
  "mail_move box box' \<longleftrightarrow> (\<exists>now erase. mail_step now erase box box')"

lemma never_offered_again:
  assumes "mail_move\<^sup>*\<^sup>* box box'" "n \<le> mb_last box" "\<not> offered n box"
  shows "n \<le> mb_last box' \<and> \<not> offered n box'"
  using assms(1)
  by (induction rule: rtranclp_induct)
    (auto simp: assms mail_move_def dest: mail_step_withdraws_offer)

text \<open>Changes and deletions of several letters are a run.\<close>

lemma mail_steps_pointwise:
  assumes "finite A" "\<And>i. i \<notin> A \<Longrightarrow> L' i = L i"
    and "\<And>i. i \<in> A \<Longrightarrow> L' i = L i \<or> erase \<and> L' i = None
      \<or> (\<exists>l l'. L i = Some l \<and> L' i = Some l' \<and> letter_step now l l')"
  shows "(mail_step now erase)\<^sup>*\<^sup>* \<lparr>mb_last = n, mb_letters = L\<rparr> \<lparr>mb_last = n, mb_letters = L'\<rparr>"
  using assms
proof (induction A arbitrary: L' rule: finite_induct)
  case empty
  then have "L' = L" by auto
  then show ?case by simp
next
  case (insert a A)
  let ?M = "L'(a := L a)"
  let ?box = "\<lambda>X. \<lparr>mb_last = n, mb_letters = X\<rparr>"
  have run: "(mail_step now erase)\<^sup>*\<^sup>* (?box L) (?box ?M)"
    by (rule insert.IH) (use insert.prems insert.hyps in auto)
  have "L' = ?M \<or> mail_step now erase (?box ?M) (?box L')"
    using insert.prems(2) [of a, simplified]
  proof (elim disjE exE conjE)
    assume "L' a = L a"
    then show ?thesis by (auto simp: fun_upd_idem_iff)
  next
    assume erase "L' a = None"
    then have "L' = ?M(a := None)" by auto
    with \<open>erase\<close> show ?thesis using mail_step.forget [of erase now "?box ?M" a] by simp
  next
    fix l l'
    assume l: "L a = Some l" "L' a = Some l'" "letter_step now l l'"
    then have "L' = ?M(a \<mapsto> l')" by auto
    then show ?thesis using mail_step.change [of "?box ?M" a l now l' erase] l by simp
  qed
  with run show ?case by (auto intro: rtranclp.rtrancl_into_rtrancl)
qed

section \<open>The abstraction\<close>

definition letter_of :: "message \<Rightarrow> letter" where
  "letter_of m = \<lparr>l_from = m_from_handle m, l_to = m_to_handle m, l_subject = m_subject m, l_body = m_body m,
     l_kind = m_type m, l_delivery = m_delivery m, l_posted = m_sequence m, l_deadline = m_expires_at m,
     l_phase = m_state m,
     l_seen = m_read m, l_handed = (m_delivered_at m \<noteq> None)\<rparr>"

definition mail_abs :: "db \<Rightarrow> mailbox" where
  "mail_abs s = \<lparr>mb_last = db_message_sequence s, mb_letters = (\<lambda>i. map_option letter_of (message_by_id i s))\<rparr>"

text \<open>The message table: unique ids, and rows in the order of their sequence numbers, which are not reused.\<close>

definition mail_inv :: "db \<Rightarrow> bool" where
  "mail_inv s \<longleftrightarrow> distinct (map m_id (db_messages s)) \<and> sorted_wrt (<) (map m_sequence (db_messages s))
    \<and> (\<forall>m \<in> set (db_messages s). m_sequence m \<le> db_message_sequence s)"

definition mail_rel :: "timestamp \<Rightarrow> bool \<Rightarrow> db \<Rightarrow> db \<Rightarrow> bool" where
  "mail_rel now erase s s' \<longleftrightarrow> (mail_inv s \<longrightarrow> mail_inv s' \<and> (mail_step now erase)\<^sup>*\<^sup>* (mail_abs s) (mail_abs s'))"

interpretation mail: txn_preorder "mail_rel now erase" for now erase
  by unfold_locales (auto simp: mail_rel_def)

definition mail_view :: "db \<Rightarrow> message list \<times> nat" where
  "mail_view s = (db_messages s, db_message_sequence s)"

lemma mail_rel_view: "mail_view s' = mail_view s \<Longrightarrow> mail_rel now erase s s'"
  by (simp add: mail_rel_def mail_view_def mail_inv_def mail_abs_def message_by_id_def)

lemma mail_obeys_view: "obeys (same mail_view) m \<Longrightarrow> obeys (mail_rel now erase) m"
  by (auto simp: obeys_def same_def intro: mail_rel_view)

lemma view_of_aside: "obeys (same aside) m \<Longrightarrow> obeys (same mail_view) m"
  "obeys (same beside_events) n \<Longrightarrow> obeys (same mail_view) n"
  by (simp_all add: obeys_def same_def aside_def beside_events_def mail_view_def)

section \<open>Statements\<close>

lemma ids_of_rows: "finite {i. find_row m_id i rows \<noteq> None}"
  using finite_imageI [OF finite_set, of m_id rows] by (simp add: find_row_None Collect_neg_eq)

text \<open>An \<open>UPDATE\<close> that takes every row it hits along the lifecycle.\<close>

lemma update_messages_mail:
  assumes "\<And>m. p m \<Longrightarrow> m_id (f m) = m_id m" "\<And>m. p m \<Longrightarrow> m_sequence (f m) = m_sequence m"
    and "\<And>m. p m \<Longrightarrow> letter_of (f m) = letter_of m \<or> letter_step now (letter_of m) (letter_of (f m))"
  shows "obeys (mail_rel now erase) (update_messages env p f)"
proof (rule obeysI)
  fix s
  obtain r s' where run: "update_messages env p f s = (r, s')" by fastforce
  have "mail_rel now erase s s'"
  proof (cases r)
    case (Inl e)
    then have "s' = s" using run by (simp add: update_messages_def atomic_Inl_iff)
    then show ?thesis by (simp add: mail.R_refl)
  next
    case (Inr n)
    have rows: "db_messages s' = update_rows p f (db_messages s)" "db_message_sequence s' = db_message_sequence s"
      using update_messages_ok(2) [OF run [unfolded Inr]] by (simp_all add: message_aside_def)
    have keys: "map m_id (db_messages s') = map m_id (db_messages s)"
      "map m_sequence (db_messages s') = map m_sequence (db_messages s)"
      unfolding rows by (intro map_update_rows assms(1,2); assumption)+
    have seqs: "m_sequence ` set (db_messages s') = m_sequence ` set (db_messages s)"
      using keys(2) by (metis set_map)
    have find: "find_row m_id i (update_rows p f (db_messages s))
        = map_option (\<lambda>m. if p m then f m else m) (find_row m_id i (db_messages s))" for i
      by (rule find_update_rows) (rule assms(1))
    have "(mail_step now erase)\<^sup>*\<^sup>* (mail_abs s) (mail_abs s')"
      unfolding mail_abs_def rows(2) message_by_id_def rows(1) find
    proof (rule mail_steps_pointwise [OF ids_of_rows [of "db_messages s"]], goal_cases)
      case (2 i)
      then obtain m where "find_row m_id i (db_messages s) = Some m" by auto
      with assms(3) [of m] show ?case by (cases "p m") auto
    qed auto
    moreover have "mail_inv s'" if "mail_inv s"
      using that keys seqs rows(2) unfolding mail_inv_def
      by (metis (no_types, lifting) imageE imageI)
    ultimately show ?thesis by (simp add: mail_rel_def)
  qed
  then show "mail_rel now erase s (snd (update_messages env p f s))" by (simp add: run)
qed

lemma touch_revisions_fold:
  "mail_view (fold touch_message_revisions ms s) = mail_view s"
  by (induction ms arbitrary: s) (simp_all add: mail_view_def touch_message_revisions_def)

lemma find_row_filter:
  "distinct (map key rows) \<Longrightarrow> find_row key k (filter q rows)
    = (case find_row key k rows of None \<Rightarrow> None | Some r \<Rightarrow> if q r then Some r else None)"
  by (induction rows) (auto simp: image_iff split: option.splits dest!: find_row_Some)

lemma delete_messages_run:
  "\<exists>s'. delete_messages p s = (Inr (length (filter p (db_messages s))), s')
    \<and> mail_view s' = (filter (\<lambda>m. \<not> p m) (db_messages s), db_message_sequence s)"
  by (simp add: delete_messages_def txn_run touch_revisions_fold) (simp add: mail_view_def)

lemma delete_messages_mail: "obeys (mail_rel now True) (delete_messages p)"
proof (rule obeysI)
  fix s
  obtain s' where run: "snd (delete_messages p s) = s'"
    and view: "db_messages s' = filter (\<lambda>m. \<not> p m) (db_messages s)" "db_message_sequence s' = db_message_sequence s"
    using delete_messages_run [of p s] by (auto simp: mail_view_def)
  have "(mail_step now True)\<^sup>*\<^sup>* (mail_abs s) (mail_abs s')" if "distinct (map m_id (db_messages s))"
    unfolding mail_abs_def view(2) message_by_id_def view(1)
    by (rule mail_steps_pointwise [OF ids_of_rows [of "db_messages s"]])
      (use that in \<open>auto simp: find_row_filter split: if_splits\<close>)
  moreover have "mail_inv s'" if "mail_inv s"
    using that view by (auto simp: mail_inv_def distinct_map_filter sorted_wrt_map intro: sorted_wrt_filter)
  ultimately show "mail_rel now True s (snd (delete_messages p s))"
    by (auto simp: run mail_rel_def mail_inv_def)
qed

text \<open>An \<open>INSERT\<close> posts a letter.\<close>

lemma insert_message_mail:
  assumes "m_state m = SQueued" "\<not> m_read m" "m_delivered_at m = None"
  shows "obeys (mail_rel now erase) (insert_message env m)"
proof (rule obeysI)
  fix s
  obtain r s' where run: "insert_message env m s = (r, s')" by fastforce
  have "mail_rel now erase s s'"
  proof (cases r)
    case (Inl e)
    then have "s' = s" using run by (simp add: insert_message_def atomic_Inl_iff)
    then show ?thesis by (simp add: mail.R_refl)
  next
    case (Inr u)
    let ?row = "m\<lparr>m_sequence := db_message_sequence s + 1\<rparr>"
    have rows: "db_messages s' = db_messages s @ [?row]" "db_message_sequence s' = db_message_sequence s + 1"
      using insert_message_ok(2) [OF run [unfolded Inr]] by (simp_all add: message_aside_def)
    have fresh: "m_id m \<notin> m_id ` set (db_messages s)" by (rule insert_message_ok(1) [OF run [unfolded Inr]])
    have "mail_step now erase (mail_abs s) ((mail_abs s)\<lparr>mb_last := mb_last (mail_abs s) + 1,
        mb_letters := (mb_letters (mail_abs s))(m_id m \<mapsto> letter_of ?row)\<rparr>)"
      by (rule mail_step.post) (use fresh assms in \<open>auto simp: mail_abs_def message_by_id_def find_row_None letter_of_def\<close>)
    also have "(mail_abs s)\<lparr>mb_last := mb_last (mail_abs s) + 1,
        mb_letters := (mb_letters (mail_abs s))(m_id m \<mapsto> letter_of ?row)\<rparr> = mail_abs s'"
      using fresh [folded find_row_None]
      by (auto simp: mail_abs_def message_by_id_def rows find_row_append fun_eq_iff split: option.splits)
    finally have "(mail_step now erase)\<^sup>*\<^sup>* (mail_abs s) (mail_abs s')" by (rule r_into_rtranclp)
    moreover have "mail_inv s'" if "mail_inv s"
      using that fresh by (auto simp: mail_inv_def rows sorted_wrt_append le_Suc_eq)
    ultimately show ?thesis by (simp add: mail_rel_def)
  qed
  then show "mail_rel now erase s (snd (insert_message env m s))" by (simp add: run)
qed

section \<open>Calls\<close>

lemma draw_view: "obeys (same mail_view) (random_text env)"
  by (rule random_text_keeps) (simp add: mail_view_def)

lemma task_statements_view:
  "obeys (same mail_view) (insert_task env t)" "obeys (same mail_view) (update_tasks env p f)"
  by (simp_all add: obeys_def same_def mail_view_def insert_task_frame [OF surjective_pairing]
      update_tasks_frame [OF surjective_pairing])

lemma plain_statements_view:
  "obeys (same mail_view) (insert_dispatch d)" "obeys (same mail_view) (update_dispatches q g)"
  "obeys (same mail_view) (insert_gate x)" "obeys (same mail_view) (update_gates v h)"
  "obeys (same mail_view) (update_runs ok sets a b)" "obeys (same mail_view) (update_launches c l)"
  "obeys (same mail_view) (insert_run_event e)" "obeys (same mail_view) (insert_audit_event z)"
  unfolding insert_dispatch_def update_dispatches_def before_dispatch_insert_def before_dispatch_update_def
    insert_gate_def update_gates_def update_runs_def before_run_update_def update_launches_def
    insert_run_event_def insert_audit_event_def Let_def
  by (intro keeps.holds_intros keeps.holds_modify; simp add: same_def mail_view_def)+

lemma obsolete_mail: "obeys (mail_rel now erase) (obsolete_queued_messages env pm)"
  unfolding obsolete_queued_messages_def
  by (rule update_messages_mail) (auto simp: letter_of_def intro: letter_step.withdraw [THEN back_subst [of "letter_step now _"]])

interpretation mailing: store_relation "mail_rel now erase" for now erase
  by unfold_locales (rule obsolete_mail
      draw_view [THEN mail_obeys_view] task_statements_view [THEN mail_obeys_view]
      plain_statements_view [THEN mail_obeys_view])+

text \<open>The calls of the message store, and those of the orchestration store beside them.\<close>

datatype mail_call =
  Work store_call
| Post new_message
| Ask new_inbox_question
| Unread string "message_type list option"
| CoordinatorUnread string
| Undelivered string bool
| ForHandle string "message_type list option" int
| FromHandle string int
| Recent int
| MarkRead "string list"
| MarkDelivered "string list"
| MarkInboxRead "string list"
| ExpireInbox
| PendingFor string
| DeliveryMode string string
| CancelQuestion string json
| PurgeInbox string
| PruneInbox
| PruneConversations
| ResetMessages

text \<open>What a call needs from SQLite: \<open>json_set\<close> and \<open>json_extract\<close>.\<close>

record sql_json =
  sql_set :: "string \<Rightarrow> string \<Rightarrow> json \<Rightarrow> string option"
  sql_extract :: "string \<Rightarrow> string \<Rightarrow> json option"

fun run_mail :: "sql_json \<Rightarrow> env \<Rightarrow> mail_call \<Rightarrow> unit store" where
  "run_mail sql env (Work c) = run_call env c"
| "run_mail sql env (Post n) = thenT (insert_orchestration_message env n) (okT ())"
| "run_mail sql env (Ask q) = thenT (insert_inbox_question env q) (okT ())"
| "run_mail sql env (Unread h ts) = thenT (unread_orchestration_messages env h ts) (okT ())"
| "run_mail sql env (CoordinatorUnread h) =
     thenT (unread_orchestration_coordinator_messages (sql_extract sql) env h) (okT ())"
| "run_mail sql env (Undelivered h b) = thenT (undelivered_messages env h b) (okT ())"
| "run_mail sql env (ForHandle h ts n) = thenT (all_orchestration_messages_for_handle env h ts n) (okT ())"
| "run_mail sql env (FromHandle h n) = thenT (all_orchestration_messages_from_handle env h n) (okT ())"
| "run_mail sql env (Recent n) = thenT (recent_orchestration_messages env n) (okT ())"
| "run_mail sql env (MarkRead ids) = mark_orchestration_messages_read env ids"
| "run_mail sql env (MarkDelivered ids) = mark_orchestration_messages_delivered env ids"
| "run_mail sql env (MarkInboxRead ids) = thenT (mark_inbox_messages_read env ids) (okT ())"
| "run_mail sql env ExpireInbox = thenT (expire_inbox_questions env) (okT ())"
| "run_mail sql env (PendingFor h) = thenT (pending_inbox_questions_for env h) (okT ())"
| "run_mail sql env (DeliveryMode i mode) = set_message_delivery_mode (sql_set sql) env i mode"
| "run_mail sql env (CancelQuestion i c) = thenT (cancel_inbox_question (sql_set sql) env i c) (okT ())"
| "run_mail sql env (PurgeInbox inbox) = thenT (purge_inbox inbox) (okT ())"
| "run_mail sql env PruneInbox = thenT (prune_inbox_history env) (okT ())"
| "run_mail sql env PruneConversations = thenT (prune_conversation_history env) (okT ())"
| "run_mail sql env ResetMessages = reset_orchestration_messages"

text \<open>The only calls that delete messages.\<close>

fun erases :: "mail_call \<Rightarrow> bool" where
  "erases (PurgeInbox _) = True"
| "erases PruneInbox = True"
| "erases PruneConversations = True"
| "erases ResetMessages = True"
| "erases _ = False"

definition run_mails :: "sql_json \<Rightarrow> (env \<times> mail_call) list \<Rightarrow> db \<Rightarrow> db" where
  "run_mails sql cs s = foldl (\<lambda>s (env, c). snd (run_mail sql env c s)) s cs"

lemma letter_of_updates:
  "letter_of (m\<lparr>m_state := st\<rparr>) = (letter_of m)\<lparr>l_phase := st\<rparr>"
  "letter_of (m\<lparr>m_obsolete_at := at\<rparr>) = letter_of m"
  "letter_of (m\<lparr>m_external_meta := meta\<rparr>) = letter_of m"
  "letter_of (m\<lparr>m_read := b\<rparr>) = (letter_of m)\<lparr>l_seen := b\<rparr>"
  "letter_of (m\<lparr>m_delivered_at := d\<rparr>) = (letter_of m)\<lparr>l_handed := (d \<noteq> None)\<rparr>"
  by (simp_all add: letter_of_def)

lemma letter_of_fields [simp]:
  "l_phase (letter_of m) = m_state m" "l_from (letter_of m) = m_from_handle m" "l_to (letter_of m) = m_to_handle m"
  "l_deadline (letter_of m) = m_expires_at m" "l_posted (letter_of m) = m_sequence m"
  "l_seen (letter_of m) = m_read m" "l_handed (letter_of m) \<longleftrightarrow> m_delivered_at m \<noteq> None"
  by (simp_all add: letter_of_def)

lemma marked_fields [simp]:
  "m_id (read_message m) = m_id m" "m_sequence (read_message m) = m_sequence m"
  "m_id (delivered_message at m) = m_id m" "m_sequence (delivered_message at m) = m_sequence m"
  by (simp_all add: read_message_def delivered_message_def)

lemma read_message_step: "letter_step now (letter_of m) (letter_of (read_message m))"
proof (cases "m_state m = SObsolete")
  case True
  then have "letter_of (read_message m) = (letter_of m)\<lparr>l_seen := True\<rparr>"
    by (simp add: read_message_def letter_of_def)
  with True show ?thesis by (simp add: letter_step.consume_withdrawn)
next
  case False
  then have "letter_of (read_message m) = (letter_of m)\<lparr>l_phase := SRead, l_seen := True\<rparr>"
    by (simp add: read_message_def letter_of_def)
  with False show ?thesis by (simp add: letter_step.consume)
qed

lemma delivered_message_step: "letter_step now (letter_of m) (letter_of (delivered_message at m))"
proof (cases "m_state m = SQueued \<or> (m_state m = SExpired \<and> external (m_from_handle m))")
  case True
  then have "letter_of (delivered_message at m) = (letter_of m)\<lparr>l_phase := SDelivered, l_handed := True\<rparr>"
    by (simp add: delivered_message_def letter_of_def)
  with True show ?thesis by (simp add: letter_step.hand)
next
  case False
  then have "letter_of (delivered_message at m) = (letter_of m)\<lparr>l_handed := True\<rparr>"
    by (auto simp: delivered_message_def letter_of_def)
  with False show ?thesis by (simp add: letter_step.hand_late)
qed

lemma expired_message_step:
  "expirable now m \<Longrightarrow> letter_step now (letter_of m) (letter_of (m\<lparr>m_state := SExpired\<rparr>))"
  unfolding letter_of_updates by (auto simp: expirable_def intro: letter_step.expire split: option.splits)

lemma message_updates_mail:
  "obeys (mail_rel now erase) (update_messages env p read_message)"
  "obeys (mail_rel now erase) (update_messages env p (delivered_message at))"
  "obeys (mail_rel now erase) (update_messages env (expirable now) (\<lambda>m. m\<lparr>m_state := SExpired\<rparr>))"
  by (auto intro!: update_messages_mail read_message_step delivered_message_step expired_message_step)

lemma update_meta_mail:
  assumes "\<And>m. p m \<Longrightarrow> m_id (f m) = m_id m \<and> m_sequence (f m) = m_sequence m"
    and "\<And>m. p m \<Longrightarrow> letter_of (f m) = letter_of m \<or> letter_step now (letter_of m) (letter_of (f m))"
  shows "obeys (mail_rel now erase) (update_meta set_json env p path v f)"
  unfolding update_meta_def
  by (intro mail.holds_intros update_messages_mail) (use assms in \<open>auto simp: letter_of_updates\<close>)

lemma sweep_mail: "obeys (mail_rel (env_now env) erase) (expire_orchestration_messages env)"
  unfolding expire_orchestration_messages_def by (intro mail.holds_intros message_updates_mail)

lemma post_mail: "obeys (mail_rel now erase) (insert_orchestration_message env n)"
proof -
  have "obeys (mail_rel now erase) (insert_message env (message_of_new env i n))" for i
    by (rule insert_message_mail) (simp_all add: message_of_new_def)
  moreover have "obeys (mail_rel now erase) (escalation_event env i n)" for i
    unfolding escalation_event_def
    by (auto intro!: mail.holds_intros mailing.events split: message_type.split option.split)
  ultimately show ?thesis
    unfolding insert_orchestration_message_def by (intro mail.holds_intros mailing.ids)
qed

lemma ask_mail: "obeys (mail_rel (env_now env) erase) (insert_inbox_question env q)"
  unfolding insert_inbox_question_def pending_inbox_questions_for_def check_question_thread_def Let_def
  by (auto intro!: mail.holds_intros sweep_mail post_mail split: option.split)

lemma cancel_mail: "obeys (mail_rel (env_now env) erase) (cancel_inbox_question set_json env i c)"
proof -
  have "letter_step now (letter_of m) (letter_of (m\<lparr>m_state := SObsolete, m_obsolete_at := Some at\<rparr>))"
    if "waiting_question m" for m now at
    using that letter_step.withdraw [of "letter_of m"] by (simp add: waiting_question_def letter_of_updates)
  then show ?thesis
    unfolding cancel_inbox_question_def
    by (auto intro!: mail.holds_intros sweep_mail update_meta_mail split: option.split)
qed

lemma sum_for_mail: "(\<And>x. obeys (mail_rel now erase) (f x)) \<Longrightarrow> obeys (mail_rel now erase) (sum_for xs f)"
  by (induction xs) (auto intro!: mail.holds_intros)

lemma retention_mail:
  "obeys (mail_rel now True) (purge_inbox inbox)" "obeys (mail_rel (env_now env) True) (prune_inbox_history env)"
  "obeys (mail_rel now True) (prune_conversation_history env)" "obeys (mail_rel now True) reset_orchestration_messages"
  unfolding purge_inbox_def prune_inbox_history_def prune_conversation_history_def reset_orchestration_messages_def Let_def
  by (intro mail.holds_intros sum_for_mail delete_messages_mail sweep_mail)+

lemma run_mail_refines: "obeys (mail_rel (env_now env) (erases c)) (run_mail sql env c)"
proof (cases c)
  case (Work w)
  then show ?thesis by (simp add: mailing.calls)
qed (auto intro!: mail.holds_intros sweep_mail post_mail ask_mail cancel_mail retention_mail message_updates_mail update_meta_mail
    simp: unread_orchestration_messages_def unread_orchestration_coordinator_messages_def undelivered_messages_def
      all_orchestration_messages_for_handle_def all_orchestration_messages_from_handle_def
      recent_orchestration_messages_def mark_orchestration_messages_read_def
      mark_orchestration_messages_delivered_def mark_inbox_messages_read_def expire_inbox_questions_def
      pending_inbox_questions_for_def set_message_delivery_mode_def)

lemma run_mails_snoc: "run_mails sql (cs @ [(env, c)]) s = snd (run_mail sql env c (run_mails sql cs s))"
  by (simp add: run_mails_def)

lemma run_mails_refines:
  assumes "mail_inv s"
  shows "mail_inv (run_mails sql cs s) \<and> mail_move\<^sup>*\<^sup>* (mail_abs s) (mail_abs (run_mails sql cs s))"
proof (induction cs rule: rev_induct)
  case Nil
  then show ?case using assms by (simp add: run_mails_def)
next
  case (snoc x cs)
  obtain env c where x: "x = (env, c)" by fastforce
  have "mail_rel (env_now env) (erases c) (run_mails sql cs s) (run_mails sql (cs @ [x]) s)"
    using run_mail_refines [of env c sql] by (simp add: x run_mails_snoc obeys_def)
  moreover have "(mail_step now erase)\<^sup>*\<^sup>* a b \<Longrightarrow> mail_move\<^sup>*\<^sup>* a b" for now erase a b
    by (erule rtranclp_mono [THEN predicate2D, rotated]) (metis mail_move_def predicate2I)
  ultimately show ?case using snoc unfolding mail_rel_def by (meson rtranclp_trans)
qed

lemma empty_mail [simp]: "mail_inv empty_db"
  by (simp add: mail_inv_def empty_db_def)

section \<open>Delivery\<close>

text \<open>
  C4: The message store refines the mailbox.  From a well-formed message table every call, whether it
  succeeds or fails half way, leaves a well-formed table (unique ids, rows in the order of sequence numbers
  that are never reused) and is matched by a finite run of the mailbox: letters are posted with the next
  number, follow the lifecycle and keep their sender, recipient and text.  Only purging, pruning and
  resetting forget letters.
\<close>

theorem message_store_refines_mailbox:
  assumes "mail_inv s" "run_mail sql env c s = (r, s')"
  shows "mail_inv s' \<and> (mail_step (env_now env) (erases c))\<^sup>*\<^sup>* (mail_abs s) (mail_abs s')"
  using obeysD [OF run_mail_refines assms(2)] assms(1) by (simp add: mail_rel_def)

definition demo_sql :: sql_json where
  "demo_sql = \<lparr>sql_set = (\<lambda>text _ _. Some text), sql_extract = (\<lambda>_ _. Some JNull)\<rparr>"

definition demo_message :: new_message where
  "demo_message = \<lparr>nm_from_handle = ''a'', nm_to_handle = ''b'', nm_subject = ''s'', nm_body = ''hi'',
     nm_message_type = MStatus, nm_priority = PNormal, nm_thread_id = None, nm_payload = None, nm_run_id = None,
     nm_workspace_id = None, nm_task_id = None, nm_dispatch_id = None, nm_expires_at = None,
     nm_reply_to_id = None, nm_external_meta = None, nm_delivery = DeliverTurnEnd\<rparr>"

lemmas message_limits = orchestration_handle_max_bytes_def orchestration_subject_max_bytes_def
  orchestration_body_max_bytes_def orchestration_thread_id_max_bytes_def orchestration_payload_max_bytes_def

lemmas post_run = insert_orchestration_message_def validate_new_orchestration_message_def
  validate_message_field_def validate_optional_field_def message_limits insert_message_def message_of_new_def
  after_message_insert_def escalation_event_def touch_message_revisions_def message_by_id_def
  orchestration_id_run of_option_def txn_run

lemmas demo_run = post_run demo_message_def demo_env_def empty_db_def

theorem message_store_refines_mailbox_witness:
  "length (db_messages (snd (run_mail demo_sql demo_env (Post demo_message) empty_db))) = 1
    \<and> (mail_step 7 False)\<^sup>*\<^sup>* (mail_abs empty_db) (mail_abs (snd (run_mail demo_sql demo_env (Post demo_message) empty_db)))"
proof -
  have "length (db_messages (snd (run_mail demo_sql demo_env (Post demo_message) empty_db))) = 1"
    by (simp add: demo_run)
  with message_store_refines_mailbox [of empty_db demo_sql demo_env "Post demo_message", OF empty_mail surjective_pairing]
  show ?thesis by (simp add: demo_env_def)
qed

text \<open>What a read of the delivery queue returns.\<close>

lemma select_sorted:
  assumes "mail_inv s"
  shows "select_messages p s = filter p (db_messages s)"
    and "sorted_wrt (<) (map m_sequence (filter p (db_messages s)))"
proof -
  have *: "sorted_wrt (\<lambda>a b. m_sequence a < m_sequence b) (filter p (db_messages s))"
    using assms by (auto simp: mail_inv_def sorted_wrt_map intro: sorted_wrt_filter)
  then have "sorted (map m_sequence (filter p (db_messages s)))"
    unfolding sorted_map by (rule sorted_wrt_mono_rel [rotated]) simp
  then show "select_messages p s = filter p (db_messages s)"
    by (simp add: select_messages_def sort_key_id_if_sorted)
  show "sorted_wrt (<) (map m_sequence (filter p (db_messages s)))"
    using * by (simp add: sorted_wrt_map)
qed

lemma sweep_ok:
  assumes "expire_orchestration_messages env s = (Inr u, s')"
  shows "db_messages s' = update_rows (expirable (env_now env)) (\<lambda>m. m\<lparr>m_state := SExpired\<rparr>) (db_messages s)"
  using assms by (auto simp: expire_orchestration_messages_def txn_simps message_aside_def dest!: update_messages_ok(2))

lemma sweep_inv: "mail_inv s \<Longrightarrow> expire_orchestration_messages env s = (r, s') \<Longrightarrow> mail_inv s'"
  using obeysD [OF sweep_mail, of env s r s'] by (simp add: mail_rel_def)

definition overdue :: "timestamp \<Rightarrow> letter \<Rightarrow> bool" where
  "overdue now l \<longleftrightarrow> (case l_deadline l of None \<Rightarrow> False | Some at \<Rightarrow> at \<le> now)"

lemma filter_update_rows_settled:
  assumes "\<And>m. p m \<Longrightarrow> \<not> q (f m)"
  shows "filter q (update_rows p f rows) = filter (\<lambda>m. q m \<and> \<not> p m) rows"
  using assms by (induction rows) auto

lemma undelivered_rows:
  assumes "mail_inv s" "undelivered_messages env h now_only s = (Inr ms, s')"
  shows "ms = filter (\<lambda>m. m_to_handle m = h \<and> pending (letter_of m) \<and> \<not> overdue (env_now env) (letter_of m)
    \<and> (now_only \<longrightarrow> m_delivery m = DeliverNow)) (db_messages s)"
proof -
  let ?q = "\<lambda>m. m_to_handle m = h \<and> \<not> m_read m \<and> m_delivered_at m = None \<and> m_state m = SQueued
      \<and> (\<not> now_only \<or> m_delivery m = DeliverNow)"
  obtain u where sweep: "expire_orchestration_messages env s = (Inr u, s')" and ms: "ms = select_messages ?q s'"
    using assms(2) by (auto simp: undelivered_messages_def txn_simps)
  have "ms = filter ?q (db_messages s')"
    using select_sorted(1) [OF sweep_inv [OF assms(1) sweep]] ms by simp
  also have "\<dots> = filter (\<lambda>m. ?q m \<and> \<not> expirable (env_now env) m) (db_messages s)"
    unfolding sweep_ok [OF sweep] by (rule filter_update_rows_settled) simp
  also have "\<dots> = filter (\<lambda>m. m_to_handle m = h \<and> pending (letter_of m) \<and> \<not> overdue (env_now env) (letter_of m)
    \<and> (now_only \<longrightarrow> m_delivery m = DeliverNow)) (db_messages s)"
    by (rule filter_cong) (auto simp: pending_def overdue_def expirable_def)
  finally show ?thesis .
qed

text \<open>
  C16: The delivery queue is exact and in order.  A read of the undelivered messages of a terminal returns
  every letter addressed to it that is queued, unread, not yet handed over and not past its deadline, nothing
  else, and in the order of posting.
\<close>

theorem undelivered_is_the_pending_queue:
  assumes "mail_inv s" "undelivered_messages env h False s = (Inr ms, s')"
  shows "sorted_wrt (<) (map m_sequence ms)
    \<and> {(m_id m, letter_of m) | m. m \<in> set ms} = {(i, l) | i l. mb_letters (mail_abs s) i = Some l
         \<and> l_to l = h \<and> pending l \<and> \<not> overdue (env_now env) l}"
proof -
  note ms = undelivered_rows [OF assms]
  have "sorted_wrt (<) (map m_sequence ms)" unfolding ms by (rule select_sorted(2) [OF assms(1)])
  moreover have "find_row m_id (m_id m) (db_messages s) = Some m" if "m \<in> set (db_messages s)" for m
    using assms(1) that by (simp add: mail_inv_def find_row_unique)
  ultimately show ?thesis
    unfolding ms by (fastforce simp: mail_abs_def message_by_id_def dest: find_row_Some)
qed

definition demo_box :: db where
  "demo_box = empty_db\<lparr>db_messages := [(message_of_new demo_env ''msg_1'' demo_message)\<lparr>m_sequence := 1\<rparr>],
     db_message_sequence := 1\<rparr>"

lemma demo_box_inv: "mail_inv demo_box"
  by (simp add: mail_inv_def demo_box_def message_of_new_def)

lemma demo_box_undelivered:
  "undelivered_messages demo_env ''b'' False demo_box = (Inr (db_messages demo_box), demo_box)"
  by (simp add: undelivered_messages_def expire_orchestration_messages_def update_messages_def expirable_def
      select_messages_def demo_box_def demo_run)

theorem undelivered_is_the_pending_queue_witness:
  "undelivered_messages demo_env ''b'' False demo_box = (Inr (db_messages demo_box), demo_box)
    \<and> {(m_id m, letter_of m) | m. m \<in> set (db_messages demo_box)}
      = {(i, l) | i l. mb_letters (mail_abs demo_box) i = Some l \<and> l_to l = ''b'' \<and> pending l \<and> \<not> overdue 7 l}"
  using undelivered_is_the_pending_queue [OF demo_box_inv demo_box_undelivered] demo_box_undelivered
  by (simp add: demo_env_def)

lemma offered_row:
  assumes "mail_inv s"
  shows "offered n (mail_abs s) \<longleftrightarrow> (\<exists>m \<in> set (db_messages s). m_sequence m = n \<and> pending (letter_of m))"
proof -
  have "find_row m_id (m_id m) (db_messages s) = Some m" if "m \<in> set (db_messages s)" for m
    using assms that by (simp add: mail_inv_def find_row_unique)
  then show ?thesis
    unfolding offered_def mail_abs_def message_by_id_def
    by (fastforce dest: find_row_Some)
qed

lemma sequence_unique:
  assumes "mail_inv s" "a \<in> set (db_messages s)" "b \<in> set (db_messages s)" "m_sequence a = m_sequence b"
  shows "a = b"
proof -
  have "distinct (map m_sequence (db_messages s))"
    using assms(1) by (auto simp: mail_inv_def strict_sorted_iff)
  with assms(2-4) show ?thesis by (auto simp: distinct_map dest: inj_onD)
qed

text \<open>A row that an update settles is no longer offered.\<close>

lemma marked_not_offered:
  assumes "mail_inv s" "mail_inv s1" "m \<in> set (db_messages s)" "p m"
    and "db_messages s1 = update_rows p f (db_messages s)"
    and "\<And>m. m_sequence (f m) = m_sequence m" "\<And>m. \<not> pending (letter_of (f m))"
  shows "\<not> offered (m_sequence m) (mail_abs s1)"
proof
  assume "offered (m_sequence m) (mail_abs s1)"
  then obtain r where r: "r \<in> set (db_messages s1)" "m_sequence r = m_sequence m" "pending (letter_of r)"
    using offered_row [OF assms(2)] by auto
  with assms(5,7) have "r \<in> set (db_messages s)" "\<not> p r"
    by (auto simp: set_update_rows)
  with sequence_unique [OF assms(1) _ assms(3) r(2)] assms(4) show False by blast
qed

text \<open>A message that a call leaves without an offer is not returned by any later read.\<close>

lemma settled_stays_silent:
  assumes "mail_inv s" "mail_rel now erase s s1" "m \<in> set (db_messages s)"
    and "\<not> offered (m_sequence m) (mail_abs s1)"
    and "undelivered_messages env h now_only (run_mails sql cs s1) = (Inr ms, s2)"
  shows "m_sequence m \<notin> m_sequence ` set ms"
proof
  let ?s = "run_mails sql cs s1"
  have inv: "mail_inv s1" and "mb_last (mail_abs s) \<le> mb_last (mail_abs s1)"
    using assms(1,2) mail_steps_last by (auto simp: mail_rel_def)
  moreover have "m_sequence m \<le> mb_last (mail_abs s)"
    using assms(1,3) by (simp add: mail_inv_def mail_abs_def)
  ultimately have gone: "\<not> offered (m_sequence m) (mail_abs ?s)"
    using never_offered_again [OF _ _ assms(4)] run_mails_refines [OF inv] by (meson order_trans)
  assume "m_sequence m \<in> m_sequence ` set ms"
  then have "offered (m_sequence m) (mail_abs ?s)"
    using undelivered_rows [OF _ assms(5)] run_mails_refines [OF inv, of sql cs] offered_row [of ?s] by fastforce
  with gone show False by simp
qed

text \<open>
  C5: A message is offered for delivery at most once.  After it has been marked as delivered or read, no
  later read of a delivery queue returns the message again, whatever calls of the store happen in between,
  failed calls, expiries, cancellations, deletions and new messages included.  Messages are told apart by
  their sequence number, which a new message never reuses even after a reset.
\<close>

theorem offered_at_most_once:
  assumes "mail_inv s" "c \<in> {MarkDelivered ids, MarkRead ids}" "run_mail sql env c s = (Inr u, s1)"
    and "m \<in> set (db_messages s)" "m_id m \<in> set ids"
    and "undelivered_messages env' h now_only (run_mails sql cs s1) = (Inr ms, s2)"
  shows "m_sequence m \<notin> m_sequence ` set ms"
proof (rule settled_stays_silent [OF assms(1) _ assms(4) _ assms(6)])
  show rel: "mail_rel (env_now env) (erases c) s s1" by (rule obeysD [OF run_mail_refines assms(3)])
  with assms(1) have inv: "mail_inv s1" by (simp add: mail_rel_def)
  have unfinished: "\<not> pending (letter_of (read_message x))" "\<not> pending (letter_of (delivered_message at x))" for x at
    using read_message_step delivered_message_step letter_step_settles by blast+
  have "db_messages s1 = update_rows (\<lambda>m. m_id m \<in> set ids) read_message (db_messages s)
      \<or> db_messages s1 = update_rows (\<lambda>m. m_id m \<in> set ids) (delivered_message (env_now env)) (db_messages s)"
    using assms(2,3,5)
    by (auto simp: mark_orchestration_messages_delivered_def mark_orchestration_messages_read_def txn_simps
        message_aside_def dest!: update_messages_ok(2) split: if_splits)
  then show "\<not> offered (m_sequence m) (mail_abs s1)"
    by (elim disjE) (erule marked_not_offered [where p = "\<lambda>m. m_id m \<in> set ids", OF assms(1) inv assms(4,5)];
        simp add: unfinished)+
qed

definition demo_marked :: db where
  "demo_marked = snd (run_mail demo_sql demo_env (MarkDelivered [''msg_1'']) demo_box)"

theorem offered_at_most_once_witness:
  "\<exists>ms s2. undelivered_messages demo_env ''b'' False (run_mails demo_sql [(demo_env, Recent 5)] demo_marked) = (Inr ms, s2)
    \<and> 1 \<notin> m_sequence ` set ms"
proof -
  have 1: "run_mail demo_sql demo_env (MarkDelivered [''msg_1'']) demo_box = (Inr (), demo_marked)"
    by (simp add: demo_marked_def mark_orchestration_messages_delivered_def demo_box_def update_messages_def
        after_message_update_def delivered_message_def like_external_def demo_run)
  obtain m where m: "m \<in> set (db_messages demo_box)" "m_id m \<in> set [''msg_1'']" "m_sequence m = 1"
    by (simp add: demo_box_def message_of_new_def)
  have "\<not> isl (fst (undelivered_messages demo_env ''b'' False (run_mails demo_sql [(demo_env, Recent 5)] demo_marked)))"
    by (simp add: demo_marked_def run_mails_def recent_orchestration_messages_def expire_orchestration_messages_def
        expirable_def undelivered_messages_def mark_orchestration_messages_delivered_def demo_box_def
        update_messages_def after_message_update_def delivered_message_def like_external_def demo_run)
  then obtain ms s2 where r: "undelivered_messages demo_env ''b'' False
      (run_mails demo_sql [(demo_env, Recent 5)] demo_marked) = (Inr ms, s2)"
    by (metis isl_def prod.collapse sum.collapse(2) sum.disc_eq_case(1) old.sum.exhaust)
  with offered_at_most_once [OF demo_box_inv _ 1 m(1,2) r] m(3) show ?thesis by auto
qed

end
