(* ===== verification/Inbox_Laws.thy ===== *)
theory Inbox_Laws
  imports Mailbox
begin

text \<open>
  Laws of the external inboxes: the bound on questions waiting for one agent, which holds over every history
  of calls, and what the retention sweep keeps.
\<close>

section \<open>Waiting questions\<close>

definition waiting_for :: "string \<Rightarrow> db \<Rightarrow> nat" where
  "waiting_for r s = length (filter (\<lambda>m. m_to_handle m = r \<and> waiting_question m) (db_messages s))"

text \<open>No agent has more questions waiting than before.\<close>

definition no_new_questions :: "db \<Rightarrow> db \<Rightarrow> bool" where
  "no_new_questions s s' \<longleftrightarrow> (\<forall>r. waiting_for r s' \<le> waiting_for r s)"

interpretation calm_inbox: txn_preorder no_new_questions
  by unfold_locales (auto simp: no_new_questions_def intro: order_trans)

lemma calm_view: "obeys (same mail_view) m \<Longrightarrow> obeys no_new_questions m"
  by (simp add: obeys_def same_def mail_view_def no_new_questions_def waiting_for_def)

lemma length_filter_update_rows:
  assumes "\<And>m. p m \<Longrightarrow> q (f m) \<Longrightarrow> q m"
  shows "length (filter q (update_rows p f rows)) \<le> length (filter q rows)"
  using assms by (induction rows) (auto simp: le_SucI)

lemma length_filter_filter: "length (filter q (filter p rows)) \<le> length (filter q rows)"
  by (induction rows) auto

lemma update_messages_calm:
  assumes "\<And>m. p m \<Longrightarrow> m_to_handle (f m) = m_to_handle m" "\<And>m. p m \<Longrightarrow> waiting_question (f m) \<Longrightarrow> waiting_question m"
  shows "obeys no_new_questions (update_messages env p f)"
proof (rule obeysI)
  fix s
  obtain r s' where run: "update_messages env p f s = (r, s')" by fastforce
  have "db_messages s' = db_messages s \<or> db_messages s' = update_rows p f (db_messages s)"
    using run by (cases r) (auto dest: update_messages_rows atomic_unchanged(4))
  with assms show "no_new_questions s (snd (update_messages env p f s))"
    by (auto simp: run no_new_questions_def waiting_for_def intro!: length_filter_update_rows)
qed

lemma delete_messages_calm: "obeys no_new_questions (delete_messages p)"
proof (rule obeysI)
  fix s
  have "db_messages (snd (delete_messages p s)) = filter (\<lambda>m. \<not> p m) (db_messages s)"
    using delete_messages_run [of p s] by (auto simp: mail_view_def)
  then show "no_new_questions s (snd (delete_messages p s))"
    by (simp only: no_new_questions_def waiting_for_def length_filter_filter simp_thms)
qed

lemma obsolete_calm: "obeys no_new_questions (obsolete_queued_messages env pm)"
  unfolding obsolete_queued_messages_def by (rule update_messages_calm) (auto simp: waiting_question_def)

interpretation quiet_inbox: store_relation no_new_questions
  by unfold_locales (rule obsolete_calm draw_view [THEN calm_view] task_statements_view [THEN calm_view]
      plain_statements_view [THEN calm_view])+

text \<open>The only statement that adds a waiting question is the insertion of a message from an inbox.\<close>

lemma insert_message_waiting:
  "waiting_for r (snd (insert_message env m s)) \<le> waiting_for r s + of_bool (m_to_handle m = r \<and> external (m_from_handle m))"
proof -
  obtain q s' where run: "insert_message env m s = (q, s')" by fastforce
  have "db_messages s' = db_messages s \<or> db_messages s' = db_messages s @ [m\<lparr>m_sequence := db_message_sequence s + 1\<rparr>]"
    using run by (cases q) (auto simp: message_aside_def dest: insert_message_ok(2) atomic_unchanged(3))
  then show ?thesis by (auto simp: run waiting_for_def waiting_question_def)
qed

lemma post_waiting:
  assumes "insert_orchestration_message env n s = (q, s')"
  shows "waiting_for r s' \<le> waiting_for r s + of_bool (nm_to_handle n = r \<and> external (nm_from_handle n))"
proof -
  let ?i = "''msg_'' @ take 16 (env_random env (db_draws s))"
  let ?s = "s\<lparr>db_draws := db_draws s + 1\<rparr>"
  let ?new = "message_of_new env ?i n"
  let ?m = "thenT (insert_message env ?new) (escalation_event env ?i n)"
  have event: "obeys no_new_questions (escalation_event env ?i n)"
    unfolding escalation_event_def
    by (auto intro!: calm_inbox.holds_intros quiet_inbox.events split: message_type.split option.split)
  have "waiting_for r (snd (?m ?s)) \<le> waiting_for r (snd (insert_message env ?new ?s))"
    using event by (auto simp: thenT_def bindT_def obeys_def no_new_questions_def split: prod.split sum.split)
  then have "waiting_for r (snd (atomic ?m ?s)) \<le> waiting_for r s + of_bool (nm_to_handle n = r \<and> external (nm_from_handle n))"
    using insert_message_waiting [of r env ?new ?s]
    by (auto simp: atomic_def message_of_new_def waiting_for_def split: prod.split sum.split)
  moreover have "s' = s \<or> s' = snd (atomic ?m ?s)"
    using assms by (auto simp: insert_orchestration_message_def thenT_def bindT_def liftT_def orchestration_id_run getsT_def
        split: sum.splits prod.splits)
  ultimately show ?thesis by auto
qed

lemma message_updates_calm:
  "obeys no_new_questions (update_messages env p read_message)"
  "obeys no_new_questions (update_messages env p (delivered_message at))"
  "obeys no_new_questions (update_messages env p (\<lambda>m. m\<lparr>m_state := SExpired\<rparr>))"
  by (auto intro!: update_messages_calm
      simp: read_message_def delivered_message_def waiting_question_def split: if_splits)

lemma sweep_calm: "obeys no_new_questions (expire_orchestration_messages env)"
  unfolding expire_orchestration_messages_def by (intro calm_inbox.holds_intros message_updates_calm)

lemma waiting_question_meta [simp]: "waiting_question (m\<lparr>m_external_meta := x\<rparr>) = waiting_question m"
  by (simp add: waiting_question_def)

lemma update_meta_calm:
  assumes "\<And>m. m_to_handle (f m) = m_to_handle m" "\<And>m. waiting_question (f m) \<Longrightarrow> waiting_question m"
  shows "obeys no_new_questions (update_meta set_json env p path v f)"
  unfolding update_meta_def
  by (intro calm_inbox.holds_intros update_messages_calm) (simp_all add: assms)

lemma cancel_calm: "obeys no_new_questions (cancel_inbox_question set_json env i c)"
  unfolding cancel_inbox_question_def
  by (auto intro!: calm_inbox.holds_intros sweep_calm update_meta_calm simp: waiting_question_def split: option.split)

lemma sum_for_calm: "(\<And>x. obeys no_new_questions (f x)) \<Longrightarrow> obeys no_new_questions (sum_for xs f)"
  by (induction xs) (auto intro!: calm_inbox.holds_intros)

lemma retention_calm:
  "obeys no_new_questions (purge_inbox inbox)" "obeys no_new_questions (prune_inbox_history env)"
  "obeys no_new_questions (prune_conversation_history env)" "obeys no_new_questions reset_orchestration_messages"
  unfolding purge_inbox_def prune_inbox_history_def prune_conversation_history_def reset_orchestration_messages_def Let_def
  by (intro calm_inbox.holds_intros sum_for_calm delete_messages_calm sweep_calm)+

text \<open>A message between agents, and every call but a question.\<close>

fun from_agents :: "mail_call \<Rightarrow> bool" where
  "from_agents (Post n) \<longleftrightarrow> \<not> external (nm_from_handle n)"
| "from_agents _ \<longleftrightarrow> True"

lemma run_mail_calm:
  assumes "from_agents c" "\<And>q. c \<noteq> Ask q"
  shows "obeys no_new_questions (run_mail sql env c)"
proof (cases c)
  case (Work w)
  then show ?thesis by (simp add: quiet_inbox.calls)
next
  case (Post n)
  have "no_new_questions s (snd (insert_orchestration_message env n s))" for s
    using post_waiting [of env n s] assms(1) Post by (simp add: no_new_questions_def) (metis prod.collapse)
  then have "obeys no_new_questions (insert_orchestration_message env n)" by (rule obeysI)
  then show ?thesis by (auto simp: Post intro!: calm_inbox.holds_intros)
qed (use assms(2) in \<open>auto intro!: calm_inbox.holds_intros sweep_calm cancel_calm retention_calm message_updates_calm update_meta_calm
    simp: unread_orchestration_messages_def unread_orchestration_coordinator_messages_def undelivered_messages_def
      all_orchestration_messages_for_handle_def all_orchestration_messages_from_handle_def
      recent_orchestration_messages_def mark_orchestration_messages_read_def
      mark_orchestration_messages_delivered_def mark_inbox_messages_read_def expire_inbox_questions_def
      pending_inbox_questions_for_def set_message_delivery_mode_def\<close>)

definition questions_bounded :: "db \<Rightarrow> bool" where
  "questions_bounded s \<longleftrightarrow> (\<forall>r. waiting_for r s \<le> inbox_pending_limit)"

lemma bounded_calm: "no_new_questions s s' \<Longrightarrow> questions_bounded s \<Longrightarrow> questions_bounded s'"
  unfolding no_new_questions_def questions_bounded_def by (meson order_trans)

lemma preserves_calm: "obeys no_new_questions m \<Longrightarrow> preserves questions_bounded m"
  by (auto simp: obeys_def preserves_def intro: bounded_calm)

lemma question_external: "validate_inbox_address i = Inr u \<Longrightarrow> external i"
  by (auto simp: validate_inbox_address_def is_external_inbox_def external_def prefix_def split: if_splits)

lemma asked_message_bounded:
  assumes "questions_bounded s" "waiting_for (nm_to_handle n) s < inbox_pending_limit"
  shows "questions_bounded (snd (insert_orchestration_message env n s))"
  unfolding questions_bounded_def
proof
  fix r
  show "waiting_for r (snd (insert_orchestration_message env n s)) \<le> inbox_pending_limit"
    using post_waiting [OF surjective_pairing, of r env n s] assms unfolding questions_bounded_def
    by (cases "nm_to_handle n = r \<and> external (nm_from_handle n)") (auto intro: order_trans)
qed

lemma insert_inbox_question_bounded: "preserves questions_bounded (insert_inbox_question env q)"
proof -
  have "preserves questions_bounded (bindT (pending_inbox_questions_for env (nq_recipient q)) (\<lambda>pending.
    thenT (guardT (pending < inbox_pending_limit) msg) (insert_orchestration_message env (question_message env q meta e))))"
    for msg meta e
  proof (rule preservesI)
    fix s r s'
    assume b: "questions_bounded s"
      and run: "bindT (pending_inbox_questions_for env (nq_recipient q)) (\<lambda>pending.
        thenT (guardT (pending < inbox_pending_limit) msg)
          (insert_orchestration_message env (question_message env q meta e))) s = (r, s')"
    obtain x s1 where sweep: "expire_orchestration_messages env s = (x, s1)" by fastforce
    have "questions_bounded s1" by (rule bounded_calm [OF obeysD [OF sweep_calm sweep] b])
    moreover have "s' = s1 \<or> (waiting_for (nq_recipient q) s1 < inbox_pending_limit
        \<and> s' = snd (insert_orchestration_message env (question_message env q meta e) s1))"
      using run sweep
      by (auto simp: pending_inbox_questions_for_def waiting_for_def bindT_def thenT_def getsT_def guardT_def split: sum.splits if_splits)
    ultimately show "questions_bounded s'"
      using asked_message_bounded [of s1 "question_message env q meta e"] by (auto simp: question_message_def)
  qed
  moreover have "preserves questions_bounded (check_question_thread q)"
    unfolding check_question_thread_def by (auto intro!: preserves_intros split: option.split)
  ultimately show ?thesis
    unfolding insert_inbox_question_def Let_def by (intro preserves_then preserves_basic)
qed

text \<open>
  C17: No agent ever has more than a hundred questions waiting.  Whatever calls of the store are made, failed
  ones included, when messages posted outside the inbox come from agents, as the request layer ensures, the
  questions from all inboxes together that wait for one recipient stay within the limit: the check runs after
  the deadline sweep, and nothing turns a settled question into a waiting one.
\<close>

theorem waiting_questions_bounded:
  assumes "\<forall>(env, c) \<in> set cs. from_agents c"
  shows "waiting_for r (run_mails sql cs empty_db) \<le> 100"
proof -
  have "questions_bounded (run_mails sql cs empty_db)"
    using assms
  proof (induction cs rule: rev_induct)
    case Nil
    then show ?case by (simp add: run_mails_def questions_bounded_def waiting_for_def empty_db_def)
  next
    case (snoc x cs)
    obtain env c where x: "x = (env, c)" by fastforce
    have "preserves questions_bounded (run_mail sql env c)"
    proof (cases "\<exists>q. c = Ask q")
      case True
      then show ?thesis by (auto intro!: preserves_intros insert_inbox_question_bounded)
    next
      case False
      then show ?thesis using snoc(2) by (auto simp: x intro!: preserves_calm run_mail_calm)
    qed
    with snoc show ?case by (auto simp: x run_mails_snoc preserves_def)
  qed
  then show ?thesis by (simp add: questions_bounded_def inbox_pending_limit_def)
qed

definition demo_question :: new_inbox_question where
  "demo_question = \<lparr>nq_delivery = DeliverTurnEnd, nq_inbox = ''ext:u'', nq_recipient = ''b'', nq_subject = ''s'',
     nq_body = ''why'', nq_priority = PNormal, nq_thread_id = None, nq_workspace_id = None, nq_payload = None,
     nq_expires_in_seconds = None, nq_external_meta = JNull\<rparr>"

lemmas ask_run = insert_inbox_question_def validate_inbox_address_def is_external_inbox_def lowercase_or_digit_def
  inbox_name_max_bytes_def inbox_default_expiry_seconds_def inbox_min_expiry_seconds_def
  inbox_max_expiry_seconds_def inbox_external_meta_max_bytes_def check_question_thread_def
  pending_inbox_questions_for_def expire_orchestration_messages_def update_messages_def inbox_pending_limit_def
  question_message_def waiting_question_def external_def

theorem waiting_questions_bounded_witness:
  "waiting_for ''b'' (run_mails demo_sql [(demo_env, Ask demo_question)] empty_db) = 1
    \<and> waiting_for ''b'' (run_mails demo_sql [(demo_env, Ask demo_question)] empty_db) \<le> 100"
proof -
  have "waiting_for ''b'' (run_mails demo_sql [(demo_env, Ask demo_question)] empty_db) = 1"
    by (simp add: waiting_for_def run_mails_def demo_question_def ask_run demo_run less_eq_char_def Let_def)
  with waiting_questions_bounded [of "[(demo_env, Ask demo_question)]" "''b''" demo_sql] show ?thesis by simp
qed

section \<open>Retention\<close>

lemma set_chunks_of: "set (concat (chunks_of n xs)) = set xs"
proof (induction n xs rule: chunks_of.induct)
  case (2 n x xs)
  have "set (take (n - 1) xs) \<union> set (drop (n - 1) xs) = set xs"
    by (metis append_take_drop_id set_append)
  with 2 show ?case by auto
qed simp

lemma delete_messages_ok:
  "delete_messages p s = (r, s') \<Longrightarrow> db_messages s' = filter (\<lambda>m. \<not> p m) (db_messages s)"
  using delete_messages_run [of p s] by (auto simp: mail_view_def)

lemma sum_for_deletes:
  "sum_for xs (\<lambda>x. delete_messages (p x)) s = (Inr n, s') \<Longrightarrow>
    db_messages s' = filter (\<lambda>m. \<forall>x \<in> set xs. \<not> p x m) (db_messages s)"
proof (induction xs arbitrary: s n)
  case (Cons x xs)
  then obtain a s1 b where "delete_messages (p x) s = (Inr a, s1)" "sum_for xs (\<lambda>x. delete_messages (p x)) s1 = (Inr b, s')"
    by (auto simp: txn_simps)
  with Cons.IH delete_messages_ok show ?case by (fastforce intro: filter_cong)
qed (simp add: okT_def)

lemma batched_threads:
  "(\<forall>chunk \<in> set (chunks_of n roots). \<not> (m_id m \<in> set chunk \<or> in_threads chunk m)) \<longleftrightarrow>
    \<not> (m_id m \<in> set roots \<or> in_threads roots m)"
  using set_chunks_of [of n roots] by (auto simp: in_threads_def split: option.splits)

lemma prune_rows:
  assumes "prune_inbox_history env s = (Inr n, s')"
  obtains s1 where "expire_orchestration_messages env s = (Inr (), s1)"
    "db_messages s' = (let cutoff = env_now env - inbox_history_seconds; roots = idle_roots cutoff (db_messages s1);
       kept = filter (\<lambda>m. \<not> (m_id m \<in> set roots \<or> in_threads roots m)) (db_messages s1)
     in filter (\<lambda>m. \<not> loose_message cutoff kept m) kept)"
proof -
  let ?cutoff = "env_now env - inbox_history_seconds"
  from assms obtain s1 where sweep: "expire_orchestration_messages env s = (Inr (), s1)"
    and run: "\<exists>a s2 b. sum_for (chunks_of delete_batch (idle_roots ?cutoff (db_messages s1)))
         (\<lambda>chunk. delete_messages (\<lambda>m. m_id m \<in> set chunk \<or> in_threads chunk m)) s1 = (Inr a, s2)
      \<and> delete_messages (loose_message ?cutoff (db_messages s2)) s2 = (Inr b, s')"
    by (auto simp: prune_inbox_history_def Let_def txn_simps)
  from run obtain a s2 b where
    1: "sum_for (chunks_of delete_batch (idle_roots ?cutoff (db_messages s1)))
         (\<lambda>chunk. delete_messages (\<lambda>m. m_id m \<in> set chunk \<or> in_threads chunk m)) s1 = (Inr a, s2)"
    and 2: "delete_messages (loose_message ?cutoff (db_messages s2)) s2 = (Inr b, s')" by blast
  show thesis
    by (rule that [OF sweep]) (simp only: Let_def delete_messages_ok [OF 2] sum_for_deletes [OF 1] batched_threads)
qed

text \<open>The sweep changes only states, and settles exactly the overdue questions.\<close>

definition swept :: "timestamp \<Rightarrow> message \<Rightarrow> message" where
  "swept now m = (if expirable now m then m\<lparr>m_state := SExpired\<rparr> else m)"

lemma swept_fields [simp]:
  "m_id (swept now m) = m_id m" "m_thread_id (swept now m) = m_thread_id m"
  "m_from_handle (swept now m) = m_from_handle m" "m_to_handle (swept now m) = m_to_handle m"
  "m_created_at (swept now m) = m_created_at m" "thread_member r (swept now m) = thread_member r m"
  "waiting_question (swept now m) \<longleftrightarrow> waiting_question m \<and> \<not> overdue now (letter_of m)"
  by (auto simp: swept_def thread_member_def waiting_question_def expirable_def overdue_def split: option.splits)

lemma sweep_rows: "expire_orchestration_messages env s = (Inr u, s') \<Longrightarrow> db_messages s' = map (swept (env_now env)) (db_messages s)"
  by (drule sweep_ok) (simp add: update_rows_def swept_def [abs_def])

text \<open>A question that opened a thread stays with the whole thread, or goes with it.\<close>

lemma idle_root_iff:
  assumes "distinct (map m_id ms)" "r \<in> set ms" "external (m_from_handle r)" "m_thread_id r = None"
  shows "m_id r \<in> set (idle_roots cutoff ms) \<longleftrightarrow>
    \<not> (\<exists>m \<in> set ms. thread_member (m_id r) m \<and> (cutoff \<le> m_created_at m \<or> waiting_question m))"
proof -
  have "x = r" if "x \<in> set ms" "m_id x = m_id r" for x
    using assms(1,2) that by (auto simp: distinct_map dest: inj_onD)
  then show ?thesis using assms(2-4) by (auto simp: idle_roots_def)
qed

lemma idle_roots_open: "i \<in> set (idle_roots cutoff ms) \<Longrightarrow> \<exists>x \<in> set ms. m_id x = i \<and> m_thread_id x = None"
  by (auto simp: idle_roots_def)

lemma thread_kept_or_gone:
  fixes cutoff :: timestamp
  assumes inv: "distinct (map m_id ms)" and r: "r \<in> set ms" "external (m_from_handle r)" "m_thread_id r = None"
    and m: "m \<in> set ms" "thread_member (m_id r) m"
  defines "roots \<equiv> idle_roots cutoff ms"
  defines "kept \<equiv> filter (\<lambda>m. \<not> (m_id m \<in> set roots \<or> in_threads roots m)) ms"
  shows "m \<in> set kept \<and> \<not> loose_message cutoff kept m \<longleftrightarrow> m_id r \<notin> set roots"
proof -
  have same: "x = y" if "x \<in> set ms" "y \<in> set ms" "m_id x = m_id y" for x y
    using inv that by (auto simp: distinct_map dest: inj_onD)
  have root: "m_id m \<in> set roots \<or> in_threads roots m \<longleftrightarrow> m_id r \<in> set roots"
  proof (cases "m_thread_id m")
    case None
    then show ?thesis using m by (simp add: thread_member_def in_threads_def)
  next
    case (Some t)
    have "m_id m \<notin> set roots"
      using idle_roots_open [of "m_id m" cutoff ms] Some same m(1) unfolding roots_def by fastforce
    then show ?thesis using m Some same [OF m(1) r(1)] r(3) by (auto simp: thread_member_def in_threads_def)
  qed
  have "\<not> loose_message cutoff kept m" if "m_id r \<notin> set roots"
  proof -
    have "r \<in> set kept" using r that by (auto simp: kept_def in_threads_def)
    then show ?thesis using m(2) r(2,3) same [OF m(1) r(1)] by (auto simp: loose_message_def thread_member_def)
  qed
  with root m(1) show ?thesis by (auto simp: kept_def)
qed

text \<open>A thread that a question of an inbox opened is kept or removed as a whole.\<close>

lemma question_threads_whole:
  assumes "mail_inv s" "prune_inbox_history env s = (Inr n, s')"
    and "r \<in> set (db_messages s)" "external (m_from_handle r)" "m_thread_id r = None"
  shows "{m_id m | m. m \<in> set (db_messages s') \<and> thread_member (m_id r) m} =
    (if \<exists>m \<in> set (db_messages s). thread_member (m_id r) m
          \<and> (env_now env - inbox_history_seconds \<le> m_created_at m
             \<or> waiting_question m \<and> \<not> overdue (env_now env) (letter_of m))
     then {m_id m | m. m \<in> set (db_messages s) \<and> thread_member (m_id r) m} else {})"
proof -
  let ?c = "env_now env - inbox_history_seconds"
  obtain s1 where sweep: "expire_orchestration_messages env s = (Inr (), s1)"
    and rows: "db_messages s' = (let roots = idle_roots ?c (db_messages s1);
       kept = filter (\<lambda>m. \<not> (m_id m \<in> set roots \<or> in_threads roots m)) (db_messages s1)
     in filter (\<lambda>m. \<not> loose_message ?c kept m) kept)"
    using prune_rows [OF assms(2)] by (auto simp: Let_def)
  note s1 = sweep_rows [OF sweep]
  have inv: "distinct (map m_id (db_messages s1))" using assms(1) by (simp add: s1 mail_inv_def comp_def)
  define r1 where "r1 = swept (env_now env) r"
  have r1: "r1 \<in> set (db_messages s1)" "external (m_from_handle r1)" "m_thread_id r1 = None" "m_id r1 = m_id r"
    using assms(3-5) by (auto simp: s1 r1_def)
  have "m \<in> set (db_messages s') \<longleftrightarrow> m_id r \<notin> set (idle_roots ?c (db_messages s1))"
    if "m \<in> set (db_messages s1)" "thread_member (m_id r) m" for m
    using thread_kept_or_gone [OF inv r1(1-3) that(1), unfolded r1(4), OF that(2)] by (auto simp: rows Let_def)
  moreover have "set (db_messages s') \<subseteq> set (db_messages s1)" by (auto simp: rows Let_def)
  ultimately have "{m_id m | m. m \<in> set (db_messages s') \<and> thread_member (m_id r) m} =
      (if m_id r \<notin> set (idle_roots ?c (db_messages s1))
       then {m_id m | m. m \<in> set (db_messages s1) \<and> thread_member (m_id r) m} else {})"
    by auto
  also have "{m_id m | m. m \<in> set (db_messages s1) \<and> thread_member (m_id r) m}
      = {m_id m | m. m \<in> set (db_messages s) \<and> thread_member (m_id r) m}"
    by (auto simp: s1) (metis imageI swept_fields(1,6))
  finally show ?thesis
    using idle_root_iff [OF inv r1(1-3), of ?c] by (simp add: s1 r1(4))
qed

text \<open>The first message of a thread that an agent opened towards an inbox is a loose one.\<close>

lemma agent_root_removed:
  assumes "mail_inv s" "prune_inbox_history env s = (Inr n, s')"
    and "r \<in> set (db_messages s)" "\<not> external (m_from_handle r)" "external (m_to_handle r)" "m_thread_id r = None"
    and "m_created_at r < env_now env - inbox_history_seconds"
  shows "m_id r \<notin> m_id ` set (db_messages s')"
proof
  assume "m_id r \<in> m_id ` set (db_messages s')"
  moreover obtain s1 where sweep: "expire_orchestration_messages env s = (Inr (), s1)"
    and rows: "\<And>m. m \<in> set (db_messages s') \<Longrightarrow> m \<in> set (db_messages s1)
      \<and> (\<exists>kept. \<not> loose_message (env_now env - inbox_history_seconds) kept m)"
    by (rule prune_rows [OF assms(2)], rule that) (auto simp: Let_def)
  ultimately obtain m kept where m: "m \<in> set (db_messages s)" "m_id m = m_id r"
    and "\<not> loose_message (env_now env - inbox_history_seconds) kept (swept (env_now env) m)"
    by (force simp: sweep_rows [OF sweep])
  moreover have "m = r"
    using assms(1,3) m by (auto simp: mail_inv_def distinct_map dest: inj_onD)
  ultimately show False
    using assms(4-7) by (simp add: loose_message_def inbox_row_def)
qed

text \<open>
  C18: Pruning is per conversation where an inbox opened it.  For every thread that a question of an inbox
  opened, the retention sweep keeps all of its messages when one of them is younger than the history window or
  is a question that still waits for delivery (and has not passed its deadline), and removes all of them
  otherwise.  A message of an agent that opened a thread towards an inbox is removed once it is older than the
  window, whatever else is in its thread.
\<close>

theorem pruning_is_per_conversation:
  assumes "mail_inv s" "prune_inbox_history env s = (Inr n, s')"
    and "r \<in> set (db_messages s)" "m_thread_id r = None"
  shows "(external (m_from_handle r) \<longrightarrow> {m_id m | m. m \<in> set (db_messages s') \<and> thread_member (m_id r) m} =
      (if \<exists>m \<in> set (db_messages s). thread_member (m_id r) m
            \<and> (env_now env - inbox_history_seconds \<le> m_created_at m
               \<or> waiting_question m \<and> \<not> overdue (env_now env) (letter_of m))
       then {m_id m | m. m \<in> set (db_messages s) \<and> thread_member (m_id r) m} else {}))
    \<and> (\<not> external (m_from_handle r) \<and> external (m_to_handle r)
        \<and> m_created_at r < env_now env - inbox_history_seconds \<longrightarrow>
      m_id r \<notin> m_id ` set (db_messages s'))"
  using question_threads_whole [OF assms(1-3) _ assms(4)] agent_root_removed [OF assms(1-3) _ _ assms(4)]
  by blast

definition demo_row :: "string \<Rightarrow> string \<Rightarrow> string \<Rightarrow> string option \<Rightarrow> nat \<Rightarrow> timestamp \<Rightarrow> message" where
  "demo_row i from_handle to_handle thread n at = \<lparr>m_id = i, m_from_handle = from_handle, m_to_handle = to_handle,
     m_subject = ''s'', m_body = [], m_type = MQuestion, m_priority = PNormal, m_thread_id = thread, m_payload = None,
     m_read = False, m_sequence = n, m_created_at = at, m_delivered_at = None, m_run_id = None,
     m_workspace_id = None, m_task_id = None, m_dispatch_id = None, m_state = SQueued, m_expires_at = None,
     m_obsolete_at = None, m_reply_to_id = None, m_external_meta = None, m_delivery = DeliverTurnEnd\<rparr>"

definition late_env :: env where
  "late_env = demo_env\<lparr>env_now := 8 * 24 * 60 * 60\<rparr>"

text \<open>
  A question of an inbox and its thread, and a thread that an agent opened and in which a question of the inbox
  still waits.
\<close>

definition asked_thread :: db where
  "asked_thread = empty_db\<lparr>db_messages := [demo_row ''q'' ''ext:u'' ''b'' None 1 0, demo_row ''a'' ''b'' ''ext:u'' (Some ''q'') 2 0],
     db_message_sequence := 2\<rparr>"

definition opened_thread :: db where
  "opened_thread = empty_db\<lparr>db_messages := [demo_row ''r'' ''b'' ''ext:u'' None 1 0, demo_row ''q'' ''ext:u'' ''b'' (Some ''r'') 2 600000],
     db_message_sequence := 2\<rparr>"

lemmas prune_run = prune_inbox_history_def delete_messages_def expire_orchestration_messages_def update_messages_def
  expirable_def idle_roots_def loose_message_def thread_member_def waiting_question_def in_threads_def inbox_row_def
  external_def delete_batch_def inbox_history_seconds_def touch_message_revisions_def late_env_def demo_row_def
  asked_thread_def opened_thread_def empty_db_def demo_env_def mail_inv_def txn_run Let_def

lemma asked_thread_run: "mail_inv asked_thread"
  "\<exists>s'. prune_inbox_history late_env asked_thread = (Inr 0, s')"
  by (simp_all add: prune_run)

lemma opened_thread_run: "mail_inv opened_thread"
  "\<exists>s'. prune_inbox_history late_env opened_thread = (Inr 1, s') \<and> map m_id (db_messages s') = [''q'']
    \<and> list_all waiting_question (db_messages s')"
  by (simp_all add: prune_run)

theorem pruning_is_per_conversation_witness:
  "\<exists>s' s2. prune_inbox_history late_env asked_thread = (Inr 0, s')
    \<and> {m_id m | m. m \<in> set (db_messages s') \<and> thread_member ''q'' m} = {''q'', ''a''}
    \<and> prune_inbox_history late_env opened_thread = (Inr 1, s2) \<and> ''r'' \<notin> m_id ` set (db_messages s2)
    \<and> map m_id (db_messages s2) = [''q''] \<and> list_all waiting_question (db_messages s2)"
proof -
  obtain s' where run: "prune_inbox_history late_env asked_thread = (Inr 0, s')"
    using asked_thread_run(2) by blast
  let ?r = "demo_row ''q'' ''ext:u'' ''b'' None 1 0"
  have r: "?r \<in> set (db_messages asked_thread)" "m_thread_id ?r = None" "external (m_from_handle ?r)"
    by (simp_all add: prune_run)
  have "waiting_question ?r \<and> \<not> overdue (env_now late_env) (letter_of ?r) \<and> thread_member (m_id ?r) ?r"
    by (simp add: prune_run overdue_def)
  with pruning_is_per_conversation [OF asked_thread_run(1) run r(1,2)] r(1,3)
  have "{m_id m | m. m \<in> set (db_messages s') \<and> thread_member (m_id ?r) m}
      = {m_id m | m. m \<in> set (db_messages asked_thread) \<and> thread_member (m_id ?r) m}"
    by (auto split: if_splits)
  also have "\<dots> = m_id ` set (filter (thread_member (m_id ?r)) (db_messages asked_thread))" by auto
  also have "\<dots> = {''q'', ''a''}" by (simp add: prune_run)
  finally have 1: "{m_id m | m. m \<in> set (db_messages s') \<and> thread_member ''q'' m} = {''q'', ''a''}"
    by (simp add: demo_row_def)
  obtain s2 where run2: "prune_inbox_history late_env opened_thread = (Inr 1, s2)"
    and rest: "map m_id (db_messages s2) = [''q'']" "list_all waiting_question (db_messages s2)"
    using opened_thread_run(2) by (elim exE conjE)
  let ?a = "demo_row ''r'' ''b'' ''ext:u'' None 1 0"
  have "m_id ?a \<notin> m_id ` set (db_messages s2)"
    by (rule pruning_is_per_conversation [OF opened_thread_run(1) run2, THEN conjunct2, THEN mp]) (simp_all add: prune_run)
  with 1 run run2 rest show ?thesis by (auto simp: demo_row_def)
qed

end
