(* ===== verification/Inbox_Listing.thy ===== *)
theory Inbox_Listing
  imports Inbox_Laws
begin

text \<open>
  What clients see of the inboxes and of the conversations between agents (\<open>inbox_queries.rs\<close>, the reading
  half of \<open>conversation_store.rs\<close>): threads with the derived status of their questions, the batched scan
  that fills a page, and the summaries.  The scan is shown equal to the direct query it stands for, and the
  derived status to what the event journal reports.
\<close>

section \<open>Threads\<close>

datatype inbox_question_status = QPending | QDelivered | QExpired | QAnswered | QCancelled

definition inbox_question_status_parse :: "string \<Rightarrow> inbox_question_status option" where
  "inbox_question_status_parse v =
    (if v = ''pending'' then Some QPending else if v = ''delivered'' then Some QDelivered
     else if v = ''expired'' then Some QExpired else if v = ''answered'' then Some QAnswered
     else if v = ''cancelled'' then Some QCancelled else None)"

datatype inbox_message_kind = KQuestion | KReply | KMessage

record inbox_message =
  im_kind :: inbox_message_kind
  im_status :: "inbox_question_status option"
  im_delivery :: message_delivery
  im_delivered_at :: "timestamp option"
  im_delivery_mode :: "string option"
  im_message :: message

record inbox_thread =
  it_thread_id :: string
  it_inbox :: string
  it_recipient :: string
  it_workspace_id :: "string option"
  it_subject :: string
  it_created_at :: timestamp
  it_last_activity_at :: timestamp
  it_last_sequence :: nat
  it_status :: inbox_question_status
  it_question_count :: nat
  it_reply_count :: nat
  it_unread_reply_count :: nat
  it_origin :: "json option"
  it_target :: "json option"
  it_delivery_mode :: "string option"

record inbox_thread_detail =
  id_thread :: inbox_thread
  id_messages :: "inbox_message list"

record inbox_thread_page =
  pg_items :: "inbox_thread list"
  pg_next_before :: "int option"

record inbox_thread_filter =
  tf_inbox :: "string option"
  tf_workspace_id :: "string option"
  tf_status :: "inbox_question_status option"
  tf_origin_client_id :: "string option"
  tf_before_sequence :: "int option"
  tf_limit :: int

definition derived_question_status :: "message \<Rightarrow> bool \<Rightarrow> inbox_question_status" where
  "derived_question_status q answered =
    (if m_state q = SObsolete then QCancelled
     else if answered then QAnswered
     else if m_state q = SExpired \<and> m_delivered_at q = None then QExpired
     else if m_delivered_at q \<noteq> None \<or> m_read q then QDelivered
     else QPending)"

text \<open>\<open>parse\<close> is \<open>serde_json::from_str\<close> on the stored metadata.\<close>

definition message_meta :: "(string \<Rightarrow> json option) \<Rightarrow> message \<Rightarrow> json option" where
  "message_meta parse m = Option.bind (m_external_meta m) parse"

definition message_delivery_mode :: "(string \<Rightarrow> json option) \<Rightarrow> message \<Rightarrow> string option" where
  "message_delivery_mode parse m =
    Option.bind (Option.bind (message_meta parse m) (json_get ''deliveryMode'')) as_str"

definition thread_entry ::
  "(string \<Rightarrow> json option) \<Rightarrow> message list \<Rightarrow> string \<Rightarrow> string \<Rightarrow> message \<Rightarrow> inbox_message" where
  "thread_entry parse messages inbox recipient m =
    (let answered = (\<lambda>q. \<exists>r \<in> set messages. m_to_handle r = inbox \<and> m_from_handle r = recipient
           \<and> m_reply_to_id r = Some q);
         question = (\<lambda>i. \<exists>q \<in> set messages. m_from_handle q = inbox \<and> m_id q = i)
     in \<lparr>im_kind = (if m_from_handle m = inbox then KQuestion
           else if (case m_reply_to_id m of None \<Rightarrow> False | Some i \<Rightarrow> question i) \<and> m_from_handle m = recipient
           then KReply else KMessage),
         im_status = (if m_from_handle m = inbox then Some (derived_question_status m (answered (m_id m))) else None),
         im_delivery = m_delivery m, im_delivered_at = m_delivered_at m,
         im_delivery_mode = message_delivery_mode parse m, im_message = m\<rparr>)"

primrec find_map :: "('a \<Rightarrow> 'b option) \<Rightarrow> 'a list \<Rightarrow> 'b option" where
  "find_map f [] = None"
| "find_map f (x # xs) = (case f x of None \<Rightarrow> find_map f xs | Some y \<Rightarrow> Some y)"

definition build_thread :: "(string \<Rightarrow> json option) \<Rightarrow> string \<Rightarrow> message list \<Rightarrow> inbox_thread_detail option" where
  "build_thread parse thread_id messages =
    (case find (\<lambda>m. m_id m = thread_id \<and> m_thread_id m = None) messages of None \<Rightarrow> None | Some root \<Rightarrow>
    (case inbox_thread_parties root of None \<Rightarrow> None | Some (inbox, recipient) \<Rightarrow>
     let entries = map (thread_entry parse messages inbox recipient) messages;
         incoming = filter (\<lambda>e. m_to_handle (im_message e) = inbox) entries;
         meta = message_meta parse root
     in Some \<lparr>id_thread =
           \<lparr>it_thread_id = m_id root, it_inbox = inbox, it_recipient = recipient,
            it_workspace_id = m_workspace_id root, it_subject = m_subject root, it_created_at = m_created_at root,
            it_last_activity_at = Max (m_created_at ` set messages),
            it_last_sequence = m_sequence (last messages),
            it_status = (case find_map im_status (rev entries) of None \<Rightarrow> QAnswered | Some st \<Rightarrow> st),
            it_question_count = length (remdups (map m_id (filter (\<lambda>m. m_from_handle m = inbox) messages))),
            it_reply_count = length incoming,
            it_unread_reply_count = length (filter (\<lambda>e. \<not> m_read (im_message e)) incoming),
            it_origin = Option.bind meta (json_get ''origin''), it_target = Option.bind meta (json_get ''target''),
            it_delivery_mode = find_map im_delivery_mode (rev (filter (\<lambda>e. im_kind e = KQuestion) entries))\<rparr>,
         id_messages = entries\<rparr>))"

definition thread_detail :: "(string \<Rightarrow> json option) \<Rightarrow> string \<Rightarrow> db \<Rightarrow> inbox_thread_detail option" where
  "thread_detail parse thread_id s = build_thread parse thread_id (select_messages (thread_member thread_id) s)"

definition inbox_thread_query :: "(string \<Rightarrow> json option) \<Rightarrow> env \<Rightarrow> string \<Rightarrow> inbox_thread_detail option store" where
  "inbox_thread_query parse env thread_id =
    thenT (expire_orchestration_messages env) (getsT (thread_detail parse thread_id))"

section \<open>Pages of threads\<close>

definition inbox_thread_scan_batch :: nat where
  "inbox_thread_scan_batch = 200"

definition last_sequence :: "db \<Rightarrow> string \<Rightarrow> nat" where
  "last_sequence s root = Max (m_sequence ` set (filter (thread_member root) (db_messages s)))"

definition thread_root :: "inbox_thread_filter \<Rightarrow> message \<Rightarrow> bool" where
  "thread_root f r \<longleftrightarrow> m_thread_id r = None \<and> external (m_from_handle r) \<noteq> external (m_to_handle r)
    \<and> (case tf_inbox f of None \<Rightarrow> True | Some i \<Rightarrow> m_from_handle r = i \<or> m_to_handle r = i)
    \<and> (case tf_workspace_id f of None \<Rightarrow> True | Some w \<Rightarrow> m_workspace_id r = Some w)"

definition of_origin :: "(string \<Rightarrow> string \<Rightarrow> json option) \<Rightarrow> inbox_thread_filter \<Rightarrow> message \<Rightarrow> bool" where
  "of_origin extract f r = (case tf_origin_client_id f of None \<Rightarrow> True | Some c \<Rightarrow>
     (case m_external_meta r of None \<Rightarrow> False | Some text \<Rightarrow> extract text ''$.origin.clientId'' = Some (JStr c)))"

text \<open>\<open>json_extract\<close> on malformed metadata fails the whole query.\<close>

definition malformed_origin :: "(string \<Rightarrow> string \<Rightarrow> json option) \<Rightarrow> inbox_thread_filter \<Rightarrow> message \<Rightarrow> bool" where
  "malformed_origin extract f r \<longleftrightarrow> tf_origin_client_id f \<noteq> None
    \<and> (case m_external_meta r of None \<Rightarrow> False | Some text \<Rightarrow> extract text ''$.origin.clientId'' = None)"

definition thread_rows ::
  "(string \<Rightarrow> string \<Rightarrow> json option) \<Rightarrow> inbox_thread_filter \<Rightarrow> int \<Rightarrow> db \<Rightarrow> (string \<times> nat) list" where
  "thread_rows extract f before s =
    rev (sort_key snd (filter (\<lambda>(i, n). int n < before)
      (map (\<lambda>r. (m_id r, last_sequence s (m_id r)))
        (filter (\<lambda>r. thread_root f r \<and> of_origin extract f r) (db_messages s)))))"

definition thread_batch ::
  "(string \<Rightarrow> string \<Rightarrow> json option) \<Rightarrow> inbox_thread_filter \<Rightarrow> int \<Rightarrow> (string \<times> nat) list store" where
  "thread_batch extract f before =
    thenT (bindT (getsT (\<lambda>s. \<exists>r \<in> set (db_messages s). thread_root f r \<and> malformed_origin extract f r)) (\<lambda>bad.
       guardT (\<not> bad) (Constraint ''malformed JSON'')))
     (getsT (\<lambda>s. take inbox_thread_scan_batch (thread_rows extract f before s)))"

definition of_status :: "inbox_thread_filter \<Rightarrow> inbox_thread_detail \<Rightarrow> bool" where
  "of_status f d = (case tf_status f of None \<Rightarrow> True | Some st \<Rightarrow> st = it_status (id_thread d))"

text \<open>One batch: \<open>Inl\<close> the full page, \<open>Inr\<close> the threads so far and the cursor.\<close>

fun scan_batch ::
  "(string \<Rightarrow> json option) \<Rightarrow> env \<Rightarrow> inbox_thread_filter \<Rightarrow> nat \<Rightarrow> inbox_thread list \<Rightarrow> int \<Rightarrow> (string \<times> nat) list \<Rightarrow>
    (inbox_thread_page + inbox_thread list \<times> int) store" where
  "scan_batch parse env f limit items before [] = okT (Inr (items, before))"
| "scan_batch parse env f limit items before ((i, n) # rows) =
    bindT (inbox_thread_query parse env i) (\<lambda>found.
    case found of
      None \<Rightarrow> scan_batch parse env f limit items (int n) rows
    | Some d \<Rightarrow>
        if of_status f d
        then (if length items + 1 = limit
              then okT (Inl \<lparr>pg_items = items @ [id_thread d], pg_next_before = Some (int n)\<rparr>)
              else scan_batch parse env f limit (items @ [id_thread d]) (int n) rows)
        else scan_batch parse env f limit items (int n) rows)"

lemma scan_batch_cursor:
  "scan_batch parse env f limit items before rows s = (Inr (Inr (items', before')), s') \<Longrightarrow>
    before' = (if rows = [] then before else int (snd (last rows)))"
  by (induction parse env f limit items before rows arbitrary: s rule: scan_batch.induct)
    (auto simp: txn_simps split: option.splits if_splits)

lemma thread_batch_below:
  "thread_batch extract f before s = (Inr rows, s') \<Longrightarrow> (i, n) \<in> set rows \<Longrightarrow> int n < before"
  by (auto simp: thread_batch_def txn_simps thread_rows_def dest!: in_set_takeD)

lemma scan_progress:
  assumes "thread_batch extract f before s = (Inr rows, s1)"
    and "scan_batch parse env f limit items before rows s1 = (Inr (Inr (items', before')), s2)"
    and "\<not> length rows < inbox_thread_scan_batch"
  shows "0 \<le> before' \<and> before' < before"
proof -
  have "rows \<noteq> []" using assms(3) by (auto simp: inbox_thread_scan_batch_def)
  moreover from this have "int (snd (last rows)) < before"
    by (intro thread_batch_below [OF assms(1), of "fst (last rows)"]) simp
  ultimately show ?thesis
    using scan_batch_cursor [OF assms(2)] by auto
qed

text \<open>The scan: batches of decreasing cursors until the page is full or a batch is short.\<close>

function scan_threads ::
  "(string \<Rightarrow> json option) \<Rightarrow> (string \<Rightarrow> string \<Rightarrow> json option) \<Rightarrow> env \<Rightarrow> inbox_thread_filter \<Rightarrow> nat \<Rightarrow>
    inbox_thread list \<Rightarrow> int \<Rightarrow> inbox_thread_page store" where
  "scan_threads parse extract env f limit items before s =
    (case thread_batch extract f before s of
       (Inl e, s1) \<Rightarrow> (Inl e, s1)
     | (Inr rows, s1) \<Rightarrow>
        (case scan_batch parse env f limit items before rows s1 of
           (Inl e, s2) \<Rightarrow> (Inl e, s2)
         | (Inr (Inl page), s2) \<Rightarrow> (Inr page, s2)
         | (Inr (Inr (items', before')), s2) \<Rightarrow>
             if length rows < inbox_thread_scan_batch then (Inr \<lparr>pg_items = items', pg_next_before = None\<rparr>, s2)
             else scan_threads parse extract env f limit items' before' s2))"
  by pat_completeness auto
termination
proof (relation "measure (\<lambda>(parse, xtr, env, f, limit, items, before, s). nat before)", goal_cases)
  case 1
  then show ?case by simp
next
  case 2
  then show ?case by (auto dest!: scan_progress [OF sym sym])
qed

declare scan_threads.simps [simp del]

definition i64_max :: int where
  "i64_max = 2 ^ 63 - 1"

definition page_limit :: "int \<Rightarrow> nat" where
  "page_limit limit = nat (min 200 (max 1 limit))"

text \<open>The page is read at one time: the clock of \<open>env\<close> does not advance between the batches of a scan.\<close>

definition inbox_threads ::
  "(string \<Rightarrow> json option) \<Rightarrow> (string \<Rightarrow> string \<Rightarrow> json option) \<Rightarrow> env \<Rightarrow> inbox_thread_filter \<Rightarrow> inbox_thread_page store" where
  "inbox_threads parse extract env f =
    thenT (expire_orchestration_messages env)
      (scan_threads parse extract env f (page_limit (tf_limit f)) []
        (case tf_before_sequence f of None \<Rightarrow> i64_max | Some b \<Rightarrow> b))"

section \<open>Other listings\<close>

definition inbox_question_by_request_key ::
  "(string \<Rightarrow> string \<Rightarrow> json option) \<Rightarrow> string \<Rightarrow> string \<Rightarrow> string option \<Rightarrow> message option store" where
  "inbox_question_by_request_key extract inbox request_key origin_client_id =
    thenT (bindT (getsT (\<lambda>s. \<exists>m \<in> set (db_messages s). m_from_handle m = inbox
        \<and> (case m_external_meta m of None \<Rightarrow> False | Some text \<Rightarrow> extract text ''$.requestKey'' = None))) (\<lambda>bad.
       guardT (\<not> bad) (Constraint ''malformed JSON'')))
     (getsT (\<lambda>s. case latest_messages (\<lambda>m. m_from_handle m = inbox
         \<and> (case m_external_meta m of None \<Rightarrow> False | Some text \<Rightarrow>
              extract text ''$.requestKey'' = Some (JStr request_key)
              \<and> extract text ''$.origin.clientId''
                = Some (case origin_client_id of None \<Rightarrow> JNull | Some c \<Rightarrow> JStr c))) 1 s of
        [] \<Rightarrow> None | m # _ \<Rightarrow> Some m))"

definition inbox_messages_after :: "string \<Rightarrow> int \<Rightarrow> int \<Rightarrow> db \<Rightarrow> message list" where
  "inbox_messages_after inbox after_sequence limit s =
    take (page_limit limit) (select_messages (\<lambda>m. m_to_handle m = inbox \<and> int (m_sequence m) > after_sequence) s)"

record inbox_summary_entry =
  se_inbox :: string
  se_thread_count :: nat
  se_pending_count :: nat
  se_awaiting_reply_count :: nat
  se_unread_reply_count :: nat
  se_last_activity_at :: timestamp

definition replied :: "message list \<Rightarrow> message \<Rightarrow> bool" where
  "replied ms q \<longleftrightarrow> (\<exists>r \<in> set ms. m_reply_to_id r = Some (m_id q) \<and> m_from_handle r = m_to_handle q)"

definition summary_entry :: "message list \<Rightarrow> string \<Rightarrow> inbox_summary_entry" where
  "summary_entry ms i =
    \<lparr>se_inbox = i,
     se_thread_count = length (filter (\<lambda>m. (m_from_handle m = i \<or> m_to_handle m = i) \<and> m_thread_id m = None) ms),
     se_pending_count = length (filter (\<lambda>m. m_from_handle m = i \<and> m_state m = SQueued \<and> m_delivered_at m = None
        \<and> \<not> m_read m \<and> \<not> replied ms m) ms),
     se_awaiting_reply_count = length (filter (\<lambda>q. m_from_handle q = i \<and> m_state q \<notin> {SExpired, SObsolete}
        \<and> (m_delivered_at q \<noteq> None \<or> m_read q) \<and> \<not> replied ms q) ms),
     se_unread_reply_count = length (filter (\<lambda>m. m_to_handle m = i \<and> \<not> m_read m) ms),
     se_last_activity_at = Max (m_created_at ` set (filter (\<lambda>m. m_from_handle m = i \<or> m_to_handle m = i) ms))\<rparr>"

text \<open>
  \<open>ORDER BY last_activity_at DESC, inbox ASC\<close>: the second key first, then a stable sort by the first.  The
  collation compares bytes, as the order of character codes.
\<close>

definition byte_order :: "string \<Rightarrow> nat list" where
  "byte_order = map of_char"

definition inbox_summary :: "env \<Rightarrow> inbox_summary_entry list store" where
  "inbox_summary env =
    thenT (expire_orchestration_messages env) (getsT (\<lambda>s. let ms = db_messages s;
       inboxes = remdups (map m_from_handle (filter (\<lambda>m. external (m_from_handle m)) ms)
         @ map m_to_handle (filter (\<lambda>m. external (m_to_handle m)) ms))
     in sort_key (\<lambda>e. - int (se_last_activity_at e)) (map (summary_entry ms) (sort_key byte_order inboxes))))"

section \<open>Conversations\<close>

record conversation_thread_summary =
  ct_thread_id :: string
  ct_subject :: string
  ct_started_by :: string
  ct_participants :: "string list"
  ct_workspace_id :: "string option"
  ct_created_at :: timestamp
  ct_last_activity_at :: timestamp
  ct_last_sequence :: nat
  ct_message_count :: nat
  ct_group :: bool

record conversation_filter =
  cf_workspace_id :: "string option"
  cf_participant :: "string option"
  cf_before_sequence :: "int option"
  cf_limit :: int

definition add_participant :: "string list \<Rightarrow> string \<Rightarrow> string list" where
  "add_participant ps h = (if h \<in> set ps then ps else ps @ [h])"

definition summarize :: "string \<Rightarrow> message list \<Rightarrow> conversation_thread_summary option" where
  "summarize thread_id messages = (case messages of [] \<Rightarrow> None | first # _ \<Rightarrow>
     Some \<lparr>ct_thread_id = thread_id, ct_subject = m_subject first, ct_started_by = m_from_handle first,
       ct_participants = foldl add_participant [] (concat (map (\<lambda>m. [m_from_handle m, m_to_handle m]) messages)),
       ct_workspace_id = m_workspace_id first, ct_created_at = m_created_at first,
       ct_last_activity_at = Max (m_created_at ` set messages), ct_last_sequence = m_sequence (last messages),
       ct_message_count = length messages, ct_group = (\<not> (\<exists>m \<in> set messages. m_id m = thread_id))\<rparr>)"

definition conversation_rows :: "conversation_filter \<Rightarrow> db \<Rightarrow> (string \<times> nat) list" where
  "conversation_rows f s = (let rows = filter conversation_row (db_messages s);
       members = (\<lambda>k. filter (\<lambda>m. thread_key m = k) rows);
       newest = (\<lambda>k. Max (m_sequence ` set (members k)))
     in rev (sort_key snd (map (\<lambda>k. (k, newest k))
       (filter (\<lambda>k. (case cf_workspace_id f of None \<Rightarrow> True | Some w \<Rightarrow>
              \<exists>m \<in> set (members k). m_workspace_id m = Some w)
          \<and> (case cf_participant f of None \<Rightarrow> True | Some h \<Rightarrow>
              \<exists>m \<in> set (members k). m_from_handle m = h \<or> m_to_handle m = h)
          \<and> (case cf_before_sequence f of None \<Rightarrow> True | Some b \<Rightarrow> int (newest k) < b))
         (remdups (map thread_key rows))))))"

definition conversation_threads ::
  "conversation_filter \<Rightarrow> db \<Rightarrow> conversation_thread_summary list \<times> int option" where
  "conversation_threads f s =
    (let limit = page_limit (cf_limit f); rows = take limit (conversation_rows f s)
     in (List.map_filter (\<lambda>(k, n). summarize k (conversation_thread k s)) rows,
         if length rows = limit then map_option (\<lambda>r. int (snd r)) (case rows of [] \<Rightarrow> None | _ \<Rightarrow> Some (last rows))
         else None))"

section \<open>Settled stores\<close>

text \<open>A second sweep at the same time changes nothing.\<close>

definition settled :: "env \<Rightarrow> db \<Rightarrow> bool" where
  "settled env s \<longleftrightarrow> (\<forall>m \<in> set (db_messages s). \<not> expirable (env_now env) m)"

lemma sweep_settles: "expire_orchestration_messages env s = (Inr u, s') \<Longrightarrow> settled env s'"
  by (auto simp: settled_def sweep_rows swept_def expirable_def)

lemma settled_sweep: "settled env s \<Longrightarrow> expire_orchestration_messages env s = (Inr (), s)"
  by (simp add: settled_def expire_orchestration_messages_def update_messages_def txn_run filter_empty_conv update_rows_none)

lemma settled_query: "settled env s \<Longrightarrow> inbox_thread_query parse env i s = (Inr (thread_detail parse i s), s)"
  by (simp add: inbox_thread_query_def settled_sweep thenT_def bindT_def getsT_def)

section \<open>The scan and the direct query\<close>

text \<open>The threads of a list of candidates that pass the status filter, with their cursors.\<close>

definition matching_threads ::
  "(string \<Rightarrow> json option) \<Rightarrow> inbox_thread_filter \<Rightarrow> db \<Rightarrow> (string \<times> nat) list \<Rightarrow> (inbox_thread \<times> nat) list" where
  "matching_threads parse f s = List.map_filter (\<lambda>(i, n). case thread_detail parse i s of None \<Rightarrow> None
     | Some d \<Rightarrow> if of_status f d then Some (id_thread d, n) else None)"

lemma matching_threads_simps [simp]:
  "matching_threads parse f s [] = []"
  "matching_threads parse f s ((i, n) # rows) = (case thread_detail parse i s of None \<Rightarrow> matching_threads parse f s rows
     | Some d \<Rightarrow> (if of_status f d then [(id_thread d, n)] else []) @ matching_threads parse f s rows)"
  "matching_threads parse f s (xs @ ys) = matching_threads parse f s xs @ matching_threads parse f s ys"
  by (auto simp: matching_threads_def map_filter_def split: option.splits)

definition full_page :: "nat \<Rightarrow> inbox_thread list \<Rightarrow> (inbox_thread \<times> nat) list \<Rightarrow> inbox_thread_page" where
  "full_page limit items ts = \<lparr>pg_items = items @ map fst (take (limit - length items) ts),
     pg_next_before = Some (int (snd (ts ! (limit - length items - 1))))\<rparr>"

lemma full_page_Cons:
  "length items + 1 < limit \<Longrightarrow> full_page limit items ((t, n) # ts) = full_page limit (items @ [t]) ts"
  by (auto simp: full_page_def take_Cons' nth_Cons')

lemma full_page_append:
  "0 < limit \<Longrightarrow> length items < limit \<Longrightarrow> limit \<le> length items + length xs \<Longrightarrow>
    full_page limit items (xs @ ys) = full_page limit items xs"
  by (auto simp: full_page_def nth_append)

lemma full_page_more:
  "length items + length xs < limit \<Longrightarrow>
    full_page limit items (xs @ ys) = full_page limit (items @ map fst xs) ys"
proof (induction xs arbitrary: items)
  case (Cons x xs)
  then show ?case by (cases x) (simp add: full_page_Cons)
qed simp

lemma scan_batch_settled:
  assumes "settled env s" "length items < limit"
  shows "scan_batch parse env f limit items before rows s =
    (let ts = matching_threads parse f s rows in
     (Inr (if limit \<le> length items + length ts then Inl (full_page limit items ts)
       else Inr (items @ map fst ts, if rows = [] then before else int (snd (last rows)))), s))"
  using assms(2)
proof (induction rows arbitrary: items before)
  case Nil
  then show ?case by (simp add: okT_def)
next
  case (Cons x rows)
  obtain i n where x: "x = (i, n)" by fastforce
  show ?case
  proof (cases "\<exists>d. thread_detail parse i s = Some d \<and> of_status f d")
    case True
    then obtain d where d: "thread_detail parse i s = Some d" "of_status f d" by blast
    show ?thesis
    proof (cases "length items + 1 = limit")
      case True
      then have "limit - length items = Suc 0" by simp
      with d True show ?thesis
        by (simp add: x bindT_def settled_query [OF assms(1)] okT_def full_page_def)
    next
      case False
      with Cons.prems have less: "length items + 1 < limit" by simp
      with d False Cons.IH [of "items @ [id_thread d]" "int n"] show ?thesis
        by (simp add: x bindT_def settled_query [OF assms(1)] Let_def full_page_Cons)
    qed
  next
    case False
    with Cons.IH [OF Cons.prems, of "int n"] show ?thesis
      by (auto simp: x bindT_def settled_query [OF assms(1)] Let_def split: option.splits)
  qed
qed

text \<open>Cursors tell threads apart, and the rows below a cursor are the rest of the list.\<close>

lemma last_sequence_inj:
  assumes "mail_inv s" "a \<in> set (db_messages s)" "b \<in> set (db_messages s)" "m_thread_id a = None" "m_thread_id b = None"
    and "last_sequence s (m_id a) = last_sequence s (m_id b)"
  shows "a = b"
proof -
  have newest: "\<exists>m \<in> set (db_messages s). thread_member (m_id r) m \<and> m_sequence m = last_sequence s (m_id r)"
    if "r \<in> set (db_messages s)" for r
  proof -
    have "last_sequence s (m_id r) \<in> m_sequence ` set (filter (thread_member (m_id r)) (db_messages s))"
      unfolding last_sequence_def by (rule Max_in) (use that in \<open>auto simp: thread_member_def filter_empty_conv\<close>)
    then show ?thesis by auto
  qed
  obtain m where m: "m \<in> set (db_messages s)" "thread_member (m_id a) m" "m_sequence m = last_sequence s (m_id a)"
    using newest [OF assms(2)] by blast
  obtain n where n: "n \<in> set (db_messages s)" "thread_member (m_id b) n" "m_sequence n = last_sequence s (m_id b)"
    using newest [OF assms(3)] by blast
  have "n = m" by (rule sequence_unique [OF assms(1) n(1) m(1)]) (simp add: m(3) n(3) assms(6))
  note members = m(2) n(2) [unfolded this]
  have same: "x = y" if "x \<in> set (db_messages s)" "y \<in> set (db_messages s)" "m_id x = m_id y" for x y
    using assms(1) that by (auto simp: mail_inv_def distinct_map dest: inj_onD)
  have "m_id a = m_id b"
    using members unfolding thread_member_def
  proof (elim disjE)
    assume "m_id m = m_id a" "m_thread_id m = Some (m_id b)"
    then show ?thesis using same [OF m(1) assms(2)] assms(4) by simp
  next
    assume "m_thread_id m = Some (m_id a)" "m_id m = m_id b"
    then show ?thesis using same [OF m(1) assms(3)] assms(5) by simp
  qed simp_all
  then show ?thesis by (rule same [OF assms(2,3)])
qed

lemma thread_rows_decrease:
  assumes "mail_inv s"
  shows "sorted_wrt (\<lambda>a b. snd b < snd a) (thread_rows extract f before s)"
proof -
  let ?roots = "filter (\<lambda>r. thread_root f r \<and> of_origin extract f r) (db_messages s)"
  let ?rows = "filter (\<lambda>(i, n). int n < before) (map (\<lambda>r. (m_id r, last_sequence s (m_id r))) ?roots)"
  have "inj_on (\<lambda>r. last_sequence s (m_id r)) (set ?roots)"
    by (rule inj_onI) (auto simp: thread_root_def intro: last_sequence_inj [OF assms])
  moreover have "distinct ?roots" using assms by (auto simp: mail_inv_def distinct_map)
  ultimately have "distinct (map snd (map (\<lambda>r. (m_id r, last_sequence s (m_id r))) ?roots))"
    by (simp add: distinct_map comp_def)
  then have "distinct (map snd ?rows)" by (rule distinct_map_filter)
  then have "distinct (map snd (sort_key snd ?rows))" by (simp add: distinct_map)
  moreover have "sorted (map snd (sort_key snd ?rows))" by simp
  ultimately have "sorted_wrt (<) (map snd (sort_key snd ?rows))" by (simp add: strict_sorted_iff)
  then show ?thesis by (simp add: thread_rows_def sorted_wrt_rev sorted_wrt_map)
qed

lemma thread_rows_below:
  "b \<le> before \<Longrightarrow> thread_rows extract f b s = filter (\<lambda>(i, n). int n < b) (thread_rows extract f before s)"
  unfolding thread_rows_def
  by (auto simp: rev_filter [symmetric] filter_sort intro!: arg_cong [where f = "sort_key snd"] filter_cong)

lemma decreasing_filter:
  assumes "sorted_wrt (\<lambda>a b. snd b < snd a) (xs @ x # ys)"
  shows "filter (\<lambda>(i, n). int n < int (snd x)) (xs @ x # ys) = ys"
proof -
  have "filter (\<lambda>(i, n). int n < int (snd x)) xs = []" "filter (\<lambda>(i, n). int n < int (snd x)) ys = ys"
    using assms by (fastforce simp: sorted_wrt_append filter_empty_conv filter_id_conv)+
  then show ?thesis by (simp add: split_beta)
qed

lemma thread_rows_rest:
  assumes "mail_inv s" "0 < k" "k \<le> length (thread_rows extract f before s)"
  shows "thread_rows extract f (int (snd (last (take k (thread_rows extract f before s))))) s
    = drop k (thread_rows extract f before s)"
proof -
  let ?R = "thread_rows extract f before s"
  obtain j where k: "k = Suc j" using assms(2) by (cases k) auto
  then have j: "j < length ?R" using assms(3) by simp
  have last: "last (take k ?R) = ?R ! j" using j by (simp add: k take_Suc_conv_app_nth)
  have "?R ! j \<in> set ?R" using j by simp
  then have "int (snd (?R ! j)) \<le> before" by (auto simp: thread_rows_def)
  then have "thread_rows extract f (int (snd (?R ! j))) s = filter (\<lambda>(i, n). int n < int (snd (?R ! j))) ?R"
    by (rule thread_rows_below)
  also have "\<dots> = drop k ?R"
    using decreasing_filter [of "take j ?R" "?R ! j" "drop k ?R"] thread_rows_decrease [OF assms(1), of "extract" f before]
    unfolding k id_take_nth_drop [OF j, symmetric] by blast
  finally show ?thesis by (simp add: last)
qed

definition well_formed_origins :: "(string \<Rightarrow> string \<Rightarrow> json option) \<Rightarrow> inbox_thread_filter \<Rightarrow> db \<Rightarrow> bool" where
  "well_formed_origins extract f s \<longleftrightarrow>
    \<not> (\<exists>r \<in> set (db_messages s). thread_root f r \<and> malformed_origin extract f r)"

lemma thread_batch_run:
  "well_formed_origins extract f s \<Longrightarrow>
    thread_batch extract f before s = (Inr (take inbox_thread_scan_batch (thread_rows extract f before s)), s)"
  by (simp add: thread_batch_def well_formed_origins_def txn_run)

lemma scan_threads_exact:
  assumes "mail_inv s" "settled env s" "well_formed_origins extract f s" "length items < limit"
  shows "scan_threads parse extract env f limit items before s =
    (Inr (let ts = matching_threads parse f s (thread_rows extract f before s) in
      if limit \<le> length items + length ts then full_page limit items ts
      else \<lparr>pg_items = items @ map fst ts, pg_next_before = None\<rparr>), s)"
  using assms(4)
proof (induction "nat before" arbitrary: before items rule: less_induct)
  case less
  let ?R = "thread_rows extract f before s"
  let ?rows = "take inbox_thread_scan_batch ?R"
  let ?ts = "matching_threads parse f s ?rows"
  note batch = thread_batch_run [OF assms(3), of before]
  note step = scan_threads.simps [of parse "extract" env f limit items before s]
  have scan: "scan_batch parse env f limit items before ?rows s =
    (Inr (if limit \<le> length items + length ?ts then Inl (full_page limit items ?ts)
       else Inr (items @ map fst ?ts, if ?rows = [] then before else int (snd (last ?rows)))), s)"
    using scan_batch_settled [OF assms(2) less.prems] by (simp add: Let_def)
  have split: "matching_threads parse f s ?R = ?ts @ matching_threads parse f s (drop inbox_thread_scan_batch ?R)"
    by (metis append_take_drop_id matching_threads_simps(3))
  consider (full) "limit \<le> length items + length ?ts"
    | (short) "\<not> limit \<le> length items + length ?ts" "length ?rows < inbox_thread_scan_batch"
    | (more) "\<not> limit \<le> length items + length ?ts" "\<not> length ?rows < inbox_thread_scan_batch" by blast
  then show ?case
  proof cases
    case full
    with less.prems show ?thesis by (simp add: step batch scan split Let_def full_page_append)
  next
    case short
    then have "?rows = ?R" by auto
    with short scan show ?thesis unfolding step batch by (simp add: Let_def)
  next
    case more
    let ?b = "int (snd (last ?rows))"
    have k: "0 < inbox_thread_scan_batch" "inbox_thread_scan_batch \<le> length ?R" "?rows \<noteq> []"
      using more(2) by (auto simp: inbox_thread_scan_batch_def)
    have "nat ?b < nat before"
      using thread_batch_below [OF batch, of "fst (last ?rows)" "snd (last ?rows)"] k(3) by simp
    from less.hyps [OF this, of "items @ map fst ?ts"] more
    have "scan_threads parse extract env f limit (items @ map fst ?ts) ?b s =
      (Inr (let ts = matching_threads parse f s ?R in
        if limit \<le> length items + length ts then full_page limit items ts
        else \<lparr>pg_items = items @ map fst ts, pg_next_before = None\<rparr>), s)"
      by (simp add: thread_rows_rest [OF assms(1) k(1,2)] split Let_def full_page_more)
    with more k(3) show ?thesis unfolding step batch by (simp add: scan)
  qed
qed

text \<open>
  C21: The batched scan ends and is the direct query.  Where the deadline sweep succeeds and no candidate has
  malformed metadata, a page of inbox threads is returned, and it holds the first threads, up to the limit
  and by latest activity, of all threads below the cursor that match the filters, however the scan cut them
  into batches: a page is full whenever enough threads match, and the cursor for the next page is that of
  the last thread returned, absent when the listing is complete.
\<close>

theorem inbox_threads_is_the_direct_query:
  assumes "mail_inv s" "expire_orchestration_messages env s = (Inr u, s')" "well_formed_origins extract f s'"
  shows "let ts = matching_threads parse f s'
        (thread_rows extract f (case tf_before_sequence f of None \<Rightarrow> i64_max | Some b \<Rightarrow> b) s');
      limit = nat (min 200 (max 1 (tf_limit f)))
    in inbox_threads parse extract env f s = (Inr \<lparr>pg_items = map fst (take limit ts),
         pg_next_before = (if limit \<le> length ts then Some (int (snd (ts ! (limit - 1)))) else None)\<rparr>, s')"
proof -
  have "length [] < page_limit (tf_limit f)" by (simp add: page_limit_def)
  note scan = scan_threads_exact [OF sweep_inv [OF assms(1,2)] sweep_settles [OF assms(2)] assms(3) this, unfolded page_limit_def]
  show ?thesis
    by (simp add: inbox_threads_def thenT_def bindT_def assms(2) scan page_limit_def Let_def full_page_def)
qed

definition all_threads :: inbox_thread_filter where
  "all_threads = \<lparr>tf_inbox = None, tf_workspace_id = None, tf_status = None, tf_origin_client_id = None,
     tf_before_sequence = None, tf_limit = 10\<rparr>"

theorem inbox_threads_is_the_direct_query_witness:
  "map it_thread_id (pg_items (case inbox_threads (\<lambda>_. None) (\<lambda>_ _. None) late_env all_threads asked_thread of
     (Inr page, _) \<Rightarrow> page)) = [''q'']"
proof -
  have sweep: "expire_orchestration_messages late_env asked_thread = (Inr (), asked_thread)"
    by (simp add: prune_run)
  have ok: "well_formed_origins (\<lambda>_ _. None) all_threads asked_thread"
    by (simp add: well_formed_origins_def malformed_origin_def all_threads_def)
  have "matching_threads (\<lambda>_. None) all_threads asked_thread (thread_rows (\<lambda>_ _. None) all_threads i64_max asked_thread)
      = [(id_thread (the (thread_detail (\<lambda>_. None) ''q'' asked_thread)), 2)]"
    by code_simp
  with inbox_threads_is_the_direct_query [OF asked_thread_run(1) sweep ok, of "\<lambda>_. None"]
  show ?thesis
    by (simp add: all_threads_def Let_def)
      (simp add: prune_run thread_detail_def select_messages_def build_thread_def inbox_thread_parties_def
        is_external_inbox_def)
qed

section \<open>The journal and the listing\<close>

text \<open>
  The status a trigger writes into the event journal is the derived status of the listing, except that the
  journal calls a question \<open>received\<close> that was read and never handed over, where the listing says delivered.
\<close>

theorem journal_status_is_the_listed_status:
  "if m_state q \<in> {SObsolete, SExpired} \<or> replied ms q \<or> m_delivered_at q \<noteq> None \<or> \<not> m_read q
   then inbox_question_status_parse (question_status ms q) = Some (derived_question_status q (replied ms q))
   else question_status ms q = ''received'' \<and> derived_question_status q (replied ms q) = QDelivered"
  by (auto simp: question_status_def derived_question_status_def inbox_question_status_parse_def replied_def)

text \<open>A question that the agent reads with \<open>check\<close> before it is pasted is journalled as \<open>received\<close>.\<close>

theorem journal_reports_received:
  "question_status [] (read_message (demo_row ''q'' ''ext:u'' ''b'' None 1 0)) = ''received''
    \<and> inbox_question_status_parse ''received'' = None"
  by (simp add: question_status_def read_message_def demo_row_def inbox_question_status_parse_def)

end
