(* ===== verification/Contract_Schema.thy ===== *)
theory Contract_Schema
  imports Rust_Text
begin

text \<open>
  The JSON limits and the schema dialect of role contracts (\<open>orchestration_contract_schema.rs\<close>).  Both
  traversals of the source are loops over an explicit stack; here a stack is a list whose head is its
  top.  The JSON writer, the schema compiler and the instance validator (\<open>serde_json\<close>, \<open>jsonschema\<close>)
  and the digest (\<open>sha2\<close>) are parameters.
\<close>

record json_library =
  jl_to_vec :: "json \<Rightarrow> string"
  jl_builds :: "json \<Rightarrow> bool"
  jl_first_error :: "json \<Rightarrow> json \<Rightarrow> string option"
  jl_digest :: "json \<Rightarrow> string"
  jl_lowercase :: "string \<Rightarrow> string"

section \<open>Bounded traversal\<close>

definition contract_max_bytes :: nat where
  "contract_max_bytes = 64 * 1024"

definition instance_max_bytes :: nat where
  "instance_max_bytes = 256 * 1024"

fun children :: "json \<Rightarrow> json list" where
  "children (JObj kvs) = map snd kvs"
| "children (JArr vs) = vs"
| "children _ = []"

fun node_bytes :: "json \<Rightarrow> nat" where
  "node_bytes (JObj kvs) = sum_list (map (\<lambda>kv. length (fst kv) + 4) kvs) + 2"
| "node_bytes (JArr vs) = length vs + 2"
| "node_bytes (JStr s) = length s + 2"
| "node_bytes _ = 8"

text \<open>The number of values of a document.\<close>

fun json_count :: "json \<Rightarrow> nat" where
  "json_count (JObj kvs) = 1 + sum_list (map (\<lambda>kv. json_count (snd kv)) kvs)"
| "json_count (JArr vs) = 1 + sum_list (map json_count vs)"
| "json_count _ = 1"

lemma json_count_children: "json_count v = 1 + sum_list (map json_count (children v))"
  by (cases v) (simp_all add: comp_def)

lemma json_count_less: "sum_list (map json_count (children v)) < json_count v"
  by (simp add: json_count_children [of v])

function bounded_loop :: "nat \<Rightarrow> (json \<times> nat) list \<Rightarrow> nat \<Rightarrow> nat \<Rightarrow> string + unit" where
  "bounded_loop max_bytes [] nodes bytes = Inr ()"
| "bounded_loop max_bytes ((v, depth) # pending) nodes bytes =
    (if nodes + 1 > 4096 \<or> depth > 24 then Inl ''contract JSON exceeds the node or depth limit''
     else if bytes + node_bytes v > max_bytes then Inl ''contract JSON exceeds the size limit''
     else bounded_loop max_bytes (rev (map (\<lambda>c. (c, depth + 1)) (children v)) @ pending)
       (nodes + 1) (bytes + node_bytes v))"
  by pat_completeness auto
termination
  by (relation "measure (\<lambda>(_, p, _, _). sum_list (map (json_count \<circ> fst) p))")
     (auto simp: json_count_less comp_def rev_map [symmetric] sum_list_rev)

declare bounded_loop.simps(2) [simp del]

definition bounded_json :: "json_library \<Rightarrow> json \<Rightarrow> nat \<Rightarrow> string + unit" where
  "bounded_json lib v max_bytes = bindE (bounded_loop max_bytes [(v, 0)] 0 0) (\<lambda>_.
     guardE (length (jl_to_vec lib v) \<le> max_bytes) ''contract JSON exceeds the size limit'')"

text \<open>The limits on a document as a whole: its size estimate and its nesting.\<close>

fun json_bytes :: "json \<Rightarrow> nat" where
  "json_bytes (JObj kvs) = node_bytes (JObj kvs) + sum_list (map (\<lambda>kv. json_bytes (snd kv)) kvs)"
| "json_bytes (JArr vs) = node_bytes (JArr vs) + sum_list (map json_bytes vs)"
| "json_bytes v = node_bytes v"

fun nests_within :: "nat \<Rightarrow> json \<Rightarrow> bool" where
  "nests_within d (JObj kvs) \<longleftrightarrow> (\<forall>kv \<in> set kvs. 0 < d \<and> nests_within (d - 1) (snd kv))"
| "nests_within d (JArr vs) \<longleftrightarrow> (\<forall>v \<in> set vs. 0 < d \<and> nests_within (d - 1) v)"
| "nests_within d _ \<longleftrightarrow> True"

lemma json_bytes_children: "json_bytes v = node_bytes v + sum_list (map json_bytes (children v))"
  by (cases v) (simp_all add: comp_def)

lemma nests_within_children: "nests_within d v \<longleftrightarrow> (\<forall>c \<in> set (children v). 0 < d \<and> nests_within (d - 1) c)"
  by (cases v) auto

lemma bounded_loop_exact:
  "nodes \<le> 4096 \<Longrightarrow> bytes \<le> max_bytes \<Longrightarrow>
    bounded_loop max_bytes pending nodes bytes = Inr () \<longleftrightarrow>
      nodes + sum_list (map (json_count \<circ> fst) pending) \<le> 4096
      \<and> bytes + sum_list (map (json_bytes \<circ> fst) pending) \<le> max_bytes
      \<and> (\<forall>(v, depth) \<in> set pending. depth \<le> 24 \<and> nests_within (24 - depth) v)"
proof (induction max_bytes pending nodes bytes rule: bounded_loop.induct)
  case (2 max_bytes v depth pending nodes bytes)
  let ?p = "rev (map (\<lambda>c. (c, depth + 1)) (children v)) @ pending"
  have sums: "sum_list (map (json_count \<circ> fst) ?p) + 1 = sum_list (map (json_count \<circ> fst) ((v, depth) # pending))"
    "sum_list (map (json_bytes \<circ> fst) ?p) + node_bytes v = sum_list (map (json_bytes \<circ> fst) ((v, depth) # pending))"
    by (simp_all add: json_count_children [of v] json_bytes_children [of v] comp_def rev_map [symmetric] sum_list_rev)
  have deep: "(\<forall>(v, depth) \<in> set ?p. depth \<le> 24 \<and> nests_within (24 - depth) v)
    \<longleftrightarrow> (\<forall>(v, depth) \<in> set ((v, depth) # pending). depth \<le> 24 \<and> nests_within (24 - depth) v)" if "depth \<le> 24"
    using that nests_within_children [of "24 - depth" v] by (auto simp: ball_Un)
  have "0 < json_count v" by (simp add: json_count_children [of v])
  show ?case
  proof (cases "nodes + 1 > 4096 \<or> depth > 24 \<or> bytes + node_bytes v > max_bytes")
    case True
    then show ?thesis using sums(2) \<open>0 < json_count v\<close> by (auto simp: bounded_loop.simps)
  next
    case False
    then have "bounded_loop max_bytes ((v, depth) # pending) nodes bytes
      = bounded_loop max_bytes ?p (nodes + 1) (bytes + node_bytes v)" by (simp add: bounded_loop.simps)
    moreover have "bounded_loop max_bytes ?p (nodes + 1) (bytes + node_bytes v) = Inr () \<longleftrightarrow>
        nodes + 1 + sum_list (map (json_count \<circ> fst) ?p) \<le> 4096
        \<and> bytes + node_bytes v + sum_list (map (json_bytes \<circ> fst) ?p) \<le> max_bytes
        \<and> (\<forall>(v, depth) \<in> set ?p. depth \<le> 24 \<and> nests_within (24 - depth) v)"
      using False by (intro "2.IH") auto
    moreover have "nodes + 1 + sum_list (map (json_count \<circ> fst) ?p) = nodes + sum_list (map (json_count \<circ> fst) ((v, depth) # pending))"
      "bytes + node_bytes v + sum_list (map (json_bytes \<circ> fst) ?p) = bytes + sum_list (map (json_bytes \<circ> fst) ((v, depth) # pending))"
      using sums by linarith+
    ultimately show ?thesis using deep False by (simp only: not_less de_Morgan_disj)
  qed
qed simp

text \<open>
  C34: The traversal of \<open>bounded_json\<close>, which visits values from a stack and stops at the first limit it
  exceeds, accepts exactly the documents that have at most 4096 values, nest at most 24 levels below the
  root, and stay within the byte limit both by its own estimate and as written.
\<close>

theorem bounded_json_exact:
  "bounded_json lib v max_bytes = Inr () \<longleftrightarrow>
     json_count v \<le> 4096 \<and> nests_within 24 v \<and> json_bytes v \<le> max_bytes \<and> length (jl_to_vec lib v) \<le> max_bytes"
  using bounded_loop_exact [of 0 0 max_bytes "[(v, 0)]"] by (auto simp: bounded_json_def bindE_Inr_iff)

section \<open>The schema dialect\<close>

definition common_keywords :: "string list" where
  "common_keywords = [''type'', ''title'', ''description'', ''enum'', ''const'']"

definition kind_keywords :: "string \<Rightarrow> string list option" where
  "kind_keywords kind =
    (if kind = ''object'' then Some [''properties'', ''required'', ''additionalProperties'', ''minProperties'', ''maxProperties'']
     else if kind = ''array'' then Some [''items'', ''minItems'', ''maxItems'']
     else if kind = ''string'' then Some [''minLength'', ''maxLength'']
     else if kind \<in> {''integer'', ''number''} then Some [''minimum'', ''maximum'', ''exclusiveMinimum'', ''exclusiveMaximum'']
     else if kind \<in> {''boolean'', ''null''} then Some []
     else None)"

text \<open>The checks of an object schema's members: the schemas of its properties, or the error.\<close>

definition object_properties :: "json \<Rightarrow> string + json list" where
  "object_properties schema = (case json_get ''properties'' schema of
     None \<Rightarrow> Inr []
   | Some (JObj ps) \<Rightarrow> Inr (map snd ps)
   | Some _ \<Rightarrow> Inl ''properties must be an object'')"

fun check_required :: "json \<Rightarrow> json list \<Rightarrow> string + unit" where
  "check_required schema [] = Inr ()"
| "check_required schema (n # ns) = (case n of
     JStr name \<Rightarrow>
       (if Option.bind (json_get ''properties'' schema) (json_get name) = None
        then Inl ''required property has no definition'' else check_required schema ns)
   | _ \<Rightarrow> Inl ''required must contain property names'')"

definition object_required :: "json \<Rightarrow> string + unit" where
  "object_required schema = (case json_get ''required'' schema of
     None \<Rightarrow> Inr ()
   | Some (JArr ns) \<Rightarrow> check_required schema ns
   | Some _ \<Rightarrow> Inl ''required must be an array'')"

definition object_additional :: "json \<Rightarrow> string + unit" where
  "object_additional schema = (case json_get ''additionalProperties'' schema of
     None \<Rightarrow> Inr () | Some (JBool _) \<Rightarrow> Inr () | Some _ \<Rightarrow> Inl ''additionalProperties must be a boolean'')"

text \<open>The body of the loop for one schema, up to the schemas it pushes, in the order it pushes them.\<close>

definition schema_node :: "json \<Rightarrow> string + json list" where
  "schema_node schema = (case schema of
     JObj members \<Rightarrow>
       bindE (of_option ''every contract schema must declare one type''
         (Option.bind (json_get ''type'' schema) as_str)) (\<lambda>kind.
       bindE (of_option ''unsupported contract schema type'' (kind_keywords kind)) (\<lambda>keywords.
       bindE (guardE (\<forall>m \<in> set members. fst m \<in> set common_keywords \<or> fst m \<in> set keywords)
         ''unsupported contract schema keyword'') (\<lambda>_.
       if kind = ''object'' then
         bindE (object_properties schema) (\<lambda>ps.
         bindE (object_required schema) (\<lambda>_.
         bindE (object_additional schema) (\<lambda>_. Inr ps)))
       else if kind = ''array'' then
         bindE (of_option ''array schema requires items'' (json_get ''items'' schema)) (\<lambda>i. Inr [i])
       else Inr [])))
   | _ \<Rightarrow> Inl ''contract schema must be an object'')"

lemma json_get_count: "json_get k v = Some x \<Longrightarrow> json_count x < json_count v"
proof (cases v)
  case (JObj kvs)
  assume "json_get k v = Some x"
  with JObj have "(k, x) \<in> set kvs" by (simp add: map_of_SomeD)
  then have "json_count x \<in> set (map (\<lambda>kv. json_count (snd kv)) kvs)" by force
  with JObj show ?thesis using member_le_sum_list [of "json_count x"] by fastforce
qed simp_all

lemma schema_node_count:
  assumes "schema_node s = Inr cs"
  shows "sum_list (map json_count cs) < json_count s"
proof -
  have "cs = [] \<or> (\<exists>ps. json_get ''properties'' s = Some (JObj ps) \<and> cs = map snd ps)
    \<or> (\<exists>i. json_get ''items'' s = Some i \<and> cs = [i])"
    using assms by (auto simp: schema_node_def object_properties_def bindE_Inr_iff
      split: json.splits if_splits option.splits)
  then show ?thesis
  proof (elim disjE exE conjE)
    assume "cs = []"
    then show ?thesis by (cases s) simp_all
  next
    fix ps assume p: "json_get ''properties'' s = Some (JObj ps)" "cs = map snd ps"
    show ?thesis using json_get_count [OF p(1)] p(2) by (simp add: comp_def)
  next
    fix i assume "json_get ''items'' s = Some i" "cs = [i]"
    then show ?thesis using json_get_count by simp
  qed
qed

function schema_loop :: "(json \<times> nat) list \<Rightarrow> nat \<Rightarrow> string + unit" where
  "schema_loop [] nodes = Inr ()"
| "schema_loop ((s, depth) # pending) nodes =
    (if nodes + 1 > 128 \<or> depth > 12 then Inl ''contract schema exceeds the node or depth limit''
     else case schema_node s of
       Inl e \<Rightarrow> Inl e
     | Inr cs \<Rightarrow> schema_loop (rev (map (\<lambda>c. (c, depth + 1)) cs) @ pending) (nodes + 1))"
  by pat_completeness auto
termination
  by (relation "measure (\<lambda>(p, _). sum_list (map (json_count \<circ> fst) p))")
     (auto simp: comp_def rev_map [symmetric] sum_list_rev dest: schema_node_count)

declare schema_loop.simps(2) [simp del]

definition compile_schema :: "json_library \<Rightarrow> json \<Rightarrow> string + unit" where
  "compile_schema lib schema =
    bindE (bounded_json lib schema contract_max_bytes) (\<lambda>_.
    bindE (guardE (Option.bind (json_get ''type'' schema) as_str = Some ''object'')
      ''contract schema root must have type object'') (\<lambda>_.
    bindE (schema_loop [(schema, 0)] 0) (\<lambda>_.
    guardE (jl_builds lib schema) ''invalid contract schema: a keyword value is invalid'')))"

definition validate_instance :: "json_library \<Rightarrow> json \<Rightarrow> json \<Rightarrow> string \<Rightarrow> string + unit" where
  "validate_instance lib schema v label =
    bindE (bounded_json lib v instance_max_bytes) (\<lambda>_.
    bindE (compile_schema lib schema) (\<lambda>_.
    case jl_first_error lib schema v of
      Some path \<Rightarrow> Inl (''contract '' @ label @ '' failed validation at '' @ path)
    | None \<Rightarrow> Inr ()))"

section \<open>Accepted schemas are self-contained\<close>

text \<open>The schemas inside a schema, each with its distance from the root.\<close>

inductive subschema :: "json \<Rightarrow> nat \<Rightarrow> json \<Rightarrow> bool" for root where
  root: "subschema root 0 root"
| property: "subschema root d s \<Longrightarrow> json_get ''properties'' s = Some (JObj ps) \<Longrightarrow>
    json_get ''type'' s = Some (JStr ''object'') \<Longrightarrow> (k, t) \<in> set ps \<Longrightarrow> subschema root (d + 1) t"
| items: "subschema root d s \<Longrightarrow> json_get ''items'' s = Some t \<Longrightarrow>
    json_get ''type'' s = Some (JStr ''array'') \<Longrightarrow> subschema root (d + 1) t"

definition plain_schema :: "json \<Rightarrow> bool" where
  "plain_schema s \<longleftrightarrow> (\<exists>members kind keywords. s = JObj members
     \<and> json_get ''type'' s = Some (JStr kind) \<and> kind_keywords kind = Some keywords
     \<and> fst ` set members \<subseteq> set common_keywords \<union> set keywords)"

text \<open>The tree of schemas the loop walks.\<close>

inductive schema_tree :: "nat \<Rightarrow> json \<Rightarrow> bool" where
  "schema_node s = Inr cs \<Longrightarrow> d \<le> 12 \<Longrightarrow> \<forall>c \<in> set cs. schema_tree (d + 1) c \<Longrightarrow> schema_tree d s"

inductive_cases schema_treeE: "schema_tree d s"

lemma schema_loop_tree:
  "schema_loop pending nodes = Inr () \<Longrightarrow> (s, d) \<in> set pending \<Longrightarrow> schema_tree d s"
proof (induction pending nodes arbitrary: s d rule: schema_loop.induct)
  case (2 t depth pending nodes)
  from 2(2) obtain cs where cs: "nodes + 1 \<le> 128" "depth \<le> 12" "schema_node t = Inr cs"
    "schema_loop (rev (map (\<lambda>c. (c, depth + 1)) cs) @ pending) (nodes + 1) = Inr ()"
    by (auto simp: schema_loop.simps split: if_splits sum.splits)
  have IH: "(s, d) \<in> set (rev (map (\<lambda>c. (c, depth + 1)) cs) @ pending) \<Longrightarrow> schema_tree d s" for s d
    using 2(1) cs by auto
  show ?case
  proof (cases "(s, d) = (t, depth)")
    case True
    have "\<forall>c \<in> set cs. schema_tree (depth + 1) c" using IH by auto
    with cs True show ?thesis by (auto intro: schema_tree.intros)
  qed (use 2(3) IH in auto)
qed simp

lemma schema_node_plain: "schema_node s = Inr cs \<Longrightarrow> plain_schema s"
  by (fastforce simp: schema_node_def plain_schema_def bindE_Inr_iff bind_eq_Some_conv elim: as_str.elims
    split: json.splits)

lemma kind_keywords_no_ref: "kind_keywords kind = Some ks \<Longrightarrow> ''$ref'' \<notin> set ks"
  unfolding kind_keywords_def by (simp split: if_split_asm) (hypsubst, simp)+

lemma plain_schema_no_ref:
  assumes "plain_schema s"
  shows "json_get ''$ref'' s = None"
proof -
  from assms obtain members kind ks where s: "s = JObj members" "kind_keywords kind = Some ks"
    "fst ` set members \<subseteq> set common_keywords \<union> set ks" unfolding plain_schema_def by blast
  have "''$ref'' \<notin> set common_keywords" by (simp add: common_keywords_def)
  with s kind_keywords_no_ref [OF s(2)] have "''$ref'' \<notin> fst ` set members" by blast
  with s(1) show ?thesis by (simp add: map_of_eq_None_iff)
qed

lemma schema_node_children:
  assumes "schema_node s = Inr cs"
  shows "json_get ''properties'' s = Some (JObj ps) \<Longrightarrow> json_get ''type'' s = Some (JStr ''object'') \<Longrightarrow>
      (k, t) \<in> set ps \<Longrightarrow> t \<in> set cs"
    and "json_get ''items'' s = Some t \<Longrightarrow> json_get ''type'' s = Some (JStr ''array'') \<Longrightarrow> t \<in> set cs"
  using assms by (force simp: schema_node_def object_properties_def bindE_Inr_iff split: json.splits)+

lemma schema_tree_subschema:
  assumes "schema_tree 0 root" "subschema root d s"
  shows "schema_tree d s"
  using assms(2)
proof (induction rule: subschema.induct)
  case root
  then show ?case using assms(1) .
next
  case (property d s ps k t)
  from property.IH obtain cs where "schema_node s = Inr cs" "\<forall>c \<in> set cs. schema_tree (d + 1) c"
    by (auto elim: schema_treeE)
  with property show ?case using schema_node_children(1) by blast
next
  case (items d s t)
  from items.IH obtain cs where "schema_node s = Inr cs" "\<forall>c \<in> set cs. schema_tree (d + 1) c"
    by (auto elim: schema_treeE)
  with items show ?case using schema_node_children(2) by blast
qed

text \<open>
  C35: A schema that \<open>compile_schema\<close> accepts is self-contained.  It describes an object, and every schema
  inside it, reached through properties and array items, lies at most 12 levels down, declares one of the
  seven supported types and uses only the keywords of that type.  So no reference, pattern or combinator
  reaches the schema compiler, and validating an instance can neither fetch nor expand anything.
\<close>

theorem accepted_schemas_are_self_contained:
  assumes "compile_schema lib schema = Inr ()"
  shows "json_get ''type'' schema = Some (JStr ''object'')
    \<and> (\<forall>d s. subschema schema d s \<longrightarrow> d \<le> 12 \<and> plain_schema s \<and> json_get ''$ref'' s = None)"
proof (intro conjI allI impI)
  from assms have loop: "schema_loop [(schema, 0)] 0 = Inr ()"
    and "Option.bind (json_get ''type'' schema) as_str = Some ''object''"
    by (auto simp: compile_schema_def bindE_Inr_iff)
  then show "json_get ''type'' schema = Some (JStr ''object'')"
    by (auto simp: bind_eq_Some_conv elim: as_str.elims)
  fix d s
  assume "subschema schema d s"
  with loop have "schema_tree d s" using schema_loop_tree schema_tree_subschema by fastforce
  then obtain cs where cs: "schema_node s = Inr cs" "d \<le> 12" by (rule schema_treeE)
  show "d \<le> 12" by (rule cs(2))
  show p: "plain_schema s" by (rule schema_node_plain [OF cs(1)])
  show "json_get ''$ref'' s = None" by (rule plain_schema_no_ref [OF p])
qed

text \<open>A library that writes every document in one byte and accepts every plain schema.\<close>

definition demo_library :: json_library where
  "demo_library = \<lparr>jl_to_vec = \<lambda>_. ''x'', jl_builds = \<lambda>_. True, jl_first_error = \<lambda>_ _. None,
     jl_digest = \<lambda>_. ''d'', jl_lowercase = id\<rparr>"

definition demo_schema :: json where
  "demo_schema = JObj [(''properties'', JObj [(''objective'', JObj [(''type'', JStr ''string'')])]),
     (''required'', JArr [JStr ''objective'']), (''type'', JStr ''object'')]"

lemma demo_schema_compiles: "compile_schema demo_library demo_schema = Inr ()"
  by (simp add: compile_schema_def bounded_json_def bounded_loop.simps schema_loop.simps schema_node_def
    object_properties_def object_required_def object_additional_def kind_keywords_def common_keywords_def
    demo_schema_def demo_library_def contract_max_bytes_def)

theorem accepted_schemas_are_self_contained_witness:
  "compile_schema demo_library demo_schema = Inr ()
    \<and> subschema demo_schema 1 (JObj [(''type'', JStr ''string'')]) \<and> plain_schema (JObj [(''type'', JStr ''string'')])"
proof -
  have "subschema demo_schema (0 + 1) (JObj [(''type'', JStr ''string'')])"
    by (rule subschema.property [OF subschema.root, where k = "''objective''"
        and ps = "[(''objective'', JObj [(''type'', JStr ''string'')])]"])
       (simp_all add: demo_schema_def)
  with accepted_schemas_are_self_contained [OF demo_schema_compiles] demo_schema_compiles show ?thesis by simp
qed

end
