(* ===== verification/Role_Contract.thy ===== *)
theory Role_Contract
  imports Contract_Schema
begin

text \<open>
  Role contracts and their snapshots (\<open>orchestration_role_contract.rs\<close>): portable identifiers, the paths
  of required artifacts, validation, and freezing a contract with its inputs under a digest.
\<close>

section \<open>Identifiers and paths\<close>

definition portable_id :: "string \<Rightarrow> string + unit" where
  "portable_id i = guardE
    (\<not> (i = '''' \<or> i \<in> {''.'', ''..''} \<or> length i > 80
        \<or> \<not> list_all (\<lambda>c. is_ascii_alphanumeric c \<or> c \<in> set ''-_.'') i))
    ''contract identifiers must be 1-80 ASCII letters, digits, dots, hyphens or underscores''"

definition reserved_stems :: "string list" where
  "reserved_stems = [''CON'', ''PRN'', ''AUX'', ''NUL'']
    @ map (\<lambda>d. ''COM'' @ [d]) ''123456789'' @ map (\<lambda>d. ''LPT'' @ [d]) ''123456789''
    @ map (\<lambda>b. ''COM'' @ map char_of [194 :: nat, b]) [185, 178, 179]
    @ map (\<lambda>b. ''LPT'' @ map char_of [194 :: nat, b]) [185, 178, 179]"

definition safe_part :: "string \<Rightarrow> bool" where
  "safe_part part \<longleftrightarrow>
    (let stem = to_ascii_uppercase (hd (split_at CHR ''.'' part))
     in \<not> (part = '''' \<or> length part > 255 \<or> part = ''.'' \<or> part = ''..''
           \<or> last part \<in> set ''. '' \<or> eq_ignore_ascii_case part ''.git'' \<or> stem \<in> set reserved_stems))"

definition artifact_path :: "string \<Rightarrow> string + unit" where
  "artifact_path path =
    bindE (guardE
      (\<not> (path = '''' \<or> length path > 512 \<or> contains_control path
          \<or> (\<exists>c \<in> set path. c \<in> set [CHR 0x5C, CHR '':'', CHR ''*'', CHR ''?'', CHR 0x22, CHR ''<'', CHR ''>'', CHR ''|''])))
      ''contract artifact must be a portable workspace-relative file path'') (\<lambda>_.
    guardE (list_all safe_part (split_at CHR ''/'' path))
      ''contract artifact path contains an unsafe component'')"

section \<open>Contracts\<close>

record checklist_item =
  ci_id :: string
  ci_description :: string

record role_contract =
  rc_version :: nat
  rc_id :: string
  rc_revision :: nat
  rc_name :: string
  rc_purpose :: string
  rc_instructions :: string
  rc_input_schema :: json
  rc_result_schema :: json
  rc_required_artifacts :: "string list"
  rc_checklist :: "checklist_item list"

record contract_snapshot =
  cs_version :: nat
  cs_contract :: role_contract
  cs_inputs :: json
  cs_digest :: string

text \<open>\<open>serde_json::to_value\<close> of a contract: an object with ascending keys.\<close>

definition checklist_json :: "checklist_item \<Rightarrow> json" where
  "checklist_json c = JObj [(''description'', JStr (ci_description c)), (''id'', JStr (ci_id c))]"

definition contract_json :: "role_contract \<Rightarrow> json" where
  "contract_json c = JObj
    [(''checklist'', JArr (map checklist_json (rc_checklist c))),
     (''id'', JStr (rc_id c)),
     (''inputSchema'', rc_input_schema c),
     (''instructions'', JStr (rc_instructions c)),
     (''name'', JStr (rc_name c)),
     (''purpose'', JStr (rc_purpose c)),
     (''requiredArtifacts'', JArr (map JStr (rc_required_artifacts c))),
     (''resultSchema'', rc_result_schema c),
     (''revision'', JInt (int (rc_revision c))),
     (''version'', JInt (int (rc_version c)))]"

definition contract_text :: "string \<Rightarrow> string \<Rightarrow> nat \<Rightarrow> string + unit" where
  "contract_text label v max_len = guardE
    (\<not> (trim v = '''' \<or> length v > max_len \<or> CHR 0x00 \<in> set v))
    (''contract '' @ label @ '' is empty, too long or contains NUL'')"

text \<open>The two loops that collect what they have seen.\<close>

fun check_artifacts :: "json_library \<Rightarrow> string list \<Rightarrow> string list \<Rightarrow> string + unit" where
  "check_artifacts lib seen [] = Inr ()"
| "check_artifacts lib seen (p # ps) =
    bindE (artifact_path p) (\<lambda>_.
    if jl_lowercase lib p \<in> set seen then Inl ''duplicate contract artifact path''
    else check_artifacts lib (jl_lowercase lib p # seen) ps)"

fun check_checklist :: "string list \<Rightarrow> checklist_item list \<Rightarrow> string + unit" where
  "check_checklist seen [] = Inr ()"
| "check_checklist seen (c # cs) =
    bindE (portable_id (ci_id c)) (\<lambda>_.
    bindE (guardE (\<not> (trim (ci_description c) = '''' \<or> length (ci_description c) > 2048))
      ''contract checklist description is empty or too long'') (\<lambda>_.
    if ci_id c \<in> set seen then Inl (''duplicate contract checklist id: '' @ ci_id c)
    else check_checklist (ci_id c # seen) cs))"

definition contract_validate :: "json_library \<Rightarrow> role_contract \<Rightarrow> string + unit" where
  "contract_validate lib c =
    bindE (guardE (rc_version c = 1 \<and> rc_revision c \<noteq> 0) ''role contract requires version 1 and a positive revision'') (\<lambda>_.
    bindE (portable_id (rc_id c)) (\<lambda>_.
    bindE (contract_text ''name'' (rc_name c) 160) (\<lambda>_.
    bindE (contract_text ''purpose'' (rc_purpose c) 4096) (\<lambda>_.
    bindE (contract_text ''instructions'' (rc_instructions c) 16384) (\<lambda>_.
    bindE (bounded_json lib (contract_json c) contract_max_bytes) (\<lambda>_.
    bindE (compile_schema lib (rc_input_schema c)) (\<lambda>_.
    bindE (compile_schema lib (rc_result_schema c)) (\<lambda>_.
    bindE (guardE (length (rc_required_artifacts c) \<le> 64 \<and> length (rc_checklist c) \<le> 64)
      ''contract allows at most 64 required artifacts and checklist items'') (\<lambda>_.
    bindE (check_artifacts lib [] (rc_required_artifacts c)) (\<lambda>_.
    check_checklist [] (rc_checklist c)))))))))))"

definition snapshot_content_digest :: "json_library \<Rightarrow> contract_snapshot \<Rightarrow> string + string" where
  "snapshot_content_digest lib s =
    bindE (bounded_json lib (cs_inputs s) instance_max_bytes) (\<lambda>_.
    Inr (jl_digest lib (JArr [JInt (int (cs_version s)), contract_json (cs_contract s), cs_inputs s])))"

definition snapshot_freeze :: "json_library \<Rightarrow> role_contract \<Rightarrow> json \<Rightarrow> string + contract_snapshot" where
  "snapshot_freeze lib c inputs =
    bindE (contract_validate lib c) (\<lambda>_.
    bindE (validate_instance lib (rc_input_schema c) inputs ''inputs'') (\<lambda>_.
    let snapshot = \<lparr>cs_version = 1, cs_contract = c, cs_inputs = inputs, cs_digest = ''''\<rparr>
    in bindE (snapshot_content_digest lib snapshot) (\<lambda>digest. Inr (snapshot\<lparr>cs_digest := digest\<rparr>))))"

definition snapshot_validate :: "json_library \<Rightarrow> contract_snapshot \<Rightarrow> string + unit" where
  "snapshot_validate lib s =
    bindE (guardE (cs_version s = 1) ''unsupported role contract snapshot version'') (\<lambda>_.
    bindE (contract_validate lib (cs_contract s)) (\<lambda>_.
    bindE (validate_instance lib (rc_input_schema (cs_contract s)) (cs_inputs s) ''inputs'') (\<lambda>_.
    bindE (snapshot_content_digest lib s) (\<lambda>digest.
    guardE (cs_digest s = digest) ''role contract snapshot digest does not match its contents''))))"

section \<open>Accepted artifact paths stay inside the workspace\<close>

text \<open>
  Lexical resolution of a relative path below a directory given by its components; \<open>None\<close> when the path
  is absolute or climbs above the directory it starts from.
\<close>

fun resolve_parts :: "string list \<Rightarrow> string list \<Rightarrow> string list option" where
  "resolve_parts below [] = Some below"
| "resolve_parts below (p # ps) =
    (if p = '''' \<or> p = ''.'' then resolve_parts below ps
     else if p = ''..'' then (if below = [] then None else resolve_parts (butlast below) ps)
     else resolve_parts (below @ [p]) ps)"

definition resolve_path :: "string \<Rightarrow> string list option" where
  "resolve_path path = (if prefix ''/'' path then None else resolve_parts [] (split_at CHR ''/'' path))"

lemma resolve_parts_plain:
  "\<forall>p \<in> set ps. p \<notin> {'''', ''.'', ''..''} \<Longrightarrow> resolve_parts below ps = Some (below @ ps)"
  by (induction ps arbitrary: below) auto

lemma safe_part_plain: "safe_part p \<Longrightarrow> p \<notin> {'''', ''.'', ''..''} \<and> \<not> eq_ignore_ascii_case p ''.git''"
  by (auto simp: safe_part_def Let_def)

text \<open>
  C36: An artifact path that a contract accepts names a file inside the workspace on every platform: it
  resolves to itself, component by component, below the directory it is relative to.  It has no drive or
  alternate stream (no colon or backslash), no component is the git directory in any case, and none is a
  reserved device name.
\<close>

theorem artifact_paths_stay_inside:
  assumes "artifact_path path = Inr ()"
  shows "resolve_path path = Some (split_at CHR ''/'' path)
    \<and> CHR 0x5C \<notin> set path \<and> CHR '':'' \<notin> set path
    \<and> (\<forall>p \<in> set (split_at CHR ''/'' path). p \<noteq> '''' \<and> \<not> eq_ignore_ascii_case p ''.git''
         \<and> to_ascii_uppercase (hd (split_at CHR ''.'' p)) \<notin> set reserved_stems)"
proof -
  from assms have parts: "\<forall>p \<in> set (split_at CHR ''/'' path). safe_part p"
    and chars: "CHR 0x5C \<notin> set path" "CHR '':'' \<notin> set path"
    by (auto simp: artifact_path_def bindE_Inr_iff list_all_iff)
  have "\<not> prefix ''/'' path"
  proof
    assume "prefix ''/'' path"
    then have "'''' \<in> set (split_at CHR ''/'' path)" by (cases path) auto
    with parts safe_part_plain show False by blast
  qed
  moreover have "resolve_parts [] (split_at CHR ''/'' path) = Some ([] @ split_at CHR ''/'' path)"
    using parts safe_part_plain by (intro resolve_parts_plain) blast
  ultimately show ?thesis
    using parts chars by (auto simp: resolve_path_def safe_part_def Let_def)
qed

theorem artifact_paths_stay_inside_witness:
  "artifact_path ''docs/report.md'' = Inr () \<and> resolve_path ''docs/report.md'' = Some [''docs'', ''report.md'']
    \<and> artifact_path ''../secrets'' \<noteq> Inr () \<and> artifact_path ''.GIT/config'' \<noteq> Inr ()"
proof -
  have a: "artifact_path ''docs/report.md'' = Inr ()" by code_simp
  have "artifact_path ''../secrets'' \<noteq> Inr () \<and> artifact_path ''.GIT/config'' \<noteq> Inr ()" by code_simp
  with artifact_paths_stay_inside [OF a] a show ?thesis by simp
qed

section \<open>Freezing\<close>

lemma snapshot_freeze_validates:
  "snapshot_freeze lib c inputs = Inr s \<Longrightarrow> snapshot_validate lib s = Inr ()"
  by (auto simp: snapshot_freeze_def snapshot_validate_def snapshot_content_digest_def bindE_Inr_iff Let_def)

text \<open>
  A frozen contract validates: whenever \<open>freeze\<close> returns a snapshot, the snapshot carries the given
  contract and inputs and passes \<open>validate\<close>.  Conversely a snapshot passes only with the digest of
  its own contents, so one whose contract or inputs were replaced by contents with another digest is refused.
\<close>

theorem frozen_contracts_validate:
  assumes "snapshot_freeze lib c inputs = Inr s"
  shows "snapshot_validate lib s = Inr () \<and> cs_contract s = c \<and> cs_inputs s = inputs
    \<and> (snapshot_validate lib (s\<lparr>cs_contract := c', cs_inputs := inputs'\<rparr>) = Inr () \<longrightarrow>
        jl_digest lib (JArr [JInt 1, contract_json c', inputs']) = jl_digest lib (JArr [JInt 1, contract_json c, inputs]))"
  using assms snapshot_freeze_validates [OF assms]
  by (auto simp: snapshot_freeze_def snapshot_validate_def snapshot_content_digest_def bindE_Inr_iff Let_def)

definition demo_contract :: role_contract where
  "demo_contract = \<lparr>rc_version = 1, rc_id = ''builder'', rc_revision = 1, rc_name = ''Builder'',
     rc_purpose = ''Build'', rc_instructions = ''Do it'', rc_input_schema = demo_schema, rc_result_schema = demo_schema,
     rc_required_artifacts = [''report.md''], rc_checklist = [\<lparr>ci_id = ''tests'', ci_description = ''Run tests''\<rparr>]\<rparr>"
definition demo_inputs :: json where
  "demo_inputs = JObj [(''objective'', JStr ''ship'')]"

lemma demo_contract_valid: "contract_validate demo_library demo_contract = Inr ()"
proof -
  have "trim ''Builder'' \<noteq> '''' \<and> trim ''Build'' \<noteq> '''' \<and> trim ''Do it'' \<noteq> '''' \<and> trim ''Run tests'' \<noteq> ''''"
    by (simp add: trim_graphic graphic_def)
  moreover have "portable_id ''builder'' = Inr () \<and> portable_id ''tests'' = Inr () \<and> artifact_path ''report.md'' = Inr ()"
    by code_simp
  moreover have "bounded_json demo_library (contract_json demo_contract) contract_max_bytes = Inr ()"
    by (simp add: bounded_json_def bounded_loop.simps contract_json_def checklist_json_def demo_contract_def
      demo_schema_def demo_library_def contract_max_bytes_def)
  ultimately show ?thesis
    using demo_schema_compiles by (simp add: contract_validate_def contract_text_def demo_contract_def)
qed

lemma demo_freezes:
  "snapshot_freeze demo_library demo_contract demo_inputs
    = Inr \<lparr>cs_version = 1, cs_contract = demo_contract, cs_inputs = demo_inputs, cs_digest = ''d''\<rparr>"
proof -
  have "bounded_json demo_library demo_inputs instance_max_bytes = Inr ()"
    by (simp add: bounded_json_def bounded_loop.simps demo_inputs_def demo_library_def instance_max_bytes_def)
  moreover have "validate_instance demo_library demo_schema demo_inputs ''inputs'' = Inr ()"
    using calculation demo_schema_compiles by (simp add: validate_instance_def demo_library_def)
  ultimately show ?thesis
    using demo_contract_valid
    by (simp add: snapshot_freeze_def snapshot_content_digest_def Let_def demo_contract_def demo_library_def)
qed

theorem frozen_contracts_validate_witness:
  "\<exists>s. snapshot_freeze demo_library demo_contract demo_inputs = Inr s \<and> snapshot_validate demo_library s = Inr ()"
  using frozen_contracts_validate [OF demo_freezes] demo_freezes by blast

end
