(* ===== verification/Dependency_Order.thy ===== *)
theory Dependency_Order
  imports Prelude "HOL-Library.Multiset"
begin

text \<open>
  The ordering loop that \<open>run_recipe_compilation.rs\<close> (stages), \<open>run_plan_compilation.rs\<close> (tasks of an
  isolated run) and \<open>run_plan_inputs.rs\<close> (tasks of a shared run) all contain: repeated passes over the
  items, each appending the items whose dependencies are already in the order, until every item is in it
  or a pass adds nothing.  The set of visited identifiers of the sources is the set of the keys of the order.
\<close>

section \<open>The loop\<close>

definition place :: "('a \<Rightarrow> 'k) \<Rightarrow> ('a \<Rightarrow> 'k list) \<Rightarrow> 'a list \<Rightarrow> 'a \<Rightarrow> 'a list" where
  "place key deps ordered x =
    (if key x \<notin> key ` set ordered \<and> (\<forall>d \<in> set (deps x). d \<in> key ` set ordered) then ordered @ [x] else ordered)"

definition order_pass :: "('a \<Rightarrow> 'k) \<Rightarrow> ('a \<Rightarrow> 'k list) \<Rightarrow> 'a list \<Rightarrow> 'a list \<Rightarrow> 'a list" where
  "order_pass key deps items ordered = foldl (place key deps) ordered items"

lemma prefix_place: "prefix ordered (place key deps ordered x)"
  by (simp add: place_def)

lemma prefix_order_pass: "prefix ordered (order_pass key deps items ordered)"
  unfolding order_pass_def
  by (induction items arbitrary: ordered) (auto intro: prefix_order.order_trans prefix_place)

function order_loop :: "('a \<Rightarrow> 'k) \<Rightarrow> ('a \<Rightarrow> 'k list) \<Rightarrow> 'a list \<Rightarrow> 'a list \<Rightarrow> 'a list option" where
  "order_loop key deps items ordered =
    (if length ordered < length items then
       let next = order_pass key deps items ordered
       in if length next = length ordered then None else order_loop key deps items next
     else Some ordered)"
  by pat_completeness auto
termination
proof (relation "measure (\<lambda>(_, _, items, ordered). length items - length ordered)", goal_cases)
  case (2 key deps items ordered x)
  then show ?case using prefix_length_le [OF prefix_order_pass [of ordered key deps items]] by auto
qed simp

declare order_loop.simps [simp del]

section \<open>The order it returns\<close>

text \<open>Every item comes after the items it depends on, and no key occurs twice.\<close>

definition dependency_order :: "('a \<Rightarrow> 'k) \<Rightarrow> ('a \<Rightarrow> 'k list) \<Rightarrow> 'a list \<Rightarrow> bool" where
  "dependency_order key deps xs \<longleftrightarrow> distinct (map key xs)
    \<and> (\<forall>ys x zs. xs = ys @ x # zs \<longrightarrow> set (deps x) \<subseteq> key ` set ys)"

lemma dependency_order_Nil [simp]: "dependency_order key deps []"
  by (simp add: dependency_order_def)

lemma dependency_order_snoc:
  assumes "dependency_order key deps xs" "key x \<notin> key ` set xs" "set (deps x) \<subseteq> key ` set xs"
  shows "dependency_order key deps (xs @ [x])"
proof -
  have "set (deps y) \<subseteq> key ` set ys" if "xs @ [x] = ys @ y # zs" for ys y zs
  proof (cases zs rule: rev_cases)
    case Nil
    with that assms(3) show ?thesis by simp
  next
    case (snoc zs' z)
    with that have "xs = ys @ y # zs'" by simp
    with assms(1) show ?thesis unfolding dependency_order_def by blast
  qed
  with assms(1,2) show ?thesis by (auto simp: dependency_order_def)
qed

lemma order_pass_keeps:
  assumes "dependency_order key deps ordered" "set ordered \<subseteq> set all" "set items \<subseteq> set all"
  shows "dependency_order key deps (order_pass key deps items ordered)
    \<and> set (order_pass key deps items ordered) \<subseteq> set all"
  using assms unfolding order_pass_def
proof (induction items arbitrary: ordered)
  case (Cons x items)
  have "dependency_order key deps (place key deps ordered x)"
    using Cons.prems(1) by (auto simp: place_def intro: dependency_order_snoc)
  moreover have "set (place key deps ordered x) \<subseteq> set all" using Cons.prems by (auto simp: place_def)
  ultimately show ?case using Cons.IH Cons.prems(3) by simp
qed simp

lemma order_loop_sound:
  "order_loop key deps items ordered = Some r \<Longrightarrow> dependency_order key deps ordered \<Longrightarrow> set ordered \<subseteq> set items \<Longrightarrow>
    dependency_order key deps r \<and> set r \<subseteq> set items \<and> length items \<le> length r"
proof (induction key deps items ordered rule: order_loop.induct)
  case (1 key deps items ordered)
  show ?case
  proof (cases "length ordered < length items")
    case True
    with 1(2) have "length (order_pass key deps items ordered) \<noteq> length ordered"
      "order_loop key deps items (order_pass key deps items ordered) = Some r"
      by (auto simp: order_loop.simps [of key deps items ordered] Let_def split: if_splits)
    then show ?thesis
      using 1(1) [OF True refl] order_pass_keeps [OF 1(3,4) order_refl] by blast
  next
    case False
    with 1(2-4) show ?thesis by (simp add: order_loop.simps [of key deps items ordered])
  qed
qed

lemma order_loop_permutes:
  assumes "order_loop key deps items [] = Some r"
  shows "dependency_order key deps r" "mset r = mset items" "distinct (map key items)"
proof -
  have r: "dependency_order key deps r" "set r \<subseteq> set items" "length items \<le> length r"
    using order_loop_sound [OF assms] by auto
  have d: "distinct r" using r(1) by (simp add: dependency_order_def distinct_map)
  have "card (set r) = length r" using d by (rule distinct_card)
  moreover have "card (set r) \<le> card (set items)" using r(2) by (simp add: card_mono)
  moreover have "card (set items) \<le> length items" by (rule card_length)
  ultimately have c: "card (set items) = length items" "card (set r) = card (set items)" using r(3) by auto
  then have "set r = set items" using r(2) by (simp add: card_subset_eq)
  moreover have "distinct items" using c(1) by (rule card_distinct)
  ultimately show "mset r = mset items" using d by (simp add: set_eq_iff_mset_eq_distinct)
  then show "distinct (map key items)"
    using r(1) by (metis dependency_order_def mset_map distinct_count_atmost_1 set_mset_mset)
  show "dependency_order key deps r" by (rule r(1))
qed

section \<open>When there is one\<close>

definition dependency_edges :: "('a \<Rightarrow> 'k) \<Rightarrow> ('a \<Rightarrow> 'k list) \<Rightarrow> 'a list \<Rightarrow> ('k \<times> 'k) set" where
  "dependency_edges key deps items = {(d, key x) | x d. x \<in> set items \<and> d \<in> set (deps x)}"

text \<open>The items form a graph with an order: unique keys, no dangling and no circular dependency.\<close>

definition orderable :: "('a \<Rightarrow> 'k) \<Rightarrow> ('a \<Rightarrow> 'k list) \<Rightarrow> 'a list \<Rightarrow> bool" where
  "orderable key deps items \<longleftrightarrow> distinct (map key items)
    \<and> (\<forall>x \<in> set items. set (deps x) \<subseteq> key ` set items) \<and> acyclic (dependency_edges key deps items)"

lemma dependency_order_acyclic:
  assumes "dependency_order key deps xs"
  shows "acyclic (dependency_edges key deps xs)"
proof -
  let ?pos = "\<lambda>k. length (takeWhile (\<lambda>x. key x \<noteq> k) xs)"
  have "?pos d < ?pos (key x)" if x: "x \<in> set xs" "d \<in> set (deps x)" for x d
  proof -
    obtain ys zs where xs: "xs = ys @ x # zs" using x(1) by (meson split_list)
    have "set (deps x) \<subseteq> key ` set ys" "key x \<notin> key ` set ys"
      using assms xs unfolding dependency_order_def by auto
    then obtain y where y: "y \<in> set ys" "key y = d" using x(2) by auto
    have "takeWhile (\<lambda>a. key a \<noteq> key x) (ys @ x # zs) = ys @ takeWhile (\<lambda>a. key a \<noteq> key x) (x # zs)"
      using \<open>key x \<notin> key ` set ys\<close> by (intro takeWhile_append2) (metis imageI)
    then have "?pos (key x) = length ys" using xs by simp
    moreover obtain us vs where "ys = us @ y # vs" using y(1) by (meson split_list)
    then have "?pos d \<le> length us" using xs y(2)
      by (simp add: takeWhile_append length_takeWhile_le)
    ultimately show ?thesis using \<open>ys = us @ y # vs\<close> by simp
  qed
  then have "dependency_edges key deps xs \<subseteq> measure ?pos" by (auto simp: dependency_edges_def)
  then show ?thesis using wf_measure wf_subset wf_acyclic by metis
qed

text \<open>A pass that adds nothing leaves every missing item waiting for one that is missing too.\<close>

lemma order_pass_stalled:
  assumes "length (order_pass key deps items ordered) = length ordered" "x \<in> set items" "key x \<notin> key ` set ordered"
  shows "\<exists>d \<in> set (deps x). d \<notin> key ` set ordered"
  using assms
proof (induction items arbitrary: ordered)
  case (Cons y items)
  have pre: "prefix (place key deps ordered y) (order_pass key deps (y # items) ordered)"
    using prefix_order_pass [of "place key deps ordered y" key deps items] by (simp add: order_pass_def)
  have same: "place key deps ordered y = ordered"
  proof (rule ccontr)
    assume "place key deps ordered y \<noteq> ordered"
    then have "length (place key deps ordered y) = Suc (length ordered)" by (auto simp: place_def split: if_splits)
    with prefix_length_le [OF pre] Cons.prems(1) show False by simp
  qed
  show ?case
  proof (cases "x = y")
    case True
    with same Cons.prems(3) show ?thesis by (auto simp: place_def split: if_splits)
  next
    case False
    with Cons same show ?thesis by (simp add: order_pass_def)
  qed
qed simp

lemma not_stalled:
  assumes "orderable key deps items" "dependency_order key deps ordered" "set ordered \<subseteq> set items"
    "length ordered < length items"
  shows "length (order_pass key deps items ordered) \<noteq> length ordered"
proof
  assume stalled: "length (order_pass key deps items ordered) = length ordered"
  let ?missing = "key ` set items - key ` set ordered"
  have "finite (dependency_edges key deps items)"
    by (rule finite_subset [of _ "(\<Union>x \<in> set items. set (deps x)) \<times> key ` set items"])
       (auto simp: dependency_edges_def)
  then have wf: "wf (dependency_edges key deps items)"
    using assms(1) by (simp add: orderable_def finite_acyclic_wf)
  have card: "card (key ` set items) = length items" "card (key ` set ordered) = length ordered"
    using assms(1,2) distinct_card [of "map key items"] distinct_card [of "map key ordered"]
    by (simp_all add: orderable_def dependency_order_def)
  then have "?missing \<noteq> {}" using assms(3,4) by (metis Diff_eq_empty_iff card_mono finite_imageI finite_set leD)
  then obtain k where k: "k \<in> ?missing" "\<And>d. (d, k) \<in> dependency_edges key deps items \<Longrightarrow> d \<notin> ?missing"
    using wf by (metis wf_eq_minimal all_not_in_conv)
  then obtain x where x: "x \<in> set items" "key x = k" by auto
  obtain d where d: "d \<in> set (deps x)" "d \<notin> key ` set ordered"
    using order_pass_stalled [OF stalled x(1)] k(1) x(2) by auto
  have "(d, k) \<in> dependency_edges key deps items" using x d(1) by (auto simp: dependency_edges_def)
  moreover have "d \<in> key ` set items" using assms(1) x(1) d(1) by (auto simp: orderable_def)
  ultimately show False using k(2) d(2) by blast
qed

lemma order_loop_complete:
  "orderable key deps items \<Longrightarrow> dependency_order key deps ordered \<Longrightarrow> set ordered \<subseteq> set items \<Longrightarrow>
    \<exists>r. order_loop key deps items ordered = Some r"
proof (induction key deps items ordered rule: order_loop.induct)
  case (1 key deps items ordered)
  show ?case
  proof (cases "length ordered < length items")
    case True
    from not_stalled [OF 1(2-4) True] True show ?thesis
      using 1(1) [OF True refl] 1(2) order_pass_keeps [OF 1(3,4) order_refl]
      by (simp add: order_loop.simps [of key deps items ordered] Let_def)
  qed (simp add: order_loop.simps)
qed

lemma dependency_edges_mset: "mset xs = mset ys \<Longrightarrow> dependency_edges key deps xs = dependency_edges key deps ys"
  by (drule mset_eq_setD) (simp add: dependency_edges_def)

theorem order_loop_iff: "(\<exists>r. order_loop key deps items [] = Some r) \<longleftrightarrow> orderable key deps items"
proof
  assume "\<exists>r. order_loop key deps items [] = Some r"
  then obtain r where "order_loop key deps items [] = Some r" by blast
  note r = order_loop_permutes [OF this]
  have set: "set r = set items" using r(2) by (rule mset_eq_setD)
  have "set (deps x) \<subseteq> key ` set items" if x: "x \<in> set items" for x
  proof -
    obtain ys zs where "r = ys @ x # zs" using x set by (metis split_list)
    then have "set (deps x) \<subseteq> key ` set ys" "set ys \<subseteq> set items"
      using r(1) set unfolding dependency_order_def by auto
    then show ?thesis by blast
  qed
  then show "orderable key deps items"
    using r dependency_order_acyclic [OF r(1)] dependency_edges_mset [OF r(2), of key deps] by (simp add: orderable_def)
qed (simp add: order_loop_complete)

end
