(* ===== verification/Workflow_Recipe.thy ===== *)
theory Workflow_Recipe
  imports Role_Contract Workflow_Yaml Dependency_Order
begin

text \<open>
  Workflow recipes (\<open>run_recipe.rs\<close>, \<open>run_recipe_compilation.rs\<close>): roles bound to contract revisions, stages
  with dependencies and human gates, validation, the stage order, and frozen snapshots.  A check of the
  source returns \<open>Refused\<close> with its message; \<open>Panicked\<close> is an indexing that would panic.
\<close>

datatype workflow_failure = Refused string | Panicked

type_synonym 'a workflow = "workflow_failure + 'a"

text \<open>A check of another module, with its message.\<close>

definition checked :: "string + 'a \<Rightarrow> 'a workflow" where
  "checked m = (case m of Inl e \<Rightarrow> Inl (Refused e) | Inr x \<Rightarrow> Inr x)"

lemma checked_simps [simp, result_simps]:
  "checked (Inl e) = Inl (Refused e)" "checked (Inr x) = Inr x"
  "checked m = Inr x \<longleftrightarrow> m = Inr x" "checked m \<noteq> Inl Panicked"
  by (auto simp: checked_def split: sum.splits)

definition bailW :: "bool \<Rightarrow> string \<Rightarrow> unit workflow" where
  "bailW bad msg = guardE (\<not> bad) (Refused msg)"

lemma bailW_simps [simp, result_simps]:
  "bailW True msg = Inl (Refused msg)" "bailW False msg = Inr ()"
  "bailW b msg = Inr u \<longleftrightarrow> \<not> b" "bailW b msg \<noteq> Inl Panicked"
  by (simp_all add: bailW_def)

section \<open>Recipes\<close>

datatype human_gate = Foundation | Product

record workflow_role =
  wr_id :: string
  wr_name :: string
  wr_contract_id :: string
  wr_contract_revision :: nat

record workflow_stage =
  ws_id :: string
  ws_name :: string
  ws_purpose :: string
  ws_roles :: "string list"
  ws_depends_on :: "string list"
  ws_gate :: "human_gate option"

record workflow_recipe =
  wf_version :: nat
  wf_id :: string
  wf_revision :: nat
  wf_name :: string
  wf_description :: string
  wf_coordinator_instructions :: string
  wf_roles :: "workflow_role list"
  wf_contracts :: "role_contract list"
  wf_stages :: "workflow_stage list"

datatype recipe_source = BuiltIn string | Personal string | Project string string

record recipe_snapshot =
  rs_version :: nat
  rs_source :: recipe_source
  rs_recipe :: workflow_recipe
  rs_digest :: string

subsection \<open>Serialised form\<close>

definition role_json :: "workflow_role \<Rightarrow> json" where
  "role_json r = JObj [(''contractId'', JStr (wr_contract_id r)), (''contractRevision'', JInt (int (wr_contract_revision r))),
     (''id'', JStr (wr_id r)), (''name'', JStr (wr_name r))]"

definition gate_json :: "human_gate option \<Rightarrow> json" where
  "gate_json g = (case g of None \<Rightarrow> JNull | Some Foundation \<Rightarrow> JStr ''foundation'' | Some Product \<Rightarrow> JStr ''product'')"

definition stage_json :: "workflow_stage \<Rightarrow> json" where
  "stage_json s = JObj [(''dependsOn'', JArr (map JStr (ws_depends_on s))), (''gate'', gate_json (ws_gate s)),
     (''id'', JStr (ws_id s)), (''name'', JStr (ws_name s)), (''purpose'', JStr (ws_purpose s)),
     (''roles'', JArr (map JStr (ws_roles s)))]"

definition recipe_json :: "workflow_recipe \<Rightarrow> json" where
  "recipe_json r = JObj
    [(''contracts'', JArr (map contract_json (wf_contracts r))),
     (''coordinatorInstructions'', JStr (wf_coordinator_instructions r)),
     (''description'', JStr (wf_description r)),
     (''id'', JStr (wf_id r)),
     (''name'', JStr (wf_name r)),
     (''revision'', JInt (int (wf_revision r))),
     (''roles'', JArr (map role_json (wf_roles r))),
     (''stages'', JArr (map stage_json (wf_stages r))),
     (''version'', JInt (int (wf_version r)))]"

fun source_json :: "recipe_source \<Rightarrow> json" where
  "source_json (BuiltIn i) = JObj [(''id'', JStr i), (''origin'', JStr ''builtIn'')]"
| "source_json (Personal i) = JObj [(''id'', JStr i), (''origin'', JStr ''personal'')]"
| "source_json (Project w p) = JObj [(''origin'', JStr ''project''), (''path'', JStr p), (''workspaceId'', JStr w)]"

definition recipe_content_digest :: "json_library \<Rightarrow> workflow_recipe \<Rightarrow> string" where
  "recipe_content_digest lib r = jl_digest lib (recipe_json r)"

section \<open>The stage order\<close>

definition stage_order :: "workflow_recipe \<Rightarrow> string list workflow" where
  "stage_order r = (case order_loop ws_id ws_depends_on (wf_stages r) [] of
     None \<Rightarrow> Inl (Refused ''workflow stage dependencies contain a cycle or missing reference'')
   | Some ordered \<Rightarrow> Inr (map ws_id ordered))"

section \<open>Validation\<close>

definition recipe_text :: "string \<Rightarrow> nat \<Rightarrow> string \<Rightarrow> unit workflow" where
  "recipe_text v max_len label = bailW (trim v = '''' \<or> length v > max_len \<or> CHR 0x00 \<in> set v)
     (''workflow '' @ label @ '' is empty, too long or contains NUL'')"

definition unique_values :: "string list \<Rightarrow> string \<Rightarrow> unit workflow" where
  "unique_values vs label = bailW (card (set vs) \<noteq> length vs) (''workflow '' @ label @ '' contains duplicates'')"

definition check_length :: "string \<Rightarrow> nat \<Rightarrow> unit workflow" where
  "check_length label n = bailW (n = 0 \<or> n > 16) (''workflow recipe requires 1-16 '' @ label)"

text \<open>The loop over the contracts; \<open>seen\<close> holds the contracts inserted so far.\<close>

fun check_contracts :: "json_library \<Rightarrow> role_contract list \<Rightarrow> role_contract list \<Rightarrow> unit workflow" where
  "check_contracts lib seen [] = Inr ()"
| "check_contracts lib seen (c # cs) =
    bindE (checked (contract_validate lib c)) (\<lambda>_.
    bindE (bailW (rc_id c \<in> rc_id ` set seen) ''duplicate workflow contract id'') (\<lambda>_.
    check_contracts lib (c # seen) cs))"

text \<open>The loop over the roles; it returns the contract identifiers used.\<close>

fun check_roles :: "role_contract list \<Rightarrow> string list \<Rightarrow> string list \<Rightarrow> workflow_role list \<Rightarrow> string list workflow" where
  "check_roles contracts seen used [] = Inr used"
| "check_roles contracts seen used (r # rs) =
    bindE (checked (portable_id (wr_id r))) (\<lambda>_.
    bindE (recipe_text (wr_name r) 160 ''role name'') (\<lambda>_.
    bindE (bailW (wr_id r \<in> set seen) ''duplicate workflow role id'') (\<lambda>_.
    bindE (bailW (case List.find (\<lambda>c. rc_id c = wr_contract_id r) contracts of
        None \<Rightarrow> True | Some c \<Rightarrow> rc_revision c \<noteq> wr_contract_revision r)
      ''workflow role references a missing contract revision'') (\<lambda>_.
    check_roles contracts (wr_id r # seen) (wr_contract_id r # used) rs))))"

text \<open>The loop over the stages; it returns the role identifiers used.\<close>

fun check_stages :: "string list \<Rightarrow> string list \<Rightarrow> string list \<Rightarrow> workflow_stage list \<Rightarrow> string list workflow" where
  "check_stages roles seen used [] = Inr used"
| "check_stages roles seen used (s # ss) =
    bindE (checked (portable_id (ws_id s))) (\<lambda>_.
    bindE (recipe_text (ws_name s) 160 ''stage name'') (\<lambda>_.
    bindE (recipe_text (ws_purpose s) 4096 ''stage purpose'') (\<lambda>_.
    bindE (bailW (ws_id s \<in> set seen) ''duplicate workflow stage id'') (\<lambda>_.
    bindE (bailW (ws_roles s = [] \<or> length (ws_roles s) > 16 \<or> length (ws_depends_on s) > 16)
      ''workflow stage has invalid role or dependency counts'') (\<lambda>_.
    bindE (unique_values (ws_roles s) ''stage roles'') (\<lambda>_.
    bindE (unique_values (ws_depends_on s) ''stage dependencies'') (\<lambda>_.
    bindE (bailW (\<not> set (ws_roles s) \<subseteq> set roles) ''workflow stage references a missing role'') (\<lambda>_.
    check_stages roles (ws_id s # seen) (ws_roles s @ used) ss))))))))"

text \<open>
  The worklist that collects the stages a gate follows; the head of \<open>pending\<close> is the end of the vector.
\<close>

function ancestor_loop :: "workflow_stage list \<Rightarrow> string list \<Rightarrow> string list \<Rightarrow> string list workflow" where
  "ancestor_loop stages ancestors [] = Inr ancestors"
| "ancestor_loop stages ancestors (i # pending) =
    (if i \<in> set ancestors then ancestor_loop stages ancestors pending
     else case List.find (\<lambda>s. ws_id s = i) stages of
       None \<Rightarrow> Inl Panicked
     | Some s \<Rightarrow> ancestor_loop stages (i # ancestors) (rev (ws_depends_on s) @ pending))"
  by pat_completeness auto
termination
proof (relation "(\<lambda>(stages, ancestors, _). card (ws_id ` set stages - set ancestors))
    <*mlex*> (measure (\<lambda>(_, _, pending). length pending))", goal_cases)
  case 1
  show ?case by (simp add: wf_mlex)
next
  case (2 stages ancestors i pending)
  then show ?case by (simp add: mlex_prod_def)
next
  case (3 stages ancestors i pending s)
  then have "i \<in> ws_id ` set stages" by (auto simp: find_Some_iff)
  with 3 have "card (ws_id ` set stages - set (i # ancestors)) < card (ws_id ` set stages - set ancestors)"
    by (intro psubset_card_mono) auto
  then show ?case by (simp add: mlex_less)
qed

declare ancestor_loop.simps(2) [simp del]

definition check_product_gate :: "workflow_recipe \<Rightarrow> unit workflow" where
  "check_product_gate r = (case filter (\<lambda>s. ws_gate s = Some Product) (wf_stages r) of
     [] \<Rightarrow> Inr ()
   | p # _ \<Rightarrow> bindE (ancestor_loop (wf_stages r) [] (rev (ws_depends_on p))) (\<lambda>ancestors.
       bailW (length ancestors + 1 \<noteq> length (wf_stages r)) ''Product gate must follow every other stage''))"

definition gates_of :: "human_gate \<Rightarrow> workflow_recipe \<Rightarrow> workflow_stage list" where
  "gates_of g r = filter (\<lambda>s. ws_gate s = Some g) (wf_stages r)"

definition recipe_validate :: "json_library \<Rightarrow> workflow_recipe \<Rightarrow> unit workflow" where
  "recipe_validate lib r =
    bindE (bailW (wf_version r \<noteq> 1 \<or> wf_revision r = 0) ''workflow recipe requires version 1 and a positive revision'') (\<lambda>_.
    bindE (checked (portable_id (wf_id r))) (\<lambda>_.
    bindE (recipe_text (wf_name r) 160 ''name'') (\<lambda>_.
    bindE (recipe_text (wf_description r) 4096 ''description'') (\<lambda>_.
    bindE (recipe_text (wf_coordinator_instructions r) 16384 ''coordinator instructions'') (\<lambda>_.
    bindE (checked (bounded_json lib (recipe_json r) workflow_document_max_bytes)) (\<lambda>_.
    bindE (check_length ''roles'' (length (wf_roles r))) (\<lambda>_.
    bindE (check_length ''contracts'' (length (wf_contracts r))) (\<lambda>_.
    bindE (check_length ''stages'' (length (wf_stages r))) (\<lambda>_.
    bindE (check_contracts lib [] (wf_contracts r)) (\<lambda>_.
    bindE (check_roles (wf_contracts r) [] [] (wf_roles r)) (\<lambda>used_contracts.
    bindE (bailW (card (set used_contracts) \<noteq> length (wf_contracts r)) ''workflow recipe contains an unused contract'') (\<lambda>_.
    bindE (check_stages (map wr_id (wf_roles r)) [] [] (wf_stages r)) (\<lambda>used_roles.
    bindE (bailW (card (set used_roles) \<noteq> length (wf_roles r)) ''workflow recipe contains an unused role'') (\<lambda>_.
    bindE (bailW (\<exists>s \<in> set (wf_stages r). \<exists>d \<in> set (ws_depends_on s). d = ws_id s \<or> d \<notin> ws_id ` set (wf_stages r))
      ''workflow stage has a missing or self dependency'') (\<lambda>_.
    bindE (stage_order r) (\<lambda>_.
    bindE (bailW (length (gates_of Foundation r) > 1 \<or> length (gates_of Product r) > 1)
      ''workflow recipes allow at most one Foundation and one Product gate'') (\<lambda>_.
    check_product_gate r)))))))))))))))))"

section \<open>Correctness of the stage order\<close>

abbreviation stage_edges :: "workflow_stage list \<Rightarrow> (string \<times> string) set" where
  "stage_edges \<equiv> dependency_edges ws_id ws_depends_on"

definition comes_before :: "'a list \<Rightarrow> 'a \<Rightarrow> 'a \<Rightarrow> bool" where
  "comes_before xs a b \<longleftrightarrow> (\<exists>ys zs. xs = ys @ b # zs \<and> a \<in> set ys)"

lemma dependency_order_before:
  assumes "dependency_order key deps xs" "x \<in> set xs" "d \<in> set (deps x)"
  shows "comes_before (map key xs) d (key x)"
proof -
  obtain ys zs where xs: "xs = ys @ x # zs" using assms(2) by (meson split_list)
  with assms(1) have "set (deps x) \<subseteq> key ` set ys" unfolding dependency_order_def by blast
  with xs assms(3) show ?thesis 
    unfolding comes_before_def by (intro exI [of _ "map key ys"] exI [of _ "map key zs"]) auto
qed

text \<open>
  C33: \<open>stage_order\<close> returns an order exactly when the stages have one, that is when their identifiers are
  unique, every dependency names a stage and no stage depends on itself through others.  The order lists
  every stage once, each after all the stages it depends on.
\<close>

theorem stage_order_exact:
  "((\<exists>ids. stage_order r = Inr ids) \<longleftrightarrow> orderable ws_id ws_depends_on (wf_stages r))
    \<and> (\<forall>ids. stage_order r = Inr ids \<longrightarrow> mset ids = mset (map ws_id (wf_stages r))
        \<and> (\<forall>s \<in> set (wf_stages r). \<forall>d \<in> set (ws_depends_on s). comes_before ids d (ws_id s)))"
proof (intro conjI allI impI)
  show "(\<exists>ids. stage_order r = Inr ids) \<longleftrightarrow> orderable ws_id ws_depends_on (wf_stages r)"
    unfolding order_loop_iff [symmetric] by (auto simp: stage_order_def split: option.splits)
  fix ids
  assume "stage_order r = Inr ids"
  then obtain ordered where o: "order_loop ws_id ws_depends_on (wf_stages r) [] = Some ordered" "ids = map ws_id ordered"
    by (auto simp: stage_order_def split: option.splits)
  note p = order_loop_permutes [OF o(1)]
  show "mset ids = mset (map ws_id (wf_stages r))" using p(2) o(2) by (simp add: mset_map)
  show "\<forall>s \<in> set (wf_stages r). \<forall>d \<in> set (ws_depends_on s). comes_before ids d (ws_id s)"
    using dependency_order_before [OF p(1)] mset_eq_setD [OF p(2)] o(2) by blast
qed

section \<open>What validation guarantees\<close>

lemma check_contracts_Inr:
  "check_contracts lib seen cs = Inr () \<Longrightarrow> (\<forall>c \<in> set cs. contract_validate lib c = Inr ())
     \<and> distinct (map rc_id cs) \<and> rc_id ` set cs \<inter> rc_id ` set seen = {}"
proof (induction cs arbitrary: seen)
  case (Cons c cs)
  then have "contract_validate lib c = Inr ()" "rc_id c \<notin> rc_id ` set seen" "check_contracts lib (c # seen) cs = Inr ()"
    by (auto simp: bindE_Inr_iff)
  with Cons.IH [of "c # seen"] show ?case by auto
qed simp

definition binds_contract :: "role_contract list \<Rightarrow> workflow_role \<Rightarrow> bool" where
  "binds_contract contracts r \<longleftrightarrow>
    (\<exists>c \<in> set contracts. rc_id c = wr_contract_id r \<and> rc_revision c = wr_contract_revision r)"

lemma binds_contract_id: "binds_contract contracts r \<Longrightarrow> wr_contract_id r \<in> rc_id ` set contracts"
  unfolding binds_contract_def by force

lemma check_roles_Inr:
  "check_roles contracts seen used rs = Inr used' \<Longrightarrow> (\<forall>r \<in> set rs. binds_contract contracts r)
     \<and> distinct (map wr_id rs) \<and> wr_id ` set rs \<inter> set seen = {}
     \<and> set used' = set used \<union> wr_contract_id ` set rs"
proof (induction rs arbitrary: seen used)
  case (Cons r rs)
  then have step: "wr_id r \<notin> set seen"
    "check_roles contracts (wr_id r # seen) (wr_contract_id r # used) rs = Inr used'"
    "\<exists>c. List.find (\<lambda>c. rc_id c = wr_contract_id r) contracts = Some c \<and> rc_revision c = wr_contract_revision r"
    by (auto simp: bindE_Inr_iff split: option.splits)
  have "binds_contract contracts r"
    using step(3) by (auto simp: binds_contract_def find_Some_iff)
  with Cons.IH [OF step(2)] step(1) show ?case by auto
qed simp

lemma check_stages_Inr:
  "check_stages roles seen used ss = Inr used' \<Longrightarrow>
     (\<forall>s \<in> set ss. ws_roles s \<noteq> [] \<and> set (ws_roles s) \<subseteq> set roles \<and> distinct (ws_depends_on s))
     \<and> distinct (map ws_id ss) \<and> ws_id ` set ss \<inter> set seen = {}
     \<and> set used' = set used \<union> (\<Union>s \<in> set ss. set (ws_roles s))"
proof (induction ss arbitrary: seen used)
  case (Cons s ss)
  then have step: "ws_roles s \<noteq> []" "set (ws_roles s) \<subseteq> set roles" "ws_id s \<notin> set seen"
    "check_stages roles (ws_id s # seen) (ws_roles s @ used) ss = Inr used'"
    "card (set (ws_depends_on s)) = length (ws_depends_on s)"
    by (auto simp: bindE_Inr_iff unique_values_def)
  with Cons.IH [OF step(4)] card_distinct [OF step(5)] show ?case by auto
qed simp

subsection \<open>The stages before a gate\<close>

lemma ancestor_loop_Inr:
  assumes "\<forall>s \<in> set stages. set (ws_depends_on s) \<subseteq> ws_id ` set stages" "set pending \<subseteq> ws_id ` set stages"
    "distinct ancestors"
  shows "\<exists>as. ancestor_loop stages ancestors pending = Inr as \<and> distinct as
    \<and> (\<forall>a \<in> set as. a \<in> set ancestors \<or> (\<exists>p \<in> set pending. (a, p) \<in> (stage_edges stages)\<^sup>*))"
  using assms
proof (induction stages ancestors pending rule: ancestor_loop.induct)
  case (2 stages ancestors i pending)
  show ?case
  proof (cases "i \<in> set ancestors")
    case True
    with 2 show ?thesis by (auto simp: ancestor_loop.simps)
  next
    case False
    have "List.find (\<lambda>s. ws_id s = i) stages \<noteq> None" using 2(4) by (auto simp: find_None_iff)
    then obtain s where s: "List.find (\<lambda>s. ws_id s = i) stages = Some s" by blast
    then have s': "s \<in> set stages" "ws_id s = i" by (auto simp: find_Some_iff)
    have dep: "(d, i) \<in> stage_edges stages" if "d \<in> set (ws_depends_on s)" for d
      using that s' by (auto simp: dependency_edges_def)
    have prem: "set (rev (ws_depends_on s) @ pending) \<subseteq> ws_id ` set stages" "distinct (i # ancestors)"
      using 2(3-5) s'(1) False by auto
    obtain as where as: "ancestor_loop stages (i # ancestors) (rev (ws_depends_on s) @ pending) = Inr as" "distinct as"
      "\<forall>a \<in> set as. a \<in> set (i # ancestors) \<or> (\<exists>p \<in> set (rev (ws_depends_on s) @ pending). (a, p) \<in> (stage_edges stages)\<^sup>*)"
      using 2(2) [OF False s 2(3) prem] by blast
    have "a \<in> set ancestors \<or> (\<exists>p \<in> set (i # pending). (a, p) \<in> (stage_edges stages)\<^sup>*)" if a: "a \<in> set as" for a
    proof -
      consider "a = i" | "a \<in> set ancestors" | p where "p \<in> set (ws_depends_on s)" "(a, p) \<in> (stage_edges stages)\<^sup>*"
        | p where "p \<in> set pending" "(a, p) \<in> (stage_edges stages)\<^sup>*" using as(3) a by auto
      then show ?thesis by cases (auto intro: rtrancl_into_rtrancl dep)
    qed
    with as False s show ?thesis by (auto simp: ancestor_loop.simps)
  qed
qed simp

text \<open>With the counts of the check, every other stage is a transitive dependency of the gated one.\<close>

lemma product_gate_follows:
  assumes "orderable ws_id ws_depends_on (wf_stages r)" "check_product_gate r = Inr ()"
    "gates_of Product r = [p]" "s \<in> set (wf_stages r)" "s \<noteq> p"
  shows "(ws_id s, ws_id p) \<in> (stage_edges (wf_stages r))\<^sup>+"
proof -
  let ?E = "stage_edges (wf_stages r)"
  let ?ids = "ws_id ` set (wf_stages r)"
  have closed: "\<forall>s \<in> set (wf_stages r). set (ws_depends_on s) \<subseteq> ?ids" and dist: "distinct (map ws_id (wf_stages r))"
    and acyc: "acyclic ?E" using assms(1) by (auto simp: orderable_def)
  have "p \<in> set (gates_of Product r)" using assms(3) by simp
  then have p: "p \<in> set (wf_stages r)" by (simp add: gates_of_def)
  have pend: "set (rev (ws_depends_on p)) \<subseteq> ?ids" using closed p by simp
  obtain as where as: "ancestor_loop (wf_stages r) [] (rev (ws_depends_on p)) = Inr as" "distinct as"
    "\<forall>a \<in> set as. \<exists>d \<in> set (ws_depends_on p). (a, d) \<in> ?E\<^sup>*"
    using ancestor_loop_Inr [OF closed pend distinct.simps(1) [THEN iffD2, OF TrueI]] by auto
  have len: "length as + 1 = length (wf_stages r)"
    using assms(2,3) as(1) by (simp add: check_product_gate_def gates_of_def)
  have anc: "(a, ws_id p) \<in> ?E\<^sup>+" if "a \<in> set as" for a
  proof -
    obtain d where "d \<in> set (ws_depends_on p)" "(a, d) \<in> ?E\<^sup>*" using as(3) \<open>a \<in> set as\<close> by blast
    moreover have "(d, ws_id p) \<in> ?E" using calculation(1) p by (auto simp: dependency_edges_def)
    ultimately show ?thesis by (auto intro: rtrancl_into_trancl1)
  qed
  then have "ws_id p \<notin> set as" using acyc by (auto simp: acyclic_def)
  moreover have "set as \<subseteq> ?ids"
  proof
    fix a assume "a \<in> set as"
    then obtain b where "(a, b) \<in> ?E" using anc by (meson tranclD)
    then show "a \<in> ?ids" using closed by (auto simp: dependency_edges_def)
  qed
  ultimately have sub: "insert (ws_id p) (set as) \<subseteq> ?ids" using p by auto
  have "card (insert (ws_id p) (set as)) = length (wf_stages r)"
    using \<open>ws_id p \<notin> set as\<close> as(2) len by (simp add: distinct_card)
  also have "\<dots> = card ?ids" using dist by (metis distinct_card length_map set_map)
  finally have "insert (ws_id p) (set as) = ?ids" using sub by (intro card_subset_eq) auto
  moreover have "ws_id s \<noteq> ws_id p" using dist assms(4,5) p by (auto simp: distinct_map inj_on_def)
  ultimately show ?thesis using anc assms(4) by auto
qed

text \<open>A recipe whose parts fit together.\<close>

definition recipe_ok :: "json_library \<Rightarrow> workflow_recipe \<Rightarrow> bool" where
  "recipe_ok lib r \<longleftrightarrow>
     (\<forall>c \<in> set (wf_contracts r). contract_validate lib c = Inr ()) \<and> distinct (map rc_id (wf_contracts r))
     \<and> (\<forall>w \<in> set (wf_roles r). binds_contract (wf_contracts r) w) \<and> distinct (map wr_id (wf_roles r))
     \<and> rc_id ` set (wf_contracts r) = wr_contract_id ` set (wf_roles r)
     \<and> (\<forall>s \<in> set (wf_stages r). ws_roles s \<noteq> []) \<and> (\<Union>s \<in> set (wf_stages r). set (ws_roles s)) = wr_id ` set (wf_roles r)
     \<and> orderable ws_id ws_depends_on (wf_stages r)
     \<and> length (gates_of Foundation r) \<le> 1 \<and> length (gates_of Product r) \<le> 1"

lemma card_covers:
  assumes "A \<subseteq> key ` set xs" "card A = length xs" "distinct (map key xs)"
  shows "A = key ` set xs"
  using assms by (intro card_subset_eq) (auto simp: distinct_card [symmetric] distinct_map card_image)

lemma recipe_validate_stages:
  assumes "recipe_validate lib r = Inr ()"
  obtains used_contracts used_roles where
    "check_contracts lib [] (wf_contracts r) = Inr ()" "check_roles (wf_contracts r) [] [] (wf_roles r) = Inr used_contracts"
    "card (set used_contracts) = length (wf_contracts r)"
    "check_stages (map wr_id (wf_roles r)) [] [] (wf_stages r) = Inr used_roles"
    "card (set used_roles) = length (wf_roles r)" "\<exists>ids. stage_order r = Inr ids"
    "length (gates_of Foundation r) \<le> 1" "length (gates_of Product r) \<le> 1" "check_product_gate r = Inr ()"
  using assms unfolding recipe_validate_def bindE_Inr_iff by (auto simp: not_less)

lemma recipe_validate_ok:
  assumes "recipe_validate lib r = Inr ()"
  shows "recipe_ok lib r \<and> check_product_gate r = Inr ()"
proof -
  obtain used_contracts used_roles where v:
    "check_contracts lib [] (wf_contracts r) = Inr ()" "check_roles (wf_contracts r) [] [] (wf_roles r) = Inr used_contracts"
    "card (set used_contracts) = length (wf_contracts r)"
    "check_stages (map wr_id (wf_roles r)) [] [] (wf_stages r) = Inr used_roles"
    "card (set used_roles) = length (wf_roles r)" "\<exists>ids. stage_order r = Inr ids"
    "length (gates_of Foundation r) \<le> 1" "length (gates_of Product r) \<le> 1" "check_product_gate r = Inr ()"
    using recipe_validate_stages [OF assms] by blast
  note cs = check_contracts_Inr [OF v(1)] and rs = check_roles_Inr [OF v(2)] and ss = check_stages_Inr [OF v(4)]
  have "set used_contracts = rc_id ` set (wf_contracts r)"
    using cs rs v(3) by (intro card_covers) (auto intro: binds_contract_id)
  moreover have "set used_roles = wr_id ` set (wf_roles r)"
    using rs ss v(5) by (intro card_covers) auto
  moreover have "orderable ws_id ws_depends_on (wf_stages r)"
    using v(6) unfolding order_loop_iff [symmetric] by (auto simp: stage_order_def split: option.splits)
  ultimately show ?thesis using cs rs ss v by (auto simp: recipe_ok_def)
qed

text \<open>
  C32: A recipe that passes validation is coherent.  Contract, role and stage identifiers are unique, every
  role binds an existing contract revision, every contract is bound by a role and every role works in a
  stage.  The stage dependencies have an order, there is at most one gate of each kind, and every stage
  other than the one with the Product gate precedes it through the dependencies, so approving the product is
  the last decision of the run.
\<close>

theorem valid_recipes_are_coherent:
  assumes "recipe_validate lib r = Inr ()"
  shows "recipe_ok lib r
    \<and> (\<forall>p s. gates_of Product r = [p] \<and> s \<in> set (wf_stages r) \<and> s \<noteq> p \<longrightarrow>
        (ws_id s, ws_id p) \<in> (stage_edges (wf_stages r))\<^sup>+)"
  using recipe_validate_ok [OF assms] product_gate_follows by (auto simp: recipe_ok_def)

section \<open>Validation never panics\<close>

named_theorems calm_intros \<open>checks that end in a result or an error\<close>

definition calm :: "'a workflow \<Rightarrow> bool" where
  "calm m \<longleftrightarrow> m \<noteq> Inl Panicked"

lemma calm_basic [calm_intros, simp]:
  "calm (Inr x)" "calm (Inl (Refused e))" "calm (checked c)" "calm (bailW b e)" "calm (recipe_text v n l)"
  "calm (check_length l k)" "calm (unique_values vs l)"
  by (simp_all add: calm_def recipe_text_def check_length_def unique_values_def)

lemma calm_bind [calm_intros]: "calm m \<Longrightarrow> (\<And>x. m = Inr x \<Longrightarrow> calm (f x)) \<Longrightarrow> calm (bindE m f)"
  by (cases m) (auto simp: calm_def)

lemma calm_check_contracts [calm_intros, simp]: "calm (check_contracts lib seen cs)"
  by (induction cs arbitrary: seen) (auto intro!: calm_intros)

lemma calm_check_roles [calm_intros, simp]: "calm (check_roles contracts seen used rs)"
  by (induction rs arbitrary: seen used) (auto intro!: calm_intros)

lemma calm_check_stages [calm_intros, simp]: "calm (check_stages roles seen used ss)"
  by (induction ss arbitrary: seen used) (auto intro!: calm_intros)

lemma calm_stage_order [calm_intros, simp]: "calm (stage_order r)"
  by (auto simp: stage_order_def split: option.splits)

lemma calm_product_gate:
  assumes "\<forall>s \<in> set (wf_stages r). set (ws_depends_on s) \<subseteq> ws_id ` set (wf_stages r)"
  shows "calm (check_product_gate r)"
proof (cases "filter (\<lambda>s. ws_gate s = Some Product) (wf_stages r)")
  case (Cons p ps)
  then have "p \<in> set (filter (\<lambda>s. ws_gate s = Some Product) (wf_stages r))" by simp
  then have p: "set (rev (ws_depends_on p)) \<subseteq> ws_id ` set (wf_stages r)" using assms by auto
  obtain as where "ancestor_loop (wf_stages r) [] (rev (ws_depends_on p)) = Inr as"
    using ancestor_loop_Inr [OF assms p distinct.simps(1) [THEN iffD2, OF TrueI]] by blast
  with Cons show ?thesis by (simp add: check_product_gate_def)
qed (simp add: check_product_gate_def)

lemma calm_recipe_validate [calm_intros, simp]: "calm (recipe_validate lib r)"
  unfolding recipe_validate_def by (intro calm_intros calm_product_gate) auto

section \<open>Sources and snapshots\<close>

definition source_validate :: "recipe_source \<Rightarrow> string \<Rightarrow> unit workflow" where
  "source_validate src recipe_id = (case src of
     Project workspace_id path \<Rightarrow>
       bindE (bailW (workspace_id = '''' \<or> length workspace_id > 160) ''workflow source requires a workspace id'') (\<lambda>_.
       bindE (checked (artifact_path path)) (\<lambda>_.
       bindE (bailW (\<not> prefix ''.alera/workflows/'' path) ''project workflow source must be in .alera/workflows'') (\<lambda>_.
       bailW (CHR ''/'' \<in> set (drop (length ''.alera/workflows/'') path)
           \<or> \<not> suffix ''.yaml'' (drop (length ''.alera/workflows/'') path))
         ''project workflow source must be a direct YAML file'')))
   | BuiltIn i \<Rightarrow> bindE (checked (portable_id i)) (\<lambda>_.
       bailW (i \<noteq> recipe_id) ''workflow source id does not match the recipe'')
   | Personal i \<Rightarrow> bindE (checked (portable_id i)) (\<lambda>_.
       bailW (i \<noteq> recipe_id) ''workflow source id does not match the recipe''))"

definition recipe_snapshot_digest :: "json_library \<Rightarrow> recipe_snapshot \<Rightarrow> string" where
  "recipe_snapshot_digest lib s =
     jl_digest lib (JArr [JInt (int (rs_version s)), source_json (rs_source s), recipe_json (rs_recipe s)])"

definition recipe_freeze :: "json_library \<Rightarrow> recipe_source \<Rightarrow> workflow_recipe \<Rightarrow> recipe_snapshot workflow" where
  "recipe_freeze lib src r =
    bindE (recipe_validate lib r) (\<lambda>_.
    bindE (source_validate src (wf_id r)) (\<lambda>_.
    let snapshot = \<lparr>rs_version = 1, rs_source = src, rs_recipe = r, rs_digest = ''''\<rparr>
    in Inr (snapshot\<lparr>rs_digest := recipe_snapshot_digest lib snapshot\<rparr>)))"

definition recipe_snapshot_validate :: "json_library \<Rightarrow> recipe_snapshot \<Rightarrow> unit workflow" where
  "recipe_snapshot_validate lib s =
    bindE (recipe_validate lib (rs_recipe s)) (\<lambda>_.
    bindE (source_validate (rs_source s) (wf_id (rs_recipe s))) (\<lambda>_.
    bailW (rs_version s \<noteq> 1 \<or> rs_digest s \<noteq> recipe_snapshot_digest lib s)
      ''workflow recipe snapshot does not match its frozen contents''))"

lemma calm_source [calm_intros, simp]: "calm (source_validate src i)"
  by (cases src) (auto simp: source_validate_def intro!: calm_intros)

lemma calm_recipe_snapshot_validate [calm_intros, simp]: "calm (recipe_snapshot_validate lib s)"
  unfolding recipe_snapshot_validate_def by (intro calm_intros)

lemma recipe_freeze_validates:
  "recipe_freeze lib src r = Inr s \<Longrightarrow> recipe_snapshot_validate lib s = Inr () \<and> rs_recipe s = r \<and> rs_source s = src"
  by (auto simp: recipe_freeze_def recipe_snapshot_validate_def recipe_snapshot_digest_def bindE_Inr_iff Let_def)

section \<open>A recipe\<close>

definition demo_stage :: "string \<Rightarrow> string list \<Rightarrow> human_gate option \<Rightarrow> workflow_stage" where
  "demo_stage i deps g = \<lparr>ws_id = i, ws_name = i, ws_purpose = ''Work'', ws_roles = [''worker''],
     ws_depends_on = deps, ws_gate = g\<rparr>"

definition demo_recipe :: workflow_recipe where
  "demo_recipe = \<lparr>wf_version = 1, wf_id = ''recipe'', wf_revision = 1, wf_name = ''Recipe'', wf_description = ''Demo'',
     wf_coordinator_instructions = ''Coordinate'',
     wf_roles = [\<lparr>wr_id = ''worker'', wr_name = ''Worker'', wr_contract_id = ''builder'', wr_contract_revision = 1\<rparr>],
     wf_contracts = [demo_contract],
     wf_stages = [demo_stage ''ship'' [''build''] (Some Product), demo_stage ''build'' [] None]\<rparr>"

lemma demo_stage_order: "stage_order demo_recipe = Inr [''build'', ''ship'']"
  by (simp add: stage_order_def demo_recipe_def demo_stage_def order_loop.simps order_pass_def place_def)

lemma demo_recipe_valid: "recipe_validate demo_library demo_recipe = Inr ()"
proof -
  have "portable_id ''recipe'' = Inr () \<and> portable_id ''worker'' = Inr () \<and> portable_id ''ship'' = Inr ()
    \<and> portable_id ''build'' = Inr ()" by code_simp
  moreover have "bounded_json demo_library (recipe_json demo_recipe) workflow_document_max_bytes = Inr ()"
    by (simp add: bounded_json_def bounded_loop.simps recipe_json_def role_json_def stage_json_def gate_json_def
      contract_json_def checklist_json_def demo_recipe_def demo_stage_def demo_contract_def demo_schema_def
      demo_library_def workflow_document_max_bytes_def)
  moreover have "recipe_text v n l = Inr ()" if "v \<in> {''Recipe'', ''Demo'', ''Coordinate'', ''Worker'', ''ship'', ''build'', ''Work''}"
      "10 \<le> n" for v n l
    using that by (auto simp: recipe_text_def trim_graphic graphic_def)
  moreover have "rc_id demo_contract = ''builder'' \<and> rc_revision demo_contract = 1" by (simp add: demo_contract_def)
  ultimately show ?thesis
    using demo_stage_order demo_contract_valid
    by (simp add: recipe_validate_def demo_recipe_def check_length_def demo_stage_def unique_values_def gates_of_def
      check_product_gate_def ancestor_loop.simps)
qed

theorem stage_order_exact_witness:
  "stage_order demo_recipe = Inr [''build'', ''ship''] \<and> comes_before [''build'', ''ship''] ''build'' ''ship''"
proof -
  have "demo_stage ''ship'' [''build''] (Some Product) \<in> set (wf_stages demo_recipe)" by (simp add: demo_recipe_def)
  with stage_order_exact [of demo_recipe] demo_stage_order show ?thesis by (fastforce simp: demo_stage_def)
qed

theorem valid_recipes_are_coherent_witness:
  "recipe_validate demo_library demo_recipe = Inr () \<and> recipe_ok demo_library demo_recipe
    \<and> (''build'', ''ship'') \<in> (stage_edges (wf_stages demo_recipe))\<^sup>+"
proof -
  let ?p = "demo_stage ''ship'' [''build''] (Some Product)" and ?s = "demo_stage ''build'' [] None"
  have "gates_of Product demo_recipe = [?p]" "?s \<in> set (wf_stages demo_recipe)" "?s \<noteq> ?p"
    by (simp_all add: gates_of_def demo_recipe_def demo_stage_def)
  with valid_recipes_are_coherent [OF demo_recipe_valid] demo_recipe_valid
  have "(ws_id ?s, ws_id ?p) \<in> (stage_edges (wf_stages demo_recipe))\<^sup>+ \<and> recipe_ok demo_library demo_recipe" by blast
  with demo_recipe_valid show ?thesis by (simp add: demo_stage_def)
qed

end
