(* ===== verification/Workflow_Plan.thy ===== *)
theory Workflow_Plan
  imports Workflow_Recipe
begin

text \<open>
  Plans (\<open>run_plan.rs\<close>, \<open>run_plan_compilation.rs\<close>, \<open>run_plan_inputs.rs\<close>): the tasks a coordinator
  proposes, compiled against the frozen recipe of an isolated run, or checked as the task graph of a shared
  run.  A \<open>BTreeMap\<close> is an association list with ascending keys, a \<open>BTreeSet\<close> that is turned into a vector an
  ascending list.
\<close>

section \<open>Plans\<close>

definition workflow_plan_max_bytes :: nat where
  "workflow_plan_max_bytes = 1024 * 1024"

definition workflow_plan_max_tasks :: nat where
  "workflow_plan_max_tasks = 128"

record plan_task =
  pt_id :: string
  pt_title :: string
  pt_spec :: string
  pt_stage_id :: string
  pt_role_id :: string
  pt_depends_on :: "string list"
  pt_inputs :: json
  pt_corrects_task_id :: "string option"

record plan_proposal =
  pp_objective :: string
  pp_source_sha :: string
  pp_recipe_source :: recipe_source
  pp_expected_recipe_digest :: string
  pp_coordinator_profile_id :: string
  pp_role_profiles :: "(string \<times> string) list"
  pp_max_concurrent :: nat
  pp_tasks :: "plan_task list"

datatype launch_mode = Managed | Command

record agent_profile =
  ap_id :: string
  ap_name :: string
  ap_sort_order :: int
  ap_agent_type :: string
  ap_command :: string
  ap_launch_mode :: launch_mode
  ap_managed_config :: "json option"
  ap_custom_prompt :: string
  ap_description :: string
  ap_quota_group :: "string option"
  ap_show_in_new_tab_menu :: bool
  ap_revision :: int
  ap_created_at :: string
  ap_updated_at :: string

record frozen_task =
  ft_task :: plan_task
  ft_contract :: contract_snapshot
  ft_profile_id :: string

record source_workspace =
  sw_workspace_id :: string
  sw_instance_id :: string
  sw_project_id :: string
  sw_path :: string
  sw_project_repo_path :: string

record plan_snapshot =
  ps_version :: nat
  ps_source_workspace :: source_workspace
  ps_objective :: string
  ps_source_sha :: string
  ps_recipe :: recipe_snapshot
  ps_coordinator_profile_id :: string
  ps_profiles :: "(string \<times> agent_profile) list"
  ps_max_concurrent :: nat
  ps_tasks :: "frozen_task list"
  ps_digest :: string

definition workflow_text :: "string \<Rightarrow> nat \<Rightarrow> unit workflow" where
  "workflow_text v max_len = bailW (trim v = '''' \<or> length v > max_len \<or> CHR 0x00 \<in> set v)
     ''workflow text is empty, too long or contains NUL''"

subsection \<open>Serialised form\<close>

definition opt_str_json :: "string option \<Rightarrow> json" where
  "opt_str_json o' = (case o' of None \<Rightarrow> JNull | Some s \<Rightarrow> JStr s)"

definition plan_task_json :: "plan_task \<Rightarrow> json" where
  "plan_task_json t = JObj [(''correctsTaskId'', opt_str_json (pt_corrects_task_id t)),
     (''dependsOn'', JArr (map JStr (pt_depends_on t))), (''id'', JStr (pt_id t)), (''inputs'', pt_inputs t),
     (''roleId'', JStr (pt_role_id t)), (''spec'', JStr (pt_spec t)), (''stageId'', JStr (pt_stage_id t)),
     (''title'', JStr (pt_title t))]"

definition proposal_json :: "plan_proposal \<Rightarrow> json" where
  "proposal_json p = JObj [(''coordinatorProfileId'', JStr (pp_coordinator_profile_id p)),
     (''expectedRecipeDigest'', JStr (pp_expected_recipe_digest p)),
     (''maxConcurrent'', JInt (int (pp_max_concurrent p))), (''objective'', JStr (pp_objective p)),
     (''recipeSource'', source_json (pp_recipe_source p)),
     (''roleProfiles'', JObj (map (\<lambda>(k, v). (k, JStr v)) (pp_role_profiles p))),
     (''sourceSha'', JStr (pp_source_sha p)), (''tasks'', JArr (map plan_task_json (pp_tasks p)))]"

definition profile_json :: "agent_profile \<Rightarrow> json" where
  "profile_json a = JObj [(''agentType'', JStr (ap_agent_type a)), (''command'', JStr (ap_command a)),
     (''createdAt'', JStr (ap_created_at a)), (''customPrompt'', JStr (ap_custom_prompt a)),
     (''description'', JStr (ap_description a)), (''id'', JStr (ap_id a)),
     (''launchMode'', JStr (case ap_launch_mode a of Managed \<Rightarrow> ''managed'' | Command \<Rightarrow> ''command'')),
     (''managedConfig'', case ap_managed_config a of None \<Rightarrow> JNull | Some v \<Rightarrow> v),
     (''name'', JStr (ap_name a)), (''quotaGroup'', opt_str_json (ap_quota_group a)),
     (''revision'', JInt (ap_revision a)), (''showInNewTabMenu'', JBool (ap_show_in_new_tab_menu a)),
     (''sortOrder'', JInt (ap_sort_order a)), (''updatedAt'', JStr (ap_updated_at a))]"

definition contract_snapshot_json :: "contract_snapshot \<Rightarrow> json" where
  "contract_snapshot_json s = JObj [(''contract'', contract_json (cs_contract s)), (''digest'', JStr (cs_digest s)),
     (''inputs'', cs_inputs s), (''version'', JInt (int (cs_version s)))]"

definition recipe_snapshot_json :: "recipe_snapshot \<Rightarrow> json" where
  "recipe_snapshot_json s = JObj [(''digest'', JStr (rs_digest s)), (''recipe'', recipe_json (rs_recipe s)),
     (''source'', source_json (rs_source s)), (''version'', JInt (int (rs_version s)))]"

definition frozen_task_json :: "frozen_task \<Rightarrow> json" where
  "frozen_task_json f = JObj [(''contract'', contract_snapshot_json (ft_contract f)),
     (''profileId'', JStr (ft_profile_id f)), (''task'', plan_task_json (ft_task f))]"

definition source_workspace_json :: "source_workspace \<Rightarrow> json" where
  "source_workspace_json w = JObj [(''instanceId'', JStr (sw_instance_id w)), (''path'', JStr (sw_path w)),
     (''projectId'', JStr (sw_project_id w)), (''projectRepoPath'', JStr (sw_project_repo_path w)),
     (''workspaceId'', JStr (sw_workspace_id w))]"

text \<open>The members of a plan snapshot apart from its digest, which \<open>content_digest\<close> covers.\<close>

definition plan_members :: "plan_snapshot \<Rightarrow> (string \<times> json) list" where
  "plan_members p = [(''coordinatorProfileId'', JStr (ps_coordinator_profile_id p)),
     (''maxConcurrent'', JInt (int (ps_max_concurrent p))), (''objective'', JStr (ps_objective p)),
     (''profiles'', JObj (map (\<lambda>(k, a). (k, profile_json a)) (ps_profiles p))),
     (''recipe'', recipe_snapshot_json (ps_recipe p)), (''sourceSha'', JStr (ps_source_sha p)),
     (''sourceWorkspace'', source_workspace_json (ps_source_workspace p)),
     (''tasks'', JArr (map frozen_task_json (ps_tasks p))), (''version'', JInt (int (ps_version p)))]"

definition plan_json :: "plan_snapshot \<Rightarrow> json" where
  "plan_json p = JObj (map_insert ''digest'' (JStr (ps_digest p)) (plan_members p))"

definition plan_content_digest :: "json_library \<Rightarrow> plan_snapshot \<Rightarrow> string" where
  "plan_content_digest lib p = jl_digest lib (JObj (plan_members p))"

section \<open>Compilation of an isolated plan\<close>

definition lower_hex :: "char \<Rightarrow> bool" where
  "lower_hex c \<longleftrightarrow> CHR ''0'' \<le> c \<and> c \<le> CHR ''9'' \<or> CHR ''a'' \<le> c \<and> c \<le> CHR ''f''"

fun check_profiles :: "(string \<times> agent_profile) list \<Rightarrow> unit workflow" where
  "check_profiles [] = Inr ()"
| "check_profiles ((i, a) # ps) =
    bindE (bailW (i \<noteq> ap_id a \<or> ap_revision a < 0) ''workflow profile identity or revision is invalid'') (\<lambda>_.
    bindE (workflow_text (ap_agent_type a) 160) (\<lambda>_.
    bindE (workflow_text (ap_command a) 16384) (\<lambda>_.
    bindE (bailW (ap_launch_mode a = Managed \<and> ap_managed_config a = None)
      ''managed workflow profile requires launch configuration'') (\<lambda>_.
    check_profiles ps))))"

definition validate_selection ::
  "json_library \<Rightarrow> plan_proposal \<Rightarrow> recipe_snapshot \<Rightarrow> (string \<times> agent_profile) list \<Rightarrow> unit workflow" where
  "validate_selection lib p recipe profiles =
    bindE (checked (bounded_json lib (proposal_json p) workflow_plan_max_bytes)) (\<lambda>_.
    bindE (recipe_snapshot_validate lib recipe) (\<lambda>_.
    bindE (workflow_text (pp_objective p) 16384) (\<lambda>_.
    bindE (bailW (length (pp_source_sha p) \<noteq> 40 \<or> \<not> list_all lower_hex (pp_source_sha p))
      ''workflow source must be an exact lowercase commit SHA'') (\<lambda>_.
    bindE (bailW (\<not> (1 \<le> pp_max_concurrent p \<and> pp_max_concurrent p \<le> 16)) ''workflow requires 1-16 concurrent workers'') (\<lambda>_.
    bindE (bailW (pp_recipe_source p \<noteq> rs_source recipe
        \<or> pp_expected_recipe_digest p \<noteq> recipe_content_digest lib (rs_recipe recipe))
      ''workflow recipe changed; refresh before proposing a plan'') (\<lambda>_.
    bindE (bailW (fst ` set (pp_role_profiles p) \<noteq> wr_id ` set (wf_roles (rs_recipe recipe)))
      ''workflow requires exactly one profile binding for every role'') (\<lambda>_.
    bindE (bailW (fst ` set profiles \<noteq> insert (pp_coordinator_profile_id p) (snd ` set (pp_role_profiles p)))
      ''workflow references a missing profile'') (\<lambda>_.
    check_profiles profiles))))))))"

text \<open>The body of the loop over the proposed tasks.\<close>

definition freeze_task :: "json_library \<Rightarrow> plan_proposal \<Rightarrow> workflow_recipe \<Rightarrow> plan_task \<Rightarrow> frozen_task workflow" where
  "freeze_task lib p recipe t =
    bindE (checked (portable_id (pt_id t))) (\<lambda>_.
    bindE (workflow_text (pt_title t) 256) (\<lambda>_.
    bindE (workflow_text (pt_spec t) 16384) (\<lambda>_.
    bindE (bailW (length (pt_depends_on t) > workflow_plan_max_tasks) ''workflow task exceeds the dependency limit'') (\<lambda>_.
    bindE (of_option (Refused ''unknown workflow task stage'')
      (List.find (\<lambda>s. ws_id s = pt_stage_id t) (wf_stages recipe))) (\<lambda>stage.
    bindE (bailW (pt_role_id t \<notin> set (ws_roles stage)) ''workflow role is not allowed in this stage'') (\<lambda>_.
    bindE (of_option (Refused ''unknown workflow task role'')
      (List.find (\<lambda>r. wr_id r = pt_role_id t) (wf_roles recipe))) (\<lambda>role.
    bindE (bailW (pt_id t \<in> set (pt_depends_on t) \<or> \<not> set (pt_depends_on t) \<subseteq> pt_id ` set (pp_tasks p)
        \<or> \<not> distinct (pt_depends_on t))
      ''workflow task dependency is missing, duplicated or self-referential'') (\<lambda>_.
    let predecessors = filter (\<lambda>q. pt_stage_id q \<in> set (ws_depends_on stage)) (pp_tasks p);
        task = t\<lparr>pt_depends_on := sort (remdups (pt_depends_on t @ map pt_id predecessors))\<rparr>
    in
    bindE (of_option (Refused ''missing workflow contract revision'')
      (List.find (\<lambda>c. rc_id c = wr_contract_id role \<and> rc_revision c = wr_contract_revision role)
        (wf_contracts recipe))) (\<lambda>contract.
    bindE (checked (snapshot_freeze lib contract (pt_inputs task))) (\<lambda>snapshot.
    bindE (of_option Panicked (map_of (pp_role_profiles p) (pt_role_id task))) (\<lambda>profile_id.
    Inr \<lparr>ft_task = task, ft_contract = snapshot, ft_profile_id = profile_id\<rparr>)))))))))))"

fun freeze_tasks :: "json_library \<Rightarrow> plan_proposal \<Rightarrow> workflow_recipe \<Rightarrow> plan_task list \<Rightarrow> frozen_task list workflow" where
  "freeze_tasks lib p recipe [] = Inr []"
| "freeze_tasks lib p recipe (t # ts) =
    bindE (freeze_task lib p recipe t) (\<lambda>f. bindE (freeze_tasks lib p recipe ts) (\<lambda>fs. Inr (f # fs)))"

abbreviation ft_id :: "frozen_task \<Rightarrow> string" where
  "ft_id f \<equiv> pt_id (ft_task f)"

abbreviation ft_deps :: "frozen_task \<Rightarrow> string list" where
  "ft_deps f \<equiv> pt_depends_on (ft_task f)"

definition covered :: "workflow_recipe \<Rightarrow> frozen_task list \<Rightarrow> bool" where
  "covered recipe fs \<longleftrightarrow> (\<forall>s \<in> set (wf_stages recipe). \<forall>role \<in> set (ws_roles s).
     \<exists>f \<in> set fs. pt_stage_id (ft_task f) = ws_id s \<and> pt_role_id (ft_task f) = role)"

definition compile_plan ::
  "json_library \<Rightarrow> plan_proposal \<Rightarrow> recipe_snapshot \<Rightarrow> (string \<times> agent_profile) list \<Rightarrow> source_workspace \<Rightarrow> plan_snapshot workflow" where
  "compile_plan lib p recipe profiles ws =
    bindE (validate_selection lib p recipe profiles) (\<lambda>_.
    bindE (bailW (pp_tasks p = [] \<or> length (pp_tasks p) > workflow_plan_max_tasks) ''workflow requires 1-128 tasks'') (\<lambda>_.
    bindE (bailW (card (pt_id ` set (pp_tasks p)) \<noteq> length (pp_tasks p)) ''duplicate workflow task id'') (\<lambda>_.
    bindE (freeze_tasks lib p (rs_recipe recipe) (pp_tasks p)) (\<lambda>frozen.
    bindE (bailW (\<not> covered (rs_recipe recipe) frozen) ''workflow plan omits a mandatory stage or role'') (\<lambda>_.
    bindE (of_option (Refused ''workflow task dependencies contain a cycle'') (order_loop ft_id ft_deps frozen [])) (\<lambda>ordered.
    let snapshot = \<lparr>ps_version = 1, ps_source_workspace = ws, ps_objective = pp_objective p,
          ps_source_sha = pp_source_sha p, ps_recipe = recipe, ps_coordinator_profile_id = pp_coordinator_profile_id p,
          ps_profiles = profiles, ps_max_concurrent = pp_max_concurrent p, ps_tasks = ordered, ps_digest = ''''\<rparr>
    in bindE (checked (bounded_json lib (plan_json snapshot) workflow_plan_max_bytes)) (\<lambda>_.
    Inr (snapshot\<lparr>ps_digest := plan_content_digest lib snapshot\<rparr>))))))))"

section \<open>Inputs of a plan\<close>

record plan_task_input =
  ti_id :: string
  ti_title :: string
  ti_spec :: string
  ti_stage_id :: string
  ti_role_id :: "string option"
  ti_depends_on :: "string list"
  ti_inputs :: "json option"
  ti_corrects_task_id :: "string option"

record plan_stage_input =
  si_id :: string
  si_title :: "string option"
  si_profile :: "string option"
  si_fallbacks :: "string list"
  si_gate :: bool

record shared_plan_snapshot =
  sp_version :: nat
  sp_objective :: string
  sp_stages :: "plan_stage_input list"
  sp_tasks :: "plan_task_input list"
  sp_stall_policy :: string
  sp_max_concurrent :: nat
  sp_digest :: string

definition isolated_task :: "plan_task_input \<Rightarrow> recipe_snapshot \<Rightarrow> string \<Rightarrow> plan_task workflow" where
  "isolated_task t recipe objective =
    bindE (case ti_role_id t of
        Some role \<Rightarrow> Inr role
      | None \<Rightarrow>
          bindE (of_option (Refused (''unknown plan task stage: '' @ ti_stage_id t))
            (List.find (\<lambda>s. ws_id s = ti_stage_id t) (wf_stages (rs_recipe recipe)))) (\<lambda>stage.
          case ws_roles stage of
            [role] \<Rightarrow> Inr role
          | _ \<Rightarrow> Inl (Refused (''task '' @ ti_id t @ '' must name a roleId for stage '' @ ti_stage_id t)))) (\<lambda>role_id.
    Inr \<lparr>pt_id = ti_id t, pt_title = ti_title t, pt_spec = ti_spec t, pt_stage_id = ti_stage_id t,
      pt_role_id = role_id, pt_depends_on = ti_depends_on t,
      pt_inputs = (case ti_inputs t of Some v \<Rightarrow> v | None \<Rightarrow> JObj [(''objective'', JStr objective)]),
      pt_corrects_task_id = ti_corrects_task_id t\<rparr>)"

definition task_input_json :: "plan_task_input \<Rightarrow> json" where
  "task_input_json t = JObj [(''correctsTaskId'', opt_str_json (ti_corrects_task_id t)),
     (''dependsOn'', JArr (map JStr (ti_depends_on t))), (''id'', JStr (ti_id t)),
     (''inputs'', case ti_inputs t of None \<Rightarrow> JNull | Some v \<Rightarrow> v), (''roleId'', opt_str_json (ti_role_id t)),
     (''spec'', JStr (ti_spec t)), (''stageId'', JStr (ti_stage_id t)), (''title'', JStr (ti_title t))]"

definition stage_input_json :: "plan_stage_input \<Rightarrow> json" where
  "stage_input_json s = JObj [(''fallbacks'', JArr (map JStr (si_fallbacks s))), (''gate'', JBool (si_gate s)),
     (''id'', JStr (si_id s)), (''profile'', opt_str_json (si_profile s)), (''title'', opt_str_json (si_title s))]"

definition shared_content_digest :: "json_library \<Rightarrow> shared_plan_snapshot \<Rightarrow> string" where
  "shared_content_digest lib p = jl_digest lib (JObj
     [(''maxConcurrent'', JInt (int (sp_max_concurrent p))), (''objective'', JStr (sp_objective p)),
      (''stages'', JArr (map stage_input_json (sp_stages p))), (''stallPolicy'', JStr (sp_stall_policy p)),
      (''tasks'', JArr (map task_input_json (sp_tasks p))), (''version'', JInt (int (sp_version p)))])"

fun shared_stages :: "string option \<Rightarrow> string list \<Rightarrow> plan_stage_input list \<Rightarrow> plan_stage_input list workflow" where
  "shared_stages worker seen [] = Inr []"
| "shared_stages worker seen (s # ss) =
    bindE (checked (portable_id (si_id s))) (\<lambda>_.
    bindE (bailW (si_id s \<in> set seen) (''duplicate stage id: '' @ si_id s)) (\<lambda>_.
    let s = (if si_profile s = None then s\<lparr>si_profile := worker\<rparr> else s)
    in bindE (bailW (case si_profile s of None \<Rightarrow> True | Some n \<Rightarrow> trim n = '''') (''stage '' @ si_id s @ '' needs a profile'')) (\<lambda>_.
    bindE (shared_stages worker (si_id s # seen) ss) (\<lambda>ss. Inr (s # ss)))))"

fun shared_tasks :: "string set \<Rightarrow> string set \<Rightarrow> plan_task_input list \<Rightarrow> unit workflow" where
  "shared_tasks stage_ids ids [] = Inr ()"
| "shared_tasks stage_ids ids (t # ts) =
    bindE (checked (portable_id (ti_id t))) (\<lambda>_.
    bindE (workflow_text (ti_title t) 256) (\<lambda>_.
    bindE (workflow_text (ti_spec t) 16384) (\<lambda>_.
    bindE (bailW (ti_stage_id t \<notin> stage_ids) (''task '' @ ti_id t @ '' names an unknown stage '' @ ti_stage_id t)) (\<lambda>_.
    bindE (bailW (\<exists>d \<in> set (ti_depends_on t). d = ti_id t \<or> d \<notin> ids)
      (''task '' @ ti_id t @ '' has a missing or self-referential dependency'')) (\<lambda>_.
    shared_tasks stage_ids ids ts)))))"

definition shared_plan ::
  "json_library \<Rightarrow> string \<Rightarrow> plan_stage_input list \<Rightarrow> plan_task_input list \<Rightarrow> string option \<Rightarrow> string \<Rightarrow> nat \<Rightarrow> shared_plan_snapshot workflow" where
  "shared_plan lib objective stages tasks worker stall_policy max_concurrent =
    bindE (bailW (stages = []) ''plan.stages must not be empty'') (\<lambda>_.
    bindE (shared_stages worker [] stages) (\<lambda>ss.
    bindE (bailW (card (ti_id ` set tasks) \<noteq> length tasks) ''duplicate plan task id'') (\<lambda>_.
    bindE (shared_tasks (si_id ` set ss) (ti_id ` set tasks) tasks) (\<lambda>_.
    bindE (bailW (order_loop ti_id ti_depends_on tasks [] = None) ''plan task dependencies contain a cycle'') (\<lambda>_.
    let plan = \<lparr>sp_version = 2, sp_objective = objective, sp_stages = ss, sp_tasks = tasks,
          sp_stall_policy = stall_policy, sp_max_concurrent = max_concurrent, sp_digest = ''''\<rparr>
    in Inr (plan\<lparr>sp_digest := shared_content_digest lib plan\<rparr>))))))"

section \<open>Compiled plans\<close>

text \<open>What the loop body makes of a task.\<close>

definition froze :: "json_library \<Rightarrow> plan_proposal \<Rightarrow> workflow_recipe \<Rightarrow> plan_task \<Rightarrow> frozen_task \<Rightarrow> bool" where
  "froze lib p recipe t f \<longleftrightarrow> (\<exists>stage \<in> set (wf_stages recipe). ws_id stage = pt_stage_id t
     \<and> pt_role_id t \<in> set (ws_roles stage)
     \<and> ft_task f = t\<lparr>pt_depends_on := ft_deps f\<rparr>
     \<and> set (ft_deps f) = set (pt_depends_on t) \<union> pt_id ` {q \<in> set (pp_tasks p). pt_stage_id q \<in> set (ws_depends_on stage)}
     \<and> set (pt_depends_on t) \<subseteq> pt_id ` set (pp_tasks p)
     \<and> (\<exists>role \<in> set (wf_roles recipe). wr_id role = pt_role_id t
          \<and> (\<exists>contract \<in> set (wf_contracts recipe). rc_id contract = wr_contract_id role
               \<and> rc_revision contract = wr_contract_revision role
               \<and> snapshot_freeze lib contract (pt_inputs t) = Inr (ft_contract f)))
     \<and> map_of (pp_role_profiles p) (pt_role_id t) = Some (ft_profile_id f))"

lemma find_SomeD: "List.find P xs = Some x \<Longrightarrow> x \<in> set xs \<and> P x"
  by (auto simp: find_Some_iff)

lemma freeze_task_Inr:
  assumes "freeze_task lib p recipe t = Inr f"
  shows "froze lib p recipe t f"
proof -
  from assms obtain stage role contract where s:
    "List.find (\<lambda>s. ws_id s = pt_stage_id t) (wf_stages recipe) = Some stage" "pt_role_id t \<in> set (ws_roles stage)"
    "List.find (\<lambda>r. wr_id r = pt_role_id t) (wf_roles recipe) = Some role"
    "set (pt_depends_on t) \<subseteq> pt_id ` set (pp_tasks p)"
    "List.find (\<lambda>c. rc_id c = wr_contract_id role \<and> rc_revision c = wr_contract_revision role) (wf_contracts recipe) = Some contract"
    "snapshot_freeze lib contract (pt_inputs t) = Inr (ft_contract f)"
    "map_of (pp_role_profiles p) (pt_role_id t) = Some (ft_profile_id f)"
    "ft_task f = t\<lparr>pt_depends_on := sort (remdups (pt_depends_on t
       @ map pt_id (filter (\<lambda>q. pt_stage_id q \<in> set (ws_depends_on stage)) (pp_tasks p))))\<rparr>"
    unfolding freeze_task_def bindE_Inr_iff by (auto simp: bindE_Inr_iff Let_def)
  note d = find_SomeD [OF s(1)] find_SomeD [OF s(3)] find_SomeD [OF s(5)]
  show ?thesis unfolding froze_def
    using d s(2,4,6-8) by (intro bexI [of _ stage] conjI bexI [of _ role] bexI [of _ contract]) auto
qed

lemma freeze_tasks_Inr:
  "freeze_tasks lib p recipe ts = Inr fs \<Longrightarrow> list_all2 (froze lib p recipe) ts fs"
  by (induction ts arbitrary: fs) (auto simp: bindE_Inr_iff freeze_task_Inr)

text \<open>The compiled tasks are the proposed tasks, frozen; they are in dependency order and cover the recipe.\<close>

lemma compile_plan_Inr:
  assumes "compile_plan lib p recipe profiles ws = Inr plan"
  obtains fs where "list_all2 (froze lib p (rs_recipe recipe)) (pp_tasks p) fs" "covered (rs_recipe recipe) fs"
    "dependency_order ft_id ft_deps (ps_tasks plan)" "mset (ps_tasks plan) = mset fs" "distinct (map ft_id fs)"
    "recipe_ok lib (rs_recipe recipe)" "ps_recipe plan = recipe" "ps_profiles plan = profiles"
    "ps_digest plan = plan_content_digest lib plan"
proof -
  from assms obtain fs where fs: "validate_selection lib p recipe profiles = Inr ()"
    "freeze_tasks lib p (rs_recipe recipe) (pp_tasks p) = Inr fs" "covered (rs_recipe recipe) fs"
    "order_loop ft_id ft_deps fs [] = Some (ps_tasks plan)" "ps_recipe plan = recipe" "ps_profiles plan = profiles"
    "ps_digest plan = plan_content_digest lib plan"
    unfolding compile_plan_def bindE_Inr_iff by (auto simp: bindE_Inr_iff Let_def plan_content_digest_def plan_members_def)
  have "recipe_validate lib (rs_recipe recipe) = Inr ()"
    using fs(1) unfolding validate_selection_def recipe_snapshot_validate_def bindE_Inr_iff by auto
  with fs freeze_tasks_Inr [OF fs(2)] order_loop_permutes [OF fs(4)] recipe_validate_ok show ?thesis
    by (intro that [of fs]) auto
qed

lemma froze_stage:
  assumes "froze lib p recipe t f" "distinct (map ws_id (wf_stages recipe))"
    "s \<in> set (wf_stages recipe)" "ws_id s = pt_stage_id t" "q \<in> set (pp_tasks p)" "pt_stage_id q \<in> set (ws_depends_on s)"
  shows "pt_id q \<in> set (ft_deps f)"
proof -
  from assms(1) obtain s' where s': "s' \<in> set (wf_stages recipe)" "ws_id s' = pt_stage_id t"
    "set (ft_deps f) = set (pt_depends_on t) \<union> pt_id ` {q \<in> set (pp_tasks p). pt_stage_id q \<in> set (ws_depends_on s')}"
    unfolding froze_def by blast
  have "s' = s" using assms(2-4) s'(1,2) by (metis distinct_map inj_on_def)
  with s'(3) assms(5,6) show ?thesis by blast
qed

text \<open>Every task of a later stage depends, through other tasks, on every task of an earlier one.\<close>

lemma stage_barrier:
  assumes all: "list_all2 (froze lib p recipe) (pp_tasks p) fs" and "covered recipe fs" "recipe_ok lib recipe"
    and "(a, b) \<in> (stage_edges (wf_stages recipe))\<^sup>+" "f \<in> set fs" "pt_stage_id (ft_task f) = a"
    "g \<in> set fs" "pt_stage_id (ft_task g) = b"
  shows "(ft_id f, ft_id g) \<in> (dependency_edges ft_id ft_deps fs)\<^sup>+"
proof -
  have dist: "distinct (map ws_id (wf_stages recipe))"
    and closed: "\<forall>s \<in> set (wf_stages recipe). set (ws_depends_on s) \<subseteq> ws_id ` set (wf_stages recipe)"
    using assms(3) by (auto simp: recipe_ok_def orderable_def)
  have pick: "\<exists>t \<in> set (pp_tasks p). froze lib p recipe t h" if "h \<in> set fs" for h
    using all that by (metis list_all2_conv_all_nth in_set_conv_nth)
  have same: "pt_id t = ft_id h \<and> pt_stage_id t = pt_stage_id (ft_task h)" if "froze lib p recipe t h" for t h
    using that unfolding froze_def by (metis plan_task.select_convs(1,4) plan_task.surjective plan_task.update_convs(6))
  have edge: "(ft_id h, ft_id k) \<in> dependency_edges ft_id ft_deps fs"
    if h: "h \<in> set fs" and k: "k \<in> set fs"
      and e: "(pt_stage_id (ft_task h), pt_stage_id (ft_task k)) \<in> stage_edges (wf_stages recipe)" for h k
  proof -
    obtain q t where qt: "q \<in> set (pp_tasks p)" "froze lib p recipe q h" "t \<in> set (pp_tasks p)" "froze lib p recipe t k"
      using pick h k by blast
    obtain s where s: "s \<in> set (wf_stages recipe)" "ws_id s = pt_stage_id (ft_task k)"
      "pt_stage_id (ft_task h) \<in> set (ws_depends_on s)" using e by (auto simp: dependency_edges_def)
    have "pt_id q \<in> set (ft_deps k)"
      using froze_stage [OF qt(4) dist s(1) _ qt(1)] s(2,3) same qt by simp
    then show ?thesis using same [OF qt(2)] h k unfolding dependency_edges_def by auto
  qed
  from assms(4,7,8) show ?thesis
  proof (induction arbitrary: g rule: trancl_induct)
    case (base b)
    then show ?case using edge assms(5,6) by blast
  next
    case (step b c)
    then obtain s where s: "s \<in> set (wf_stages recipe)" "ws_id s = b" using closed by (fastforce simp: dependency_edges_def)
    then obtain role where "role \<in> set (ws_roles s)" using assms(3) by (metis recipe_ok_def list.set_intros(1) neq_Nil_conv)
    then obtain h where h: "h \<in> set fs" "pt_stage_id (ft_task h) = b" using assms(2) s by (fastforce simp: covered_def)
    have "(ft_id f, ft_id h) \<in> (dependency_edges ft_id ft_deps fs)\<^sup>+" using step.IH h by blast
    moreover have "(ft_id h, ft_id g) \<in> dependency_edges ft_id ft_deps fs" using edge h step by blast
    ultimately show ?case by (rule trancl_into_trancl)
  qed
qed

text \<open>
  C31: A compiled plan carries out its recipe.  It has exactly the proposed tasks, listed so that every task
  comes after the tasks it depends on.  Every task of a stage depends, directly or through other tasks, on
  every task of every stage that precedes it in the recipe, even where the coordinator proposed no such edge.
  Every role of every stage has a task, every task works under the contract its role binds, frozen with
  the task's inputs, and runs with the profile chosen for its role.
\<close>

theorem compiled_plans_carry_out_the_recipe:
  assumes "compile_plan lib p recipe profiles ws = Inr plan"
  shows "mset (map ft_id (ps_tasks plan)) = mset (map pt_id (pp_tasks p))
    \<and> (\<forall>f \<in> set (ps_tasks plan). \<forall>d \<in> set (ft_deps f). comes_before (map ft_id (ps_tasks plan)) d (ft_id f))
    \<and> (\<forall>f \<in> set (ps_tasks plan). \<forall>g \<in> set (ps_tasks plan).
        (pt_stage_id (ft_task f), pt_stage_id (ft_task g)) \<in> (stage_edges (wf_stages (rs_recipe recipe)))\<^sup>+ \<longrightarrow>
        (ft_id f, ft_id g) \<in> (dependency_edges ft_id ft_deps (ps_tasks plan))\<^sup>+)
    \<and> covered (rs_recipe recipe) (ps_tasks plan)
    \<and> (\<forall>f \<in> set (ps_tasks plan). snapshot_validate lib (ft_contract f) = Inr ()
        \<and> map_of (pp_role_profiles p) (pt_role_id (ft_task f)) = Some (ft_profile_id f))"
proof -
  obtain fs where fs: "list_all2 (froze lib p (rs_recipe recipe)) (pp_tasks p) fs" "covered (rs_recipe recipe) fs"
    "dependency_order ft_id ft_deps (ps_tasks plan)" "mset (ps_tasks plan) = mset fs" "recipe_ok lib (rs_recipe recipe)"
    using compile_plan_Inr [OF assms] by blast
  have set: "set (ps_tasks plan) = set fs" using fs(4) by (rule mset_eq_setD)
  have froze: "pt_id t = ft_id f \<and> snapshot_validate lib (ft_contract f) = Inr ()
      \<and> map_of (pp_role_profiles p) (pt_role_id (ft_task f)) = Some (ft_profile_id f)"
    if "froze lib p (rs_recipe recipe) t f" for t f
  proof -
    from that obtain contract where "snapshot_freeze lib contract (pt_inputs t) = Inr (ft_contract f)"
      "ft_task f = t\<lparr>pt_depends_on := ft_deps f\<rparr>" "map_of (pp_role_profiles p) (pt_role_id t) = Some (ft_profile_id f)"
      unfolding froze_def by blast
    then show ?thesis
      by (metis snapshot_freeze_validates plan_task.select_convs(1,5) plan_task.surjective plan_task.update_convs(6))
  qed
  have "map ft_id fs = map pt_id (pp_tasks p)"
    using fs(1) froze by (induction rule: list_all2_induct) auto
  then have 1: "mset (map ft_id (ps_tasks plan)) = mset (map pt_id (pp_tasks p))"
    using fs(4) by (metis mset_map)
  have 2: "\<forall>f \<in> set (ps_tasks plan). \<forall>d \<in> set (ft_deps f). comes_before (map ft_id (ps_tasks plan)) d (ft_id f)"
    using dependency_order_before [OF fs(3)] by blast
  have 3: "\<forall>f \<in> set (ps_tasks plan). \<forall>g \<in> set (ps_tasks plan).
      (pt_stage_id (ft_task f), pt_stage_id (ft_task g)) \<in> (stage_edges (wf_stages (rs_recipe recipe)))\<^sup>+ \<longrightarrow>
      (ft_id f, ft_id g) \<in> (dependency_edges ft_id ft_deps (ps_tasks plan))\<^sup>+"
    using stage_barrier [OF fs(1,2,5)] dependency_edges_mset [OF fs(4), of ft_id ft_deps] set by simp
  have 4: "covered (rs_recipe recipe) (ps_tasks plan)" using fs(2) set by (simp add: covered_def)
  have "\<forall>f \<in> set fs. \<exists>t. froze lib p (rs_recipe recipe) t f"
    using fs(1) by (metis list_all2_conv_all_nth in_set_conv_nth)
  with froze set 1 2 3 4 show ?thesis by blast
qed

section \<open>Shared plans\<close>

lemma shared_stages_Inr:
  "shared_stages worker seen ss = Inr ss' \<Longrightarrow> map si_id ss' = map si_id ss \<and> distinct (map si_id ss)
     \<and> (\<forall>s \<in> set ss'. \<exists>n. si_profile s = Some n \<and> trim n \<noteq> '''')
     \<and> si_id ` set ss \<inter> set seen = {}"
proof (induction ss arbitrary: seen ss')
  case (Cons s ss)
  then obtain ss1 where ss1: "shared_stages worker (si_id s # seen) ss = Inr ss1" "si_id s \<notin> set seen"
    "ss' = (if si_profile s = None then s\<lparr>si_profile := worker\<rparr> else s) # ss1"
    "\<exists>n. si_profile (if si_profile s = None then s\<lparr>si_profile := worker\<rparr> else s) = Some n \<and> trim n \<noteq> ''''"
    by (auto simp: bindE_Inr_iff Let_def split: option.splits if_splits)
  with Cons.IH [OF ss1(1)] show ?case by (auto split: if_splits)
qed simp

lemma shared_tasks_Inr:
  "shared_tasks stage_ids ids ts = Inr () \<Longrightarrow> \<forall>t \<in> set ts. ti_stage_id t \<in> stage_ids \<and> set (ti_depends_on t) \<subseteq> ids"
  by (induction ts) (auto simp: bindE_Inr_iff)

text \<open>
  C39: An accepted plan of a shared run is a task graph that can be worked off.  Its tasks are the
  proposed ones, their identifiers are unique, every dependency names one of them and none is circular;
  every task belongs to a stage, and every stage has a worker profile, the run's own where it named none.
\<close>

theorem shared_plans_can_be_worked_off:
  assumes "shared_plan lib objective stages tasks worker stall_policy max_concurrent = Inr plan"
  shows "sp_tasks plan = tasks \<and> orderable ti_id ti_depends_on tasks
    \<and> map si_id (sp_stages plan) = map si_id stages \<and> distinct (map si_id stages)
    \<and> (\<forall>t \<in> set tasks. ti_stage_id t \<in> si_id ` set (sp_stages plan))
    \<and> (\<forall>s \<in> set (sp_stages plan). \<exists>n. si_profile s = Some n \<and> trim n \<noteq> '''')"
proof -
  from assms obtain ss where ss: "shared_stages worker [] stages = Inr ss"
    "shared_tasks (si_id ` set ss) (ti_id ` set tasks) tasks = Inr ()"
    "order_loop ti_id ti_depends_on tasks [] \<noteq> None" "sp_stages plan = ss" "sp_tasks plan = tasks"
    unfolding shared_plan_def bindE_Inr_iff by (auto simp: Let_def)
  have "orderable ti_id ti_depends_on tasks" using ss(3) unfolding order_loop_iff [symmetric] by blast
  with ss shared_stages_Inr [OF ss(1)] shared_tasks_Inr [OF ss(2)] show ?thesis by auto
qed

section \<open>Planning never panics\<close>

lemma calm_workflow_text [calm_intros, simp]: "calm (workflow_text v n)"
  by (simp add: workflow_text_def)

lemma calm_of_option [calm_intros, simp]: "calm (of_option (Refused e) x)"
  by (cases x) simp_all

lemma calm_check_profiles [calm_intros, simp]: "calm (check_profiles ps)"
  by (induction ps rule: check_profiles.induct) (auto intro!: calm_intros)

lemma calm_validate_selection [calm_intros, simp]: "calm (validate_selection lib p recipe profiles)"
  unfolding validate_selection_def by (intro calm_intros)

lemma calm_freeze_task:
  assumes "wr_id ` set (wf_roles recipe) \<subseteq> fst ` set (pp_role_profiles p)"
  shows "calm (freeze_task lib p recipe t)"
proof -
  have bound: "calm (of_option Panicked (map_of (pp_role_profiles p) (pt_role_id t)))"
    if "List.find (\<lambda>r. wr_id r = pt_role_id t) (wf_roles recipe) = Some role" for role
  proof -
    have "pt_role_id t \<in> wr_id ` set (wf_roles recipe)" using find_SomeD [OF that] by (metis imageI)
    then have "pt_role_id t \<in> fst ` set (pp_role_profiles p)" by (rule subsetD [OF assms])
    then obtain profile where "map_of (pp_role_profiles p) (pt_role_id t) = Some profile"
      by (cases "map_of (pp_role_profiles p) (pt_role_id t)") (simp_all add: map_of_eq_None_iff)
    then show ?thesis by simp
  qed
  then show ?thesis unfolding freeze_task_def Let_def
    by (intro calm_intros) (simp add: bound)
qed

lemma calm_freeze_tasks:
  assumes "wr_id ` set (wf_roles recipe) \<subseteq> fst ` set (pp_role_profiles p)"
  shows "calm (freeze_tasks lib p recipe ts)"
  by (induction ts) (auto intro!: calm_intros calm_freeze_task [OF assms])

lemma calm_shared_stages [calm_intros, simp]: "calm (shared_stages worker seen ss)"
proof (induction ss arbitrary: seen)
  case (Cons s ss)
  show ?case unfolding shared_stages.simps Let_def by (intro calm_intros Cons.IH)
qed simp

lemma calm_shared_tasks [calm_intros, simp]: "calm (shared_tasks stage_ids ids ts)"
  by (induction ts) (auto intro!: calm_intros)

text \<open>
  C40: No input makes planning panic: the maps it indexes without a check, the stages in the search for the
  ancestors of a gate and the profiles of the roles when a task is frozen, contain every key looked up.
\<close>

theorem planning_never_panics:
  "recipe_validate lib r \<noteq> Inl Panicked \<and> compile_plan lib p recipe profiles ws \<noteq> Inl Panicked
    \<and> isolated_task t recipe objective \<noteq> Inl Panicked
    \<and> shared_plan lib objective stages tasks worker stall_policy max_concurrent \<noteq> Inl Panicked"
proof -
  have "wr_id ` set (wf_roles (rs_recipe recipe)) \<subseteq> fst ` set (pp_role_profiles p)"
    if "validate_selection lib p recipe profiles = Inr u" for u
    using that unfolding validate_selection_def bindE_Inr_iff by simp
  then have "calm (compile_plan lib p recipe profiles ws)"
    unfolding compile_plan_def Let_def by (intro calm_intros calm_freeze_tasks)

  moreover have "calm (isolated_task t recipe objective)"
    unfolding isolated_task_def
    by (intro calm_intros) (auto split: option.splits list.splits intro!: calm_intros)
  moreover have "calm (shared_plan lib objective stages tasks worker stall_policy max_concurrent)"
    unfolding shared_plan_def Let_def by (intro calm_intros)
  moreover have "calm (recipe_validate lib r)" by simp
  ultimately show ?thesis by (simp add: calm_def)
qed

section \<open>A plan\<close>

definition demo_plan_task :: "string \<Rightarrow> string \<Rightarrow> plan_task" where
  "demo_plan_task i stage = \<lparr>pt_id = i, pt_title = ''Title'', pt_spec = ''Spec'', pt_stage_id = stage,
     pt_role_id = ''worker'', pt_depends_on = [], pt_inputs = demo_inputs, pt_corrects_task_id = None\<rparr>"

definition demo_proposal :: plan_proposal where
  "demo_proposal = \<lparr>pp_objective = ''Ship'', pp_source_sha = replicate 40 CHR ''a'', pp_recipe_source = BuiltIn ''recipe'',
     pp_expected_recipe_digest = ''d'', pp_coordinator_profile_id = ''boss'', pp_role_profiles = [(''worker'', ''boss'')],
     pp_max_concurrent = 4, pp_tasks = [demo_plan_task ''t2'' ''ship'', demo_plan_task ''t1'' ''build'']\<rparr>"

definition demo_profile :: agent_profile where
  "demo_profile = \<lparr>ap_id = ''boss'', ap_name = ''Boss'', ap_sort_order = 0, ap_agent_type = ''agent'', ap_command = ''run'',
     ap_launch_mode = Command, ap_managed_config = None, ap_custom_prompt = '''', ap_description = '''', ap_quota_group = None,
     ap_show_in_new_tab_menu = False, ap_revision = 0, ap_created_at = ''t'', ap_updated_at = ''t''\<rparr>"

definition demo_recipe_snapshot :: recipe_snapshot where
  "demo_recipe_snapshot = \<lparr>rs_version = 1, rs_source = BuiltIn ''recipe'', rs_recipe = demo_recipe, rs_digest = ''d''\<rparr>"

definition demo_workspace :: source_workspace where
  "demo_workspace = \<lparr>sw_workspace_id = ''w'', sw_instance_id = ''i'', sw_project_id = ''p'', sw_path = ''/w'', sw_project_repo_path = ''/r''\<rparr>"

definition demo_frozen :: "string \<Rightarrow> string \<Rightarrow> string list \<Rightarrow> frozen_task" where
  "demo_frozen i stage deps = \<lparr>ft_task = (demo_plan_task i stage)\<lparr>pt_depends_on := deps\<rparr>,
     ft_contract = \<lparr>cs_version = 1, cs_contract = demo_contract, cs_inputs = demo_inputs, cs_digest = ''d''\<rparr>, ft_profile_id = ''boss''\<rparr>"

definition demo_plan :: plan_snapshot where
  "demo_plan = \<lparr>ps_version = 1, ps_source_workspace = demo_workspace, ps_objective = ''Ship'',
     ps_source_sha = replicate 40 CHR ''a'', ps_recipe = demo_recipe_snapshot, ps_coordinator_profile_id = ''boss'',
     ps_profiles = [(''boss'', demo_profile)], ps_max_concurrent = 4,
     ps_tasks = [demo_frozen ''t1'' ''build'' [], demo_frozen ''t2'' ''ship'' [''t1'']], ps_digest = ''d''\<rparr>"

lemmas demo_json = bounded_json_def bounded_loop.simps recipe_json_def role_json_def stage_json_def gate_json_def
  contract_json_def checklist_json_def demo_recipe_def demo_stage_def demo_contract_def demo_schema_def
  demo_library_def workflow_document_max_bytes_def proposal_json_def plan_task_json_def opt_str_json_def
  demo_proposal_def demo_plan_task_def demo_inputs_def workflow_plan_max_bytes_def plan_json_def plan_members_def
  profile_json_def contract_snapshot_json_def recipe_snapshot_json_def frozen_task_json_def source_workspace_json_def
  demo_plan_def demo_profile_def demo_recipe_snapshot_def demo_workspace_def demo_frozen_def less_list_code

lemma demo_selection: "validate_selection demo_library demo_proposal demo_recipe_snapshot [(''boss'', demo_profile)] = Inr ()"
proof -
  have "bounded_json demo_library (proposal_json demo_proposal) workflow_plan_max_bytes = Inr ()"
    by (simp add: demo_json)
  moreover have "portable_id ''recipe'' = Inr ()" by code_simp
  then have "recipe_snapshot_validate demo_library demo_recipe_snapshot = Inr ()"
    using demo_recipe_valid
    by (simp add: recipe_snapshot_validate_def demo_recipe_snapshot_def source_validate_def recipe_snapshot_digest_def
      demo_library_def) (simp add: demo_recipe_def)
  moreover have "trim ''Ship'' \<noteq> '''' \<and> trim ''agent'' \<noteq> '''' \<and> trim ''run'' \<noteq> ''''"
    by (simp add: trim_graphic graphic_def)
  ultimately show ?thesis
    by (simp add: validate_selection_def demo_proposal_def workflow_text_def lower_hex_def list_all_iff
      demo_recipe_snapshot_def recipe_content_digest_def demo_library_def demo_recipe_def demo_profile_def)
qed

lemma demo_freeze_tasks:
  "freeze_tasks demo_library demo_proposal demo_recipe (pp_tasks demo_proposal)
    = Inr [demo_frozen ''t2'' ''ship'' [''t1''], demo_frozen ''t1'' ''build'' []]"
proof -
  have "portable_id ''t1'' = Inr () \<and> portable_id ''t2'' = Inr ()" by code_simp
  moreover have "trim ''Title'' \<noteq> '''' \<and> trim ''Spec'' \<noteq> ''''" by (simp add: trim_graphic graphic_def)
  ultimately show ?thesis
    using demo_freezes
    by (simp add: freeze_task_def demo_proposal_def demo_plan_task_def workflow_text_def workflow_plan_max_tasks_def
      demo_recipe_def demo_stage_def demo_frozen_def Let_def) (simp add: demo_contract_def)
qed

lemma demo_compiles:
  "compile_plan demo_library demo_proposal demo_recipe_snapshot [(''boss'', demo_profile)] demo_workspace = Inr demo_plan"
proof -
  have order: "order_loop ft_id ft_deps [demo_frozen ''t2'' ''ship'' [''t1''], demo_frozen ''t1'' ''build'' []] []
    = Some [demo_frozen ''t1'' ''build'' [], demo_frozen ''t2'' ''ship'' [''t1'']]"
    by (simp add: order_loop.simps order_pass_def place_def demo_frozen_def demo_plan_task_def)
  have "covered demo_recipe [demo_frozen ''t2'' ''ship'' [''t1''], demo_frozen ''t1'' ''build'' []]"
    by (simp add: covered_def demo_recipe_def demo_stage_def demo_frozen_def demo_plan_task_def)
  moreover have "bounded_json demo_library (plan_json (demo_plan\<lparr>ps_digest := ''''\<rparr>)) workflow_plan_max_bytes = Inr ()"
    by (simp add: demo_json)
  ultimately show ?thesis
    using demo_selection demo_freeze_tasks order
    by (simp add: compile_plan_def demo_recipe_snapshot_def workflow_plan_max_tasks_def Let_def plan_content_digest_def
      demo_library_def demo_plan_def) (simp add: demo_proposal_def demo_plan_task_def demo_library_def)
qed

theorem compiled_plans_carry_out_the_recipe_witness:
  "compile_plan demo_library demo_proposal demo_recipe_snapshot [(''boss'', demo_profile)] demo_workspace = Inr demo_plan
    \<and> (''t1'', ''t2'') \<in> (dependency_edges ft_id ft_deps (ps_tasks demo_plan))\<^sup>+"
proof -
  let ?f = "demo_frozen ''t1'' ''build'' []" and ?g = "demo_frozen ''t2'' ''ship'' [''t1'']"
  have "?f \<in> set (ps_tasks demo_plan)" "?g \<in> set (ps_tasks demo_plan)" by (simp_all add: demo_plan_def)
  moreover have "(''build'', ''ship'') \<in> stage_edges (wf_stages (rs_recipe demo_recipe_snapshot))"
    by (simp add: dependency_edges_def demo_recipe_snapshot_def demo_recipe_def demo_stage_def
      conj_disj_distribL conj_disj_distribR ex_disj_distrib)
  then have "(pt_stage_id (ft_task ?f), pt_stage_id (ft_task ?g))
      \<in> (stage_edges (wf_stages (rs_recipe demo_recipe_snapshot)))\<^sup>+"
    by (simp add: demo_frozen_def demo_plan_task_def)
  ultimately have "(ft_id ?f, ft_id ?g) \<in> (dependency_edges ft_id ft_deps (ps_tasks demo_plan))\<^sup>+"
    using compiled_plans_carry_out_the_recipe [OF demo_compiles] by blast
  then show ?thesis using demo_compiles by (simp add: demo_frozen_def demo_plan_task_def)
qed

definition demo_task_input :: "string \<Rightarrow> string list \<Rightarrow> plan_task_input" where
  "demo_task_input i deps = \<lparr>ti_id = i, ti_title = ''Title'', ti_spec = ''Spec'', ti_stage_id = ''s'', ti_role_id = None,
     ti_depends_on = deps, ti_inputs = None, ti_corrects_task_id = None\<rparr>"

lemma demo_shared_plan:
  "\<exists>plan. shared_plan demo_library ''Ship'' [\<lparr>si_id = ''s'', si_title = None, si_profile = None, si_fallbacks = [], si_gate = False\<rparr>]
     [demo_task_input ''b'' [''a''], demo_task_input ''a'' []] (Some ''worker'') ''gate'' 4 = Inr plan"
proof -
  have "portable_id ''s'' = Inr () \<and> portable_id ''a'' = Inr () \<and> portable_id ''b'' = Inr ()" by code_simp
  moreover have "trim ''Title'' \<noteq> '''' \<and> trim ''Spec'' \<noteq> '''' \<and> trim ''worker'' \<noteq> ''''"
    by (simp add: trim_graphic graphic_def)
  ultimately show ?thesis
    by (simp add: shared_plan_def demo_task_input_def workflow_text_def order_loop.simps order_pass_def place_def)
qed

theorem shared_plans_can_be_worked_off_witness:
  "\<exists>plan. shared_plan demo_library ''Ship'' [\<lparr>si_id = ''s'', si_title = None, si_profile = None, si_fallbacks = [], si_gate = False\<rparr>]
     [demo_task_input ''b'' [''a''], demo_task_input ''a'' []] (Some ''worker'') ''gate'' 4 = Inr plan
   \<and> orderable ti_id ti_depends_on (sp_tasks plan)"
proof -
  from demo_shared_plan obtain plan where p: "shared_plan demo_library ''Ship''
     [\<lparr>si_id = ''s'', si_title = None, si_profile = None, si_fallbacks = [], si_gate = False\<rparr>]
     [demo_task_input ''b'' [''a''], demo_task_input ''a'' []] (Some ''worker'') ''gate'' 4 = Inr plan" ..
  from shared_plans_can_be_worked_off [OF p]
  have "sp_tasks plan = [demo_task_input ''b'' [''a''], demo_task_input ''a'' []]"
    "orderable ti_id ti_depends_on [demo_task_input ''b'' [''a''], demo_task_input ''a'' []]" by simp_all
  with p show ?thesis by (intro exI [of _ plan]) (simp only: simp_thms)
qed

end
