(* ===== verification/Spec2Isabelle.thy ===== *)
theory Spec2Isabelle
  imports Output_Delivery Wire_Codec Mutation_Queue Dispatch_Invariant Cancellation_Laws Gate_Laws Inbox_Listing
    Workflow_Plan
begin

text \<open>
  \<^bold>\<open>Verification of the Alera runtime.\<close>

  Alera is a desktop and mobile workbench for coding agents.  Its runtime host
  (\<open>rust/alera-cli/src/terminal_host\<close>) is a single actor that owns the terminals: it reads their output,
  keeps a scrollback, persists it, and serves local clients over a framed socket and remote ones over a relay.
  Its store (\<open>rust/alera-core/src/runtime\<close>) is a SQLite database in which agents are orchestrated: tasks with
  dependencies, dispatches of tasks to terminals, gates that ask people, messages between agents and from
  external inboxes, and plans compiled from workflow recipes.  This development models those two parts.

  \<^bold>\<open>The terminal host.\<close>
  \<^item> \<open>Scrollback_Buffer\<close> (\<open>buffer.rs\<close>): the byte ring.  It holds exactly the last bytes written; its tail starts
    exactly after the first line or its leading continuation bytes (\<open>Utf8\<close>).
  \<^item> \<open>Title_Tracker\<close> (\<open>session/title_tracker.rs\<close>): the byte automaton for OSC titles, with its memory bounds.
  \<^item> \<open>Session_Output\<close> (\<open>session.rs\<close>, \<open>session/output_batching.rs\<close>, \<open>output_backpressure.rs\<close>, \<open>checkpoint.rs\<close>): the
    record of a session, live and durable batches, delivery cursors per client, back pressure.  No byte of the
    durable track is lost and failed batches are retried in order.
  \<^item> \<open>Terminal_Server\<close> and \<open>Output_Delivery\<close> (\<open>server/output_delivery.rs\<close>, \<open>pty_events.rs\<close>, \<open>history_persistence.rs\<close>,
    \<open>history_writer.rs\<close>): the handlers of the actor as functions on a server record, and over every interleaving of
    them what a client received of a terminal is gapless.
  \<^item> \<open>Client_Frames\<close> (\<open>client.rs\<close>, \<open>client_handle.rs\<close>): the control and terminal lanes and the writer task as a step
    relation.  Frames leave in the order they were sent, and all of them do.
  \<^item> \<open>Wire_Codec\<close> (\<open>frame_codec.rs\<close>, \<open>relay_wire.rs\<close>): frames, relay envelopes, fragmentation, and their round trips.
  \<^item> \<open>Mutation_Queue\<close> (\<open>server/runtime_mutation_queue.rs\<close>, \<open>server/lifecycle.rs\<close>): the queue of workspace mutations and
    the idle shutdown as a step relation.  Mutations run one at a time and in order, each gets its turn, and the
    idle timer never disposes of a host with work outstanding.

  \<^bold>\<open>The orchestration store.\<close>  The database is a record of row lists (\<open>Store_Tables\<close>).  A statement is a function of
  that record in the monad of \<open>Store_Monad\<close>; the constraints and triggers of the schema are part of it, and a
  failed transaction is rolled back by \<open>atomic\<close>.  Each public operation of the source is one definition.  The
  clock, random identifiers, the JSON serialiser and the verdicts of role contracts come from the record \<open>env\<close>.
  \<^item> \<open>Orchestration_Models\<close>, \<open>Run_Events\<close>: enums, rows, timeline and audit log.
  \<^item> \<open>Task_Store\<close>, \<open>Dispatch_Store\<close>, \<open>Gate_Store\<close>, \<open>Task_Settlement\<close>: the operations of the files of these names.
    The refresh of dependents and the cancellation closure run on fuel; \<open>refresh_terminates\<close> and
    \<open>cancellation_terminates\<close> show that one step per waiting or cancellable task is enough.
  \<^item> \<open>Store_Calls\<close>: all writing calls as a datatype; the locale \<open>store_relation\<close> lifts a preorder from statements to
    every call and every history, and is interpreted on journal growth, on row growth, on the mailbox refinement and
    on the number of waiting questions.
  \<^item> \<open>Worker_Requests\<close> (\<open>server/orchestration_worker_requests.rs\<close>, \<open>server/orchestration_completion.rs\<close>,
    \<open>server/coordinator_tick.rs\<close>, \<open>server/orchestration_agent_spawn_requests.rs\<close>): the three handlers of the host that fail
    a dispatch, with the reads before it.  The store call itself has no status check, and
    \<open>late_failure_breaks_the_lock\<close> shows what it does to a dispatch that has ended; hence the histories of the dispatch
    lock take these handlers, and the launch of an attempt to a fresh terminal, as whole steps.
  \<^item> \<open>Dispatch_Invariant\<close>, \<open>Dispatch_Laws\<close>, \<open>Cancellation_Laws\<close>, \<open>Gate_Laws\<close>: no task and no terminal has two active
    dispatches; acceptance is authenticated, completion final, failures counted towards a circuit breaker, leases swept
    exactly, cancellation one simultaneous update, gates block and are asked once.
  \<^item> \<open>Message_Store\<close> (\<open>orchestration_message_store.rs\<close>, \<open>inbox_store.rs\<close>, \<open>inbox_retention.rs\<close>, \<open>conversation_store.rs\<close>):
    messages, inbox questions and retention.
  \<^item> \<open>Mailbox\<close>: an abstract mailbox with a lifecycle of letters, and the refinement: every call of the store is a
    finite run of mailbox steps.  From it: a delivery queue is exact and in order, and a message is offered at most
    once.
  \<^item> \<open>Inbox_Laws\<close>, \<open>Inbox_Listing\<close> (\<open>inbox_queries.rs\<close>): the bound on waiting questions, retention per thread, the batched
    scan of threads equal to the direct query, and the listed status against the journalled one.
  \<^item> This theory composes cancellation with the mailbox: messages of cancelled tasks are never offered again.

  \<^bold>\<open>Workflows.\<close>  Fallible functions return a sum whose left side is the refusal, with panics as a refusal of their
  own (\<open>Workflow_Recipe\<close>).
  \<^item> \<open>Workflow_Yaml\<close> (\<open>run_yaml.rs\<close>): documents from YAML events, bounded and with unique keys; round
    trip, for numbers that the number reader reads back.
  \<^item> \<open>Contract_Schema\<close>, \<open>Role_Contract\<close> (\<open>orchestration_contract_schema.rs\<close>, \<open>orchestration_role_contract.rs\<close>): the
    schema dialect, frozen contracts, artifact paths that stay inside the workspace.
  \<^item> \<open>Dependency_Order\<close>, \<open>Workflow_Recipe\<close>, \<open>Workflow_Plan\<close> (\<open>run_recipe.rs\<close>, \<open>run_plan.rs\<close> and their compilation):
    stage order exactly when the graph is acyclic, coherent recipes, plans that carry out the recipe, no panic.

  \<open>Prelude\<close>, \<open>Utf8\<close> and \<open>Rust_Text\<close> hold what the components share: results, list and string functions of the Rust
  library, JSON documents.

  \<^bold>\<open>Conventions and bounds.\<close>  Strings are lists of bytes.  Timestamps are seconds, compared as numbers, as the stored
  texts compare lexicographically.  Row counters, sequence numbers and shutdown generations are natural numbers: they
  grow by one per row or event and do not reach 2 to the 63rd.  Sequence numbers of output streams saturate or wrap
  as in the source (\<open>saturating_add\<close>, \<open>u64_succ\<close>).  The scan of inbox threads recurses on its cursor, which
  decreases with every full batch.

  \<^bold>\<open>Not modelled.\<close>  Code whose work is outside the process: PTYs and processes, git and the file system, sockets,
  cryptography and the services of agents, quotas, voice and accounts.  SQLite's file and the worker thread of the
  history, JSON Schema validation, digests, YAML scanning and the JSON functions of SQLite are arguments with the
  behaviour their users rely on.  The execution of runs after planning (launch permits, integration branches,
  cleanup) and the rest of the coordinator loop interleave store writes with git and with heuristics over terminal
  text; the histories of the dispatch lock do not contain what they write to tasks and dispatches (cancelling a run,
  revising its plan, settling a launch), nor the reset of all tasks.  Automations, workspaces,
  settings and accounts are row storage over tables that no modelled operation reads.  The applications in Dart, the
  generated bridge, the cloud services and the landing page are separate programs.
\<close>

section \<open>Cancellation and delivery\<close>

text \<open>A message withdrawn by a cancellation is settled, one that was settled before stays so.\<close>

lemma cancelled_not_offered:
  assumes "mail_inv s" "mail_rel now erase s s'" "tasks_cancelled env i reason C s s'"
    and "m \<in> set (db_messages s)" "m_task_id m \<in> Some ` C"
  shows "\<not> offered (m_sequence m) (mail_abs s')"
proof (cases "m_state m = SQueued")
  case True
  have "mail_inv s'" using assms(1,2) by (simp add: mail_rel_def)
  with True assms show ?thesis
    unfolding tasks_cancelled_def
    by (intro marked_not_offered [where p = "\<lambda>m. m_task_id m \<in> Some ` C \<and> m_state m = SQueued"
          and f = "\<lambda>m. m\<lparr>m_state := SObsolete, m_obsolete_at := Some (env_now env)\<rparr>"])
      (auto simp: letter_of_def pending_def)
next
  case False
  then have "\<not> offered (m_sequence m) (mail_abs s)"
    using offered_row [OF assms(1)] sequence_unique [OF assms(1) _ assms(4)]
    by (auto simp: letter_of_def pending_def)
  moreover have "m_sequence m \<le> mb_last (mail_abs s)"
    using assms(1,4) by (simp add: mail_inv_def mail_abs_def)
  moreover have "(mail_step now erase)\<^sup>*\<^sup>* (mail_abs s) (mail_abs s')"
    using assms(1,2) by (simp add: mail_rel_def)
  ultimately show ?thesis
    using rtranclp_mono [of "mail_step now erase" mail_move] never_offered_again
    by (metis mail_move_def predicate2D predicate2I)
qed

text \<open>
  C6: Cancelled work is silent.  Once a task that was not cancelled before has been cancelled, no later read
  of a delivery queue, of whatever terminal and after whatever further calls of the store, returns a message
  that had been posted for the task or for one that transitively waits for it.
\<close>

theorem cancelled_work_is_silent:
  assumes "mail_inv s" "cancel_orchestration_task env i reason s = (Inr t, s1)"
    and "task_by_id i s = Some t0" "t_status t0 \<noteq> TCancelled"
    and "m \<in> set (db_messages s)" "m_task_id m \<in> Some ` waiting_on s i"
    and "undelivered_messages env' h now_only (run_mails sql cs s1) = (Inr ms, s2)"
  shows "m_sequence m \<notin> m_sequence ` set ms"
proof -
  have rel: "mail_rel (env_now env) False s s1"
    by (rule obeysD [OF mailing.settlement_calls(1) assms(2)])
  show ?thesis
    by (rule settled_stays_silent [OF assms(1) rel assms(5) _ assms(7)])
      (rule cancelled_not_offered [OF assms(1) rel cancel_run(1) [OF assms(2-4)] assms(5,6)])
qed

text \<open>A queued message for a task that waits for the one to be cancelled.\<close>

definition waiting_message :: message where
  "waiting_message = (demo_row ''m'' ''a'' ''b'' None 1 0)\<lparr>m_task_id := Some ''b''\<rparr>"

definition demo_waiting :: db where
  "demo_waiting = demo_chain\<lparr>db_messages := [waiting_message], db_message_sequence := 1\<rparr>"

theorem cancelled_work_is_silent_witness:
  "case cancel_orchestration_task demo_env ''a'' ''stop'' demo_waiting of (r, s1) \<Rightarrow>
     \<not> isl r \<and> map_sum (\<lambda>_. ()) (map m_sequence) (fst (undelivered_messages demo_env ''b'' False demo_waiting)) = Inr [1]
     \<and> 1 \<notin> m_sequence ` set (projr (fst (undelivered_messages demo_env ''b'' False s1)))"
proof -
  let ?r = "cancel_orchestration_task demo_env ''a'' ''stop'' demo_waiting"
  have ok: "\<not> isl (fst ?r)" by code_simp
  then obtain t s1 where r: "?r = (Inr t, s1)" by (cases ?r; cases "fst ?r") auto
  have "\<not> isl (fst (undelivered_messages demo_env ''b'' False (snd ?r)))" by code_simp
  then obtain ms s2 where u: "undelivered_messages demo_env ''b'' False s1 = (Inr ms, s2)"
    unfolding r snd_conv
    by (cases "undelivered_messages demo_env ''b'' False s1";
        cases "fst (undelivered_messages demo_env ''b'' False s1)") auto
  have rows: "db_tasks demo_waiting = [demo_task ''a'' TReady [], demo_task ''b'' TPending [''a''], demo_task ''c'' TReady []]"
    "db_messages demo_waiting = [waiting_message]" "mail_inv demo_waiting"
    by (simp_all add: demo_waiting_def demo_chain_def empty_db_def mail_inv_def waiting_message_def demo_row_def)
  have "''b'' \<in> waiting_on demo_waiting ''a''"
    using waiting_on_step [OF waiting_on_self, of "demo_task ''b'' TPending [''a'']" demo_waiting "''a''"]
    by (simp add: rows demo_task_def cancellable_def)
  then have "m_sequence waiting_message \<notin> m_sequence ` set ms"
    using cancelled_work_is_silent [OF rows(3) r, of "demo_task ''a'' TReady []" waiting_message demo_env "''b''" False demo_sql "[]"] u
    by (simp add: rows demo_task_def run_mails_def waiting_message_def)
  moreover have "map_sum (\<lambda>_. ()) (map m_sequence) (fst (undelivered_messages demo_env ''b'' False demo_waiting)) = Inr [1]"
    by code_simp
  ultimately show ?thesis
    using ok by (simp add: r u waiting_message_def demo_row_def)
qed

end
